(* ===== verification/Crawl_Prelude.thy ===== *)
theory Crawl_Prelude
  imports Main "HOL-Library.Word" "HOL-Library.List_Lexorder" "HOL-Library.Char_ord"
    "HOL-Library.Product_Lexorder" "HOL-Library.AList" "HOL-Library.Multiset"
begin

text \<open>
  Shared vocabulary of the crawlrs development: the names the model gives to Rust's basic
  types, decimal rendering and parsing of unsigned integers as Rust's \<open>Display\<close> and
  \<open>str::parse\<close> do them, \<open>split_once\<close> and \<open>trim\<close> on strings, and the collections of
  rewrite rules that the component theories extend. A Rust \<open>Result\<close> is a sum whose left
  injection is the error.
\<close>

named_theorems url_simps \<open>rewriting of the canonicalisation pipeline\<close>
named_theorems key_simps \<open>distinctness of Redis keys\<close>
named_theorems shard_simps \<open>operations of the abstract frontier shard\<close>
named_theorems ledger_simps \<open>operations of the metadata ledger\<close>

text \<open>
  Unsigned Rust integers are natural numbers (with the bound written out where it
  matters), \<open>i64\<close> values are integers, a \<open>Duration\<close> is a number of nanoseconds.
\<close>

type_synonym u32 = nat
type_synonym u64 = nat
type_synonym i64 = int
type_synonym duration = nat

abbreviation U32_MAX :: nat where "U32_MAX \<equiv> 4294967295"
abbreviation U64_MAX :: nat where "U64_MAX \<equiv> 18446744073709551615"
abbreviation I64_MAX :: nat where "I64_MAX \<equiv> 9223372036854775807"

text \<open>\<open>x as i64\<close> on a \<open>u64\<close>: the same 64 bits read as two's complement.\<close>

definition u64_as_i64 :: "u64 \<Rightarrow> i64" where
  "u64_as_i64 n = (if n \<le> I64_MAX then int n else int n - 2 ^ 64)"

lemma u64_as_i64_small [simp]: "n \<le> I64_MAX \<Longrightarrow> u64_as_i64 n = int n"
  by (simp add: u64_as_i64_def)

subsection \<open>Decimal numbers\<close>

definition digit_char :: "nat \<Rightarrow> char" where
  "digit_char d = char_of (48 + d)"

definition digit_val :: "char \<Rightarrow> nat option" where
  "digit_val c = (let v = of_char c :: nat in if 48 \<le> v \<and> v \<le> 57 then Some (v - 48) else None)"

fun show_nat :: "nat \<Rightarrow> string" where
  "show_nat n = (if n < 10 then [digit_char n] else show_nat (n div 10) @ [digit_char (n mod 10)])"

declare show_nat.simps [simp del]

fun read_digits :: "nat \<Rightarrow> string \<Rightarrow> nat option" where
  "read_digits acc [] = Some acc"
| "read_digits acc (c # cs) =
     (case digit_val c of None \<Rightarrow> None | Some d \<Rightarrow> read_digits (acc * 10 + d) cs)"

text \<open>\<open>str::parse\<close> for an unsigned type with largest value \<open>mx\<close>: an optional plus sign,
  then at least one digit, and the value must fit.\<close>

definition parse_uint :: "nat \<Rightarrow> string \<Rightarrow> nat option" where
  "parse_uint mx s =
     (let ds = (case s of c # cs \<Rightarrow> if c = CHR ''+'' then cs else s | [] \<Rightarrow> [])
      in if ds = [] then None
         else case read_digits 0 ds of None \<Rightarrow> None | Some v \<Rightarrow> if v \<le> mx then Some v else None)"

lemma digit_val_digit_char [simp]: "d < 10 \<Longrightarrow> digit_val (digit_char d) = Some d"
  by (simp add: digit_val_def digit_char_def Let_def)

lemma digit_val_Some: "digit_val c = Some d \<Longrightarrow> d < 10 \<and> c = digit_char d"
proof -
  assume a: "digit_val c = Some d"
  then have "of_char c = 48 + d" and "d < 10"
    by (auto simp: digit_val_def Let_def split: if_splits)
  then show ?thesis
    by (metis char_of_char digit_char_def)
qed

lemma read_digits_append:
  "read_digits acc (xs @ ys) = (case read_digits acc xs of None \<Rightarrow> None | Some v \<Rightarrow> read_digits v ys)"
  by (induction xs arbitrary: acc) (auto split: option.splits)

lemma read_digits_show: "read_digits 0 (show_nat n) = Some n"
proof (induction n rule: show_nat.induct)
  case (1 n)
  show ?case
  proof (cases "n < 10")
    case True
    then show ?thesis by (subst show_nat.simps) simp
  next
    case False
    with 1 have "read_digits 0 (show_nat (n div 10)) = Some (n div 10)" by simp
    with False show ?thesis
      by (subst show_nat.simps) (simp add: read_digits_append)
  qed
qed

lemma show_nat_digits: "c \<in> set (show_nat n) \<Longrightarrow> digit_val c \<noteq> None"
proof (induction n rule: show_nat.induct)
  case (1 n)
  then show ?case
    by (subst (asm) (2) show_nat.simps) (auto split: if_splits)
qed

lemma show_nat_nonempty [simp]: "show_nat n \<noteq> []"
  by (subst show_nat.simps) simp

lemma digit_val_plus [simp]: "digit_val CHR ''+'' = None"
  by (simp add: digit_val_def Let_def)

lemma digit_val_colon [simp]: "digit_val CHR '':'' = None"
  by (simp add: digit_val_def)

lemma digit_val_bar [simp]: "digit_val CHR ''|'' = None"
  by (simp add: digit_val_def Let_def)

lemma digit_val_brace [simp]: "digit_val CHR ''}'' = None"
  by (simp add: digit_val_def Let_def)

lemma show_nat_no_sep: "digit_val c = None \<Longrightarrow> c \<notin> set (show_nat n)"
  using show_nat_digits by fastforce

lemma parse_uint_show [simp]: "n \<le> mx \<Longrightarrow> parse_uint mx (show_nat n) = Some n"
proof -
  assume le: "n \<le> mx"
  obtain c cs where s: "show_nat n = c # cs"
    by (cases "show_nat n") auto
  have "c \<in> set (show_nat n)" by (simp add: s)
  then have "c \<noteq> CHR ''+''" using show_nat_no_sep [of "CHR ''+''"] by auto
  with s have "(case show_nat n of c # cs \<Rightarrow> if c = CHR ''+'' then cs else show_nat n | [] \<Rightarrow> [])
     = show_nat n" by simp
  with le show ?thesis by (simp add: parse_uint_def read_digits_show)
qed

lemma show_nat_inject [simp]: "show_nat m = show_nat n \<longleftrightarrow> m = n"
  by (metis option.inject read_digits_show)

subsection \<open>Splitting and trimming strings\<close>

text \<open>\<open>split_once\<close> at the first occurrence of a character.\<close>

fun split_once :: "char \<Rightarrow> string \<Rightarrow> (string \<times> string) option" where
  "split_once sep [] = None"
| "split_once sep (c # cs) =
     (if c = sep then Some ([], cs)
      else case split_once sep cs of None \<Rightarrow> None | Some (l, r) \<Rightarrow> Some (c # l, r))"

lemma split_once_append [simp]: "sep \<notin> set l \<Longrightarrow> split_once sep (l @ sep # r) = Some (l, r)"
  by (induction l) auto

lemma digits_then_sep:
  assumes "show_nat m @ c # x = show_nat n @ c # y" "digit_val c = None"
  shows "m = n \<and> x = y"
proof -
  have "split_once c (show_nat m @ c # x) = split_once c (show_nat n @ c # y)" using assms(1) by simp
  then show ?thesis using show_nat_no_sep [OF assms(2)] by simp
qed

lemma split_once_SomeD: "split_once sep s = Some (l, r) \<Longrightarrow> s = l @ sep # r \<and> sep \<notin> set l"
  by (induction s arbitrary: l) (auto split: if_splits option.splits)

lemma split_once_None [simp]: "split_once sep s = None \<longleftrightarrow> sep \<notin> set s"
  by (induction s) (auto split: option.splits)

text \<open>\<open>str::split\<close> at every occurrence of a character, and joining with a separator.\<close>

fun split_char :: "char \<Rightarrow> string \<Rightarrow> string list" where
  "split_char sep [] = [[]]"
| "split_char sep (c # cs) =
     (if c = sep then [] # split_char sep cs
      else case split_char sep cs of [] \<Rightarrow> [[c]] | w # ws \<Rightarrow> (c # w) # ws)"

fun join_char :: "char \<Rightarrow> string list \<Rightarrow> string" where
  "join_char sep [] = []"
| "join_char sep [w] = w"
| "join_char sep (w # ws) = w @ sep # join_char sep ws"

lemma split_char_nonempty [simp]: "split_char sep s \<noteq> []"
  by (cases s) (auto split: list.splits)

lemma split_char_no_sep: "sep \<notin> set s \<Longrightarrow> split_char sep s = [s]"
  by (induction s) auto

lemma split_char_append: "sep \<notin> set w \<Longrightarrow> split_char sep (w @ sep # s) = w # split_char sep s"
  by (induction w) auto

lemma split_join:
  "ws \<noteq> [] \<Longrightarrow> \<forall>w \<in> set ws. sep \<notin> set w \<Longrightarrow> split_char sep (join_char sep ws) = ws"
  by (induction sep ws rule: join_char.induct) (auto simp: split_char_no_sep split_char_append)

lemma split_char_pieces: "w \<in> set (split_char sep s) \<Longrightarrow> sep \<notin> set w"
  by (induction s arbitrary: w) (auto split: if_splits list.splits)

definition ends_with :: "string \<Rightarrow> string \<Rightarrow> bool" where
  "ends_with s suf = (length suf \<le> length s \<and> drop (length s - length suf) s = suf)"

fun starts_with :: "string \<Rightarrow> string \<Rightarrow> bool" where
  "starts_with s [] = True"
| "starts_with [] (p # ps) = False"
| "starts_with (c # cs) (p # ps) = (c = p \<and> starts_with cs ps)"

lemma starts_with_take: "starts_with s p \<longleftrightarrow> take (length p) s = p"
  by (induction s p rule: starts_with.induct) auto

fun contains :: "string \<Rightarrow> string \<Rightarrow> bool" where
  "contains [] p = (p = [])"
| "contains (c # cs) p = (starts_with (c # cs) p \<or> contains cs p)"

lemma contains_iff: "contains s p \<longleftrightarrow> (\<exists>l r. s = l @ p @ r)"
proof (induction s)
  case Nil
  show ?case by auto
next
  case (Cons c cs)
  have hd: "starts_with (c # cs) p \<longleftrightarrow> (\<exists>r. c # cs = p @ r)"
    by (metis append_eq_conv_conj append_take_drop_id starts_with_take)
  show ?case
  proof
    assume "contains (c # cs) p"
    then consider "starts_with (c # cs) p" | "contains cs p" by auto
    then show "\<exists>l r. c # cs = l @ p @ r"
    proof cases
      case 1
      with hd obtain r where "c # cs = [] @ p @ r" by auto
      then show ?thesis by blast
    next
      case 2
      with Cons.IH obtain l r where "cs = l @ p @ r" by auto
      then have "c # cs = (c # l) @ p @ r" by simp
      then show ?thesis by blast
    qed
  next
    assume "\<exists>l r. c # cs = l @ p @ r"
    then obtain l r where lr: "c # cs = l @ p @ r" by auto
    show "contains (c # cs) p"
    proof (cases l)
      case Nil
      with lr hd have "starts_with (c # cs) p" by auto
      then show ?thesis by simp
    next
      case (Cons a l')
      with lr have "cs = l' @ p @ r" by simp
      with Cons.IH show ?thesis by auto
    qed
  qed
qed

text \<open>ASCII case folding, as \<open>to_ascii_lowercase\<close> and \<open>eq_ignore_ascii_case\<close>.\<close>

definition ascii_lower_char :: "char \<Rightarrow> char" where
  "ascii_lower_char c =
     (let v = of_char c :: nat in if 65 \<le> v \<and> v \<le> 90 then char_of (v + 32) else c)"

definition ascii_lower :: "string \<Rightarrow> string" where
  "ascii_lower s = map ascii_lower_char s"

definition eq_ignore_ascii_case :: "string \<Rightarrow> string \<Rightarrow> bool" where
  "eq_ignore_ascii_case a b = (ascii_lower a = ascii_lower b)"

lemma ascii_lower_char_idem [simp]: "ascii_lower_char (ascii_lower_char c) = ascii_lower_char c"
  by (simp add: ascii_lower_char_def Let_def)

lemma ascii_lower_idem [simp]: "ascii_lower (ascii_lower s) = ascii_lower s"
  by (simp add: ascii_lower_def)

lemma length_ascii_lower [simp]: "length (ascii_lower s) = length s"
  by (simp add: ascii_lower_def)

text \<open>\<open>char::is_whitespace\<close> restricted to the ASCII range, and \<open>str::trim\<close>.\<close>

definition is_ws :: "char \<Rightarrow> bool" where
  "is_ws c = (let v = of_char c :: nat in (9 \<le> v \<and> v \<le> 13) \<or> v = 32)"

definition trim_start :: "string \<Rightarrow> string" where
  "trim_start s = dropWhile is_ws s"

definition trim_end :: "string \<Rightarrow> string" where
  "trim_end s = rev (dropWhile is_ws (rev s))"

definition trim :: "string \<Rightarrow> string" where
  "trim s = trim_end (trim_start s)"

subsection \<open>Lists and options\<close>

fun mapM_result :: "('a \<Rightarrow> 'e + 'b) \<Rightarrow> 'a list \<Rightarrow> 'e + 'b list" where
  "mapM_result f [] = Inr []"
| "mapM_result f (x # xs) =
     (case f x of Inl e \<Rightarrow> Inl e
      | Inr y \<Rightarrow> (case mapM_result f xs of Inl e \<Rightarrow> Inl e | Inr ys \<Rightarrow> Inr (y # ys)))"

lemma mapM_result_Inr_length: "mapM_result f xs = Inr ys \<Longrightarrow> length ys = length xs"
  by (induction xs arbitrary: ys) (auto split: sum.splits)

lemma mapM_result_Inr_iff:
  "mapM_result f xs = Inr ys \<longleftrightarrow> list_all2 (\<lambda>x y. f x = Inr y) xs ys"
proof (induction xs arbitrary: ys)
  case Nil
  then show ?case by auto
next
  case (Cons x xs)
  then show ?case
    by (cases ys; cases "f x"; cases "mapM_result f xs") auto
qed

definition opt_or :: "'a option \<Rightarrow> 'a option \<Rightarrow> 'a option" where
  "opt_or a b = (case a of Some x \<Rightarrow> Some x | None \<Rightarrow> b)"

lemma count_list_removeAll_same [simp]: "count_list (removeAll x xs) x = 0"
  by (simp add: count_list_0_iff)

lemma count_list_filter_other: "P y \<Longrightarrow> count_list (filter P xs) y = count_list xs y"
  by (induction xs) auto

lemma filter_nil_conv_ex: "filter P xs \<noteq> [] \<longleftrightarrow> (\<exists>x \<in> set xs. P x)"
  by (auto simp: filter_empty_conv)

text \<open>Association lists: what an update or a deletion leaves, and a walk over one in any order.\<close>

lemma alist_update_in: "(k, v) \<in> set (AList.update a b m) \<Longrightarrow> (k = a \<and> v = b) \<or> (k, v) \<in> set m"
  by (induction m) (auto split: if_splits)

lemma alist_delete_in: "(k, v) \<in> set (AList.delete a m) \<Longrightarrow> (k, v) \<in> set m"
  by (auto simp: AList.delete_eq)

lemma walk_keys: "mset (ord m) = mset m \<Longrightarrow> distinct (map fst m) \<Longrightarrow> distinct (map fst (ord m))"
  by (metis mset_eq_imp_distinct_iff mset_map)

end
