(* ===== verification/Core_Hash.thy ===== *)
theory Core_Hash
  imports Crawl_Prelude
begin

text \<open>
  \<^verbatim>\<open>crawlrs-core/src/hash.rs\<close> and \<^verbatim>\<open>crawlrs-core/src/traits/sharding.rs\<close>: the FNV-1a hash
  on 64-bit words and the two sharding policies built on it. A policy is a value of the
  datatype \<open>sharding_policy\<close>; constructing the host-hash policy asserts that it has at least
  one shard, so \<open>new\<close> returns an option.
\<close>

unbundle bit_operations_syntax

definition byte_word :: "char \<Rightarrow> 64 word" where
  "byte_word c = word_of_nat (of_char c)"

fun fnv1a_loop :: "64 word \<Rightarrow> string \<Rightarrow> 64 word" where
  "fnv1a_loop hash [] = hash"
| "fnv1a_loop hash (b # bs) = fnv1a_loop ((hash XOR byte_word b) * 0x100000001b3) bs"

definition fnv1a_64 :: "string \<Rightarrow> 64 word" where
  "fnv1a_64 bytes = fnv1a_loop 0xcbf29ce484222325 bytes"

definition content_hash :: "string \<Rightarrow> 64 word" where
  "content_hash body = fnv1a_64 body"

text \<open>The hash of a concatenation continues the hash of the first part: the function can be
  computed chunk by chunk.\<close>

lemma fnv1a_loop_append: "fnv1a_loop h (xs @ ys) = fnv1a_loop (fnv1a_loop h xs) ys"
  by (induction xs arbitrary: h) auto

subsection \<open>Sharding policies\<close>

datatype sharding_policy = SingleShardPolicy | HostHashShardPolicy (num_shards: u32)

definition host_hash_new :: "u32 \<Rightarrow> sharding_policy option" where
  "host_hash_new n = (if n \<ge> 1 then Some (HostHashShardPolicy n) else None)"

fun shard_key_from_host :: "sharding_policy \<Rightarrow> string \<Rightarrow> u32" where
  "shard_key_from_host SingleShardPolicy host = 0"
| "shard_key_from_host (HostHashShardPolicy n) host = unat (fnv1a_64 host) mod n"

fun shard_count :: "sharding_policy \<Rightarrow> u32" where
  "shard_count SingleShardPolicy = 1"
| "shard_count (HostHashShardPolicy n) = n"

text \<open>\<open>shard_key\<close> looks only at the host of the URL, the empty string when it has none.\<close>

fun shard_key_of_host_opt :: "sharding_policy \<Rightarrow> string option \<Rightarrow> u32" where
  "shard_key_of_host_opt SingleShardPolicy h = 0"
| "shard_key_of_host_opt (HostHashShardPolicy n) h =
     shard_key_from_host (HostHashShardPolicy n) (case h of Some s \<Rightarrow> s | None \<Rightarrow> '''')"

text \<open>A policy that a constructor can have built.\<close>

fun policy_ok :: "sharding_policy \<Rightarrow> bool" where
  "policy_ok SingleShardPolicy = True"
| "policy_ok (HostHashShardPolicy n) = (1 \<le> n \<and> n \<le> U32_MAX)"

lemma host_hash_new_ok: "host_hash_new n = Some p \<Longrightarrow> n \<le> U32_MAX \<Longrightarrow> policy_ok p \<and> shard_count p = n"
  by (auto simp: host_hash_new_def split: if_splits)

lemma shard_key_from_host_bound:
  "policy_ok p \<Longrightarrow> shard_key_from_host p host < shard_count p"
  by (cases p) auto

lemma shard_key_of_host_opt_Some [simp]:
  "shard_key_of_host_opt p (Some h) = shard_key_from_host p h"
  by (cases p) auto

lemma shard_key_of_host_opt_bound:
  "policy_ok p \<Longrightarrow> shard_key_of_host_opt p h < shard_count p"
  by (cases p) auto

end
