(* ===== verification/Core_Url.thy ===== *)
theory Core_Url
  imports Core_Hash "HOL-Library.Multiset"
begin

text \<open>
  \<^verbatim>\<open>crawlrs-core/src/url.rs\<close>: canonical URLs. The \<^verbatim>\<open>url\<close> crate is a parameter, the record
  \<open>url_ops\<close> of the operations the code calls on it; the path and query rules layered on top of
  it are defined here in full. Strings are lists of bytes, as Rust's \<open>as_bytes\<close> gives them.
\<close>

subsection \<open>The url crate's interface\<close>

record 'u url_ops =
  op_parse :: "string \<Rightarrow> string + 'u"
  op_join :: "'u \<Rightarrow> string \<Rightarrow> string + 'u"
  op_as_str :: "'u \<Rightarrow> string"
  op_scheme :: "'u \<Rightarrow> string"
  op_host_str :: "'u \<Rightarrow> string option"
  op_path :: "'u \<Rightarrow> string"
  op_query :: "'u \<Rightarrow> string option"
  op_query_pairs :: "'u \<Rightarrow> (string \<times> string) list"
  op_fragment :: "'u \<Rightarrow> string option"
  op_username :: "'u \<Rightarrow> string"
  op_password :: "'u \<Rightarrow> string option"
  op_set_fragment :: "'u \<Rightarrow> string option \<Rightarrow> 'u"
  op_set_username :: "'u \<Rightarrow> string \<Rightarrow> 'u"
  op_set_password :: "'u \<Rightarrow> string option \<Rightarrow> 'u"
  op_set_host :: "'u \<Rightarrow> string option \<Rightarrow> 'u"
  op_set_path :: "'u \<Rightarrow> string \<Rightarrow> 'u"
  op_set_query :: "'u \<Rightarrow> string option \<Rightarrow> 'u"
  op_form_serialize :: "(string \<times> string) list \<Rightarrow> string"

definition MAX_URL_LEN :: nat where
  "MAX_URL_LEN = 2048"

datatype url_error = TooLong nat nat | ParseError string

subsection \<open>Path rules\<close>

text \<open>\<open>path.split("://")\<close>: the pieces between the non-overlapping occurrences, left to right.\<close>

fun split_scheme :: "string \<Rightarrow> string list" where
  "split_scheme [] = [[]]"
| "split_scheme (c # cs) =
     (if c = CHR '':'' \<and> starts_with cs ''//'' then [] # split_scheme (drop 2 cs)
      else case split_scheme cs of [] \<Rightarrow> [[c]] | chunk # rest \<Rightarrow> (c # chunk) # rest)"

text \<open>The inner loop over the characters of one chunk, with its \<open>prev_slash\<close> flag.\<close>

fun collapse_chunk :: "bool \<Rightarrow> string \<Rightarrow> string" where
  "collapse_chunk prev_slash [] = []"
| "collapse_chunk prev_slash (c # cs) =
     (if c = CHR ''/'' then (if prev_slash then [] else [c]) @ collapse_chunk True cs
      else c # collapse_chunk False cs)"

text \<open>The outer loop: \<open>"://"\<close> is pushed after every chunk but the last.\<close>

fun collapse_chunks :: "string list \<Rightarrow> string" where
  "collapse_chunks [] = []"
| "collapse_chunks [chunk] = collapse_chunk False chunk"
| "collapse_chunks (chunk # chunks) = collapse_chunk False chunk @ ''://'' @ collapse_chunks chunks"

definition collapse_path_slashes :: "string \<Rightarrow> string" where
  "collapse_path_slashes path =
     (if \<not> contains path ''//'' then path else collapse_chunks (split_scheme path))"

definition is_tracking_param :: "string \<Rightarrow> bool" where
  "is_tracking_param name =
     (starts_with name ''utm_'' \<or> name = ''gclid'' \<or> name = ''fbclid'' \<or> name = ''ref'' \<or> name = ''ref_src'')"

definition hex_digit :: "char \<Rightarrow> nat option" where
  "hex_digit c =
     (let b = of_char c :: nat in
      if 48 \<le> b \<and> b \<le> 57 then Some (b - 48)
      else if 97 \<le> b \<and> b \<le> 102 then Some (b - 97 + 10)
      else if 65 \<le> b \<and> b \<le> 70 then Some (b - 65 + 10)
      else None)"

definition is_rfc3986_unreserved :: "nat \<Rightarrow> bool" where
  "is_rfc3986_unreserved b =
     ((65 \<le> b \<and> b \<le> 90) \<or> (97 \<le> b \<and> b \<le> 122) \<or> (48 \<le> b \<and> b \<le> 57) \<or> b = 45 \<or> b = 46 \<or> b = 95 \<or> b = 126)"

text \<open>
  \<open>unreserved_escape rest\<close> is the guard of the decoding loop at a percent sign followed by
  \<open>rest\<close>: two hex digits are there and name an unreserved byte. The digits are below 16, so
  the shift-or of the code is \<open>hi * 16 + lo\<close>. \<open>push_latin1\<close> is \<open>out.push(b as char)\<close>: a byte
  above 127 becomes the two-byte UTF-8 form of that code point.
\<close>

definition unreserved_escape :: "string \<Rightarrow> (nat \<times> string) option" where
  "unreserved_escape rest =
     (case rest of
        h # l # rest' \<Rightarrow>
          (case (hex_digit h, hex_digit l) of
             (Some hi, Some lo) \<Rightarrow>
               (let byte = hi * 16 + lo in if is_rfc3986_unreserved byte then Some (byte, rest') else None)
           | _ \<Rightarrow> None)
      | _ \<Rightarrow> None)"

definition push_latin1 :: "nat \<Rightarrow> string" where
  "push_latin1 b = (if b < 128 then [char_of b] else [char_of (192 + b div 64), char_of (128 + b mod 64)])"

lemma unreserved_escape_shorter: "unreserved_escape rest = Some (b, rest') \<Longrightarrow> length rest' < length rest"
  by (auto simp: unreserved_escape_def Let_def split: list.splits option.splits if_splits)

function decode_octets :: "string \<Rightarrow> string" where
  "decode_octets [] = []"
| "decode_octets (c # rest) =
     (case (if c = CHR ''%'' then unreserved_escape rest else None) of
        Some (byte, rest') \<Rightarrow> push_latin1 byte @ decode_octets rest'
      | None \<Rightarrow> push_latin1 (of_char c) @ decode_octets rest)"
  by pat_completeness auto
termination
  by (relation "measure length") (auto dest: unreserved_escape_shorter split: if_splits)

definition decode_unreserved_percent_octets :: "string \<Rightarrow> string" where
  "decode_unreserved_percent_octets s = (if CHR ''%'' \<notin> set s then s else decode_octets s)"

subsection \<open>Canonicalisation and construction\<close>

definition trim_end_dots :: "string \<Rightarrow> string" where
  "trim_end_dots s = rev (dropWhile (\<lambda>c. c = CHR ''.'') (rev s))"

definition strip_host_dot :: "'u url_ops \<Rightarrow> 'u \<Rightarrow> 'u" where
  "strip_host_dot U url =
     (case op_host_str U url of
        Some host \<Rightarrow>
          if ends_with host ''.'' \<and> length host > 1 then op_set_host U url (Some (trim_end_dots host)) else url
      | None \<Rightarrow> url)"

definition rewrite_path :: "'u url_ops \<Rightarrow> (string \<Rightarrow> string) \<Rightarrow> 'u \<Rightarrow> 'u" where
  "rewrite_path U f url =
     (let p = f (op_path U url) in if p \<noteq> op_path U url then op_set_path U url p else url)"

definition kept_pairs :: "(string \<times> string) list \<Rightarrow> (string \<times> string) list" where
  "kept_pairs ps = sort (filter (\<lambda>(name, _). \<not> is_tracking_param name) ps)"

definition rewrite_query :: "'u url_ops \<Rightarrow> 'u \<Rightarrow> 'u" where
  "rewrite_query U url =
     (if op_query U url \<noteq> None then
        (let kept = kept_pairs (op_query_pairs U url) in
         if kept = [] then op_set_query U url None
         else op_set_query U url (Some (op_form_serialize U kept)))
      else url)"

definition canonicalize :: "'u url_ops \<Rightarrow> 'u \<Rightarrow> 'u" where
  "canonicalize U url =
     (let url = op_set_fragment U url None;
          url = op_set_username U url '''';
          url = op_set_password U url None;
          url = strip_host_dot U url;
          url = rewrite_path U collapse_path_slashes url;
          url = rewrite_path U decode_unreserved_percent_octets url
      in rewrite_query U url)"

definition url_parse :: "'u url_ops \<Rightarrow> string \<Rightarrow> url_error + 'u" where
  "url_parse U input =
     (if length input > MAX_URL_LEN then Inl (TooLong (length input) MAX_URL_LEN)
      else case op_parse U input of Inl e \<Rightarrow> Inl (ParseError e) | Inr u \<Rightarrow> Inr (canonicalize U u))"

definition url_parse_relative :: "'u url_ops \<Rightarrow> 'u \<Rightarrow> string \<Rightarrow> url_error + 'u" where
  "url_parse_relative U base href =
     (case op_join U base href of
        Inl e \<Rightarrow> Inl (ParseError e)
      | Inr resolved \<Rightarrow>
          (let canonicalized = canonicalize U resolved;
               serialized_len = length (op_as_str U canonicalized)
           in if serialized_len > MAX_URL_LEN then Inl (TooLong serialized_len MAX_URL_LEN)
              else Inr canonicalized))"

definition scheme_is_http :: "string \<Rightarrow> bool" where
  "scheme_is_http s = (s = ''http'' \<or> s = ''https'')"

definition url_is_http :: "'u url_ops \<Rightarrow> 'u \<Rightarrow> bool" where
  "url_is_http U url = scheme_is_http (op_scheme U url)"

text \<open>
  The other components see a canonical URL through its accessors only: the record of what
  \<open>as_str\<close>, \<open>scheme\<close>, \<open>host\<close> and the path return.
\<close>

record canonical_url =
  cu_str :: string
  cu_scheme :: string
  cu_host :: "string option"
  cu_path :: string

definition view_of :: "'u url_ops \<Rightarrow> 'u \<Rightarrow> canonical_url" where
  "view_of U u =
     \<lparr>cu_str = op_as_str U u, cu_scheme = op_scheme U u, cu_host = op_host_str U u, cu_path = op_path U u\<rparr>"

definition is_http :: "canonical_url \<Rightarrow> bool" where
  "is_http u = scheme_is_http (cu_scheme u)"

definition shard_key :: "sharding_policy \<Rightarrow> canonical_url \<Rightarrow> u32" where
  "shard_key p u = shard_key_of_host_opt p (cu_host u)"

lemma is_http_view [simp]: "is_http (view_of U u) = url_is_http U u"
  by (simp add: is_http_def view_of_def url_is_http_def)

subsection \<open>The path rules are what they promise\<close>

text \<open>A one-pass reference for the slash rule, and its agreement with the chunked code.\<close>

fun collapse_ref :: "bool \<Rightarrow> string \<Rightarrow> string" where
  "collapse_ref prev [] = []"
| "collapse_ref prev (c # cs) =
     (if c = CHR '':'' \<and> starts_with cs ''//'' then ''://'' @ collapse_ref False (drop 2 cs)
      else if c = CHR ''/'' then (if prev then [] else [c]) @ collapse_ref True cs
      else c # collapse_ref False cs)"

lemma split_scheme_nonempty [simp]: "split_scheme s \<noteq> []"
  by (cases s) (auto split: list.splits)

lemma collapse_chunks_Cons:
  "chunks \<noteq> [] \<Longrightarrow>
     collapse_chunks (chunk # chunks) = collapse_chunk False chunk @ ''://'' @ collapse_chunks chunks"
  by (cases chunks) auto

text \<open>The same with the flag of the first chunk made explicit.\<close>

definition collapse_from :: "bool \<Rightarrow> string list \<Rightarrow> string" where
  "collapse_from prev chunks =
     collapse_chunk prev (hd chunks) @ (if tl chunks = [] then [] else ''://'' @ collapse_chunks (tl chunks))"

lemma collapse_from_False: "chunks \<noteq> [] \<Longrightarrow> collapse_from False chunks = collapse_chunks chunks"
  by (cases chunks rule: collapse_chunks.cases) (auto simp: collapse_from_def)

lemma collapse_from_split: "collapse_from prev (split_scheme s) = collapse_ref prev s"
proof (induction s arbitrary: prev rule: split_scheme.induct)
  case 1
  then show ?case by (simp add: collapse_from_def)
next
  case (2 c cs)
  show ?case
  proof (cases "c = CHR '':'' \<and> starts_with cs ''//''")
    case True
    with 2(1) [OF True, of False] show ?thesis
      by (simp add: collapse_from_def [of prev] collapse_from_False)
  next
    case False
    obtain chunk rest where cr: "split_scheme cs = chunk # rest"
      by (cases "split_scheme cs") auto
    have "collapse_from p (chunk # rest) = collapse_ref p cs" for p
      using 2(2) [OF False, of p] cr by simp
    with False cr show ?thesis
      by (auto simp: collapse_from_def)
  qed
qed

lemma collapse_slow_path: "collapse_chunks (split_scheme s) = collapse_ref False s"
  using collapse_from_split [of False s] by (simp add: collapse_from_False)

lemma collapse_ref_no_run:
  "\<not> contains s ''//'' \<Longrightarrow> (prev \<Longrightarrow> \<not> starts_with s ''/'') \<Longrightarrow> collapse_ref prev s = s"
proof (induction s arbitrary: prev)
  case Nil
  then show ?case by simp
next
  case (Cons c cs)
  have nc: "\<not> contains cs ''//''" using Cons.prems(1) by simp
  have nh: "\<not> starts_with cs ''//''"
    using nc by (cases cs) auto
  have sl: "c = CHR ''/'' \<Longrightarrow> \<not> starts_with cs ''/''"
    using Cons.prems(1) by simp
  show ?case using Cons.IH [OF nc] Cons.prems(2) nh sl by auto
qed

lemma collapse_path_slashes_eq: "collapse_path_slashes s = collapse_ref False s"
  by (simp add: collapse_path_slashes_def collapse_slow_path collapse_ref_no_run)

lemma collapse_ref_True_head: "\<not> starts_with (collapse_ref True s) ''/''"
proof (induction s)
  case Nil
  then show ?case by simp
next
  case (Cons c cs)
  then show ?case by auto
qed

lemma collapse_ref_head: "\<not> starts_with s ''//'' \<Longrightarrow> \<not> starts_with (collapse_ref False s) ''//''"
proof (cases s)
  case (Cons c cs)
  then show ?thesis using collapse_ref_True_head [of cs] by auto
qed simp

lemma collapse_ref_idem: "collapse_ref prev (collapse_ref prev s) = collapse_ref prev s"
proof (induction prev s rule: collapse_ref.induct)
  case (1 prev)
  then show ?case by simp
next
  case (2 prev c cs)
  show ?case
  proof (cases "c = CHR '':'' \<and> starts_with cs ''//''")
    case True
    with 2(1) show ?thesis by simp
  next
    case False
    then have nh: "c = CHR '':'' \<Longrightarrow> \<not> starts_with (collapse_ref False cs) ''//''"
      using collapse_ref_head by blast
    show ?thesis
      using False nh 2(2,3) by (cases "c = CHR ''/''"; cases prev) auto
  qed
qed

text \<open>Every double slash left in the output belongs to a \<open>"://"\<close>.\<close>

fun runs_ok :: "bool \<Rightarrow> string \<Rightarrow> bool" where
  "runs_ok prev [] = True"
| "runs_ok prev (c # cs) =
     (if c = CHR '':'' \<and> starts_with cs ''//'' then runs_ok False (drop 2 cs)
      else if c = CHR ''/'' then \<not> prev \<and> runs_ok True cs
      else runs_ok False cs)"

lemma collapse_ref_runs_ok: "runs_ok prev (collapse_ref prev s)"
proof (induction prev s rule: collapse_ref.induct)
  case (1 prev)
  then show ?case by simp
next
  case (2 prev c cs)
  show ?case
  proof (cases "c = CHR '':'' \<and> starts_with cs ''//''")
    case True
    with 2(1) show ?thesis by simp
  next
    case False
    then have nh: "c = CHR '':'' \<Longrightarrow> \<not> starts_with (collapse_ref False cs) ''//''"
      using collapse_ref_head by blast
    show ?thesis
      using False nh 2(2,3) by (cases "c = CHR ''/''"; cases prev) auto
  qed
qed

subsection \<open>Decoding unreserved octets\<close>

text \<open>Percent-encoding of one byte with lower-case digits, the input form the decoder undoes.\<close>

definition hex_char :: "nat \<Rightarrow> char" where
  "hex_char d = (if d < 10 then char_of (48 + d) else char_of (87 + d))"

definition pct :: "char \<Rightarrow> string" where
  "pct c = (let b = of_char c :: nat in [CHR ''%'', hex_char (b div 16), hex_char (b mod 16)])"

lemma hex_digit_hex_char [simp]: "d < 16 \<Longrightarrow> hex_digit (hex_char d) = Some d"
  by (auto simp: hex_digit_def hex_char_def Let_def)

lemma of_char_lt_256 [simp]: "(of_char c :: nat) < 256"
proof -
  have "of_char c = (of_char c :: nat) mod 256" by simp
  then show ?thesis by (metis mod_less_divisor zero_less_numeral)
qed

lemma unreserved_lt_128: "is_rfc3986_unreserved b \<Longrightarrow> b < 128"
  by (auto simp: is_rfc3986_unreserved_def)

lemma push_latin1_ascii [simp]: "(of_char c :: nat) < 128 \<Longrightarrow> push_latin1 (of_char c) = [c]"
  by (simp add: push_latin1_def)

lemma decode_octets_pct:
  assumes "is_rfc3986_unreserved (of_char c)"
  shows "decode_octets (pct c @ s) = c # decode_octets s"
proof -
  let ?b = "of_char c :: nat"
  have d: "?b div 16 < 16" by (simp add: div_less_iff_less_mult)
  have m: "?b div 16 * 16 + ?b mod 16 = ?b" by simp
  have "unreserved_escape (hex_char (?b div 16) # hex_char (?b mod 16) # s) = Some (?b, s)"
    using assms d m by (simp add: unreserved_escape_def Let_def)
  then show ?thesis
    using unreserved_lt_128 [OF assms] by (simp add: pct_def Let_def)
qed

lemma decode_octets_plain:
  "c \<noteq> CHR ''%'' \<Longrightarrow> (of_char c :: nat) < 128 \<Longrightarrow> decode_octets (c # s) = c # decode_octets s"
  by simp

lemma decode_octets_no_percent:
  "CHR ''%'' \<notin> set s \<Longrightarrow> \<forall>c \<in> set s. (of_char c :: nat) < 128 \<Longrightarrow> decode_octets s = s"
  by (induction s) auto

subsection \<open>What canonicalisation establishes\<close>

text \<open>
  The documented behaviour of the url crate that the dedup argument rests on, for http and
  https URLs: setters write their own component and leave the others alone, writing a
  component twice is writing it once, and the form serialiser is read back by \<open>query_pairs\<close>.
\<close>

locale url_crate =
  fixes U :: "'u url_ops"
  assumes scheme_frame: "op_scheme U (op_set_fragment U u f) = op_scheme U u"
      "op_scheme U (op_set_username U u n) = op_scheme U u"
      "op_scheme U (op_set_password U u pw) = op_scheme U u"
      "op_scheme U (op_set_host U u h) = op_scheme U u"
      "op_scheme U (op_set_path U u p) = op_scheme U u"
      "op_scheme U (op_set_query U u q) = op_scheme U u"
    and fragment_get: "op_fragment U (op_set_fragment U u None) = None"
    and fragment_frame: "op_fragment U (op_set_username U u n) = op_fragment U u"
      "op_fragment U (op_set_password U u pw) = op_fragment U u"
      "op_fragment U (op_set_host U u h) = op_fragment U u"
      "op_fragment U (op_set_path U u p) = op_fragment U u"
      "op_fragment U (op_set_query U u q) = op_fragment U u"
    and username_get: "url_is_http U u \<Longrightarrow> op_username U (op_set_username U u '''') = ''''"
    and username_frame: "op_username U (op_set_password U u pw) = op_username U u"
      "op_username U (op_set_host U u h) = op_username U u"
      "op_username U (op_set_path U u p) = op_username U u"
      "op_username U (op_set_query U u q) = op_username U u"
    and password_get: "url_is_http U u \<Longrightarrow> op_password U (op_set_password U u None) = None"
    and password_frame: "op_password U (op_set_host U u h) = op_password U u"
      "op_password U (op_set_path U u p) = op_password U u"
      "op_password U (op_set_query U u q) = op_password U u"
    and query_get: "url_is_http U u \<Longrightarrow> op_query U (op_set_query U u (Some qs)) \<noteq> None"
      "url_is_http U u \<Longrightarrow> op_query U (op_set_query U u None) = None"
    and host_path_query: "op_host_str U (op_set_query U u q) = op_host_str U u"
      "op_path U (op_set_query U u q) = op_path U u"
    and form_roundtrip: "url_is_http U u \<Longrightarrow> set ps \<subseteq> set (op_query_pairs U v) \<Longrightarrow>
      op_query_pairs U (op_set_query U u (Some (op_form_serialize U ps))) = ps"
    and query_overwrite: "url_is_http U u \<Longrightarrow> op_set_query U (op_set_query U u q) q' = op_set_query U u q'"
    and fragment_overwrite: "url_is_http U u \<Longrightarrow>
      op_set_fragment U (op_set_fragment U u f) f' = op_set_fragment U u f'"
    and query_commute: "url_is_http U u \<Longrightarrow> op_set_fragment U (op_set_query U u q) f = op_set_query U (op_set_fragment U u f) q"
      "url_is_http U u \<Longrightarrow> op_set_username U (op_set_query U u q) n = op_set_query U (op_set_username U u n) q"
      "url_is_http U u \<Longrightarrow> op_set_password U (op_set_query U u q) pw = op_set_query U (op_set_password U u pw) q"
      "url_is_http U u \<Longrightarrow> op_set_host U (op_set_query U u q) h = op_set_query U (op_set_host U u h) q"
      "url_is_http U u \<Longrightarrow> op_set_path U (op_set_query U u q) p = op_set_query U (op_set_path U u p) q"
    and pairs_frame: "url_is_http U u \<Longrightarrow> url_is_http U v \<Longrightarrow>
      op_query_pairs U (op_set_query U u q) = op_query_pairs U (op_set_query U v q)"
begin

lemmas frames = scheme_frame fragment_frame username_frame password_frame

lemma is_http_frame [simp]:
  "url_is_http U (op_set_fragment U u f) = url_is_http U u"
  "url_is_http U (op_set_username U u n) = url_is_http U u"
  "url_is_http U (op_set_password U u pw) = url_is_http U u"
  "url_is_http U (op_set_host U u h) = url_is_http U u"
  "url_is_http U (op_set_path U u p) = url_is_http U u"
  "url_is_http U (op_set_query U u q) = url_is_http U u"
  by (simp_all add: url_is_http_def scheme_frame)

lemma strip_host_dot_frame:
  "op_fragment U (strip_host_dot U u) = op_fragment U u"
  "op_username U (strip_host_dot U u) = op_username U u"
  "op_password U (strip_host_dot U u) = op_password U u"
  "url_is_http U (strip_host_dot U u) = url_is_http U u"
  by (auto simp: strip_host_dot_def frames split: option.splits)

lemma rewrite_path_frame:
  "op_fragment U (rewrite_path U f u) = op_fragment U u"
  "op_username U (rewrite_path U f u) = op_username U u"
  "op_password U (rewrite_path U f u) = op_password U u"
  "url_is_http U (rewrite_path U f u) = url_is_http U u"
  by (auto simp: rewrite_path_def frames Let_def)

lemma rewrite_query_frame:
  "op_fragment U (rewrite_query U u) = op_fragment U u"
  "op_username U (rewrite_query U u) = op_username U u"
  "op_password U (rewrite_query U u) = op_password U u"
  by (auto simp: rewrite_query_def frames Let_def)

lemma kept_pairs_spec:
  "sorted (kept_pairs ps)" "\<forall>(n, v) \<in> set (kept_pairs ps). \<not> is_tracking_param n"
  "set (kept_pairs ps) \<subseteq> set ps"
  by (auto simp: kept_pairs_def)

lemma rewrite_query_pairs:
  assumes "url_is_http U u" "op_query U (rewrite_query U u) \<noteq> None"
  shows "op_query_pairs U (rewrite_query U u) = kept_pairs (op_query_pairs U u)"
  using assms form_roundtrip [OF assms(1) kept_pairs_spec(3)]
  by (auto simp: rewrite_query_def Let_def query_get split: if_splits)

definition before_query :: "'u \<Rightarrow> 'u" where
  "before_query u = rewrite_path U decode_unreserved_percent_octets (rewrite_path U collapse_path_slashes
     (strip_host_dot U (op_set_password U (op_set_username U (op_set_fragment U u None) '''') None)))"

lemma canonicalize_before: "canonicalize U u = rewrite_query U (before_query u)"
  by (simp add: canonicalize_def before_query_def Let_def)

lemma before_query_http: "url_is_http U (before_query u) = url_is_http U u"
  by (simp add: before_query_def rewrite_path_frame strip_host_dot_frame)

lemma canonicalize_strips:
  assumes "url_is_http U u"
  shows "op_fragment U (canonicalize U u) = None" "op_username U (canonicalize U u) = ''''"
    "op_password U (canonicalize U u) = None"
  using assms
  by (simp_all add: canonicalize_before before_query_def rewrite_query_frame rewrite_path_frame
      strip_host_dot_frame fragment_frame fragment_get username_frame username_get password_get)

lemma canonicalize_query_clean:
  assumes "url_is_http U u" "op_query U (canonicalize U u) \<noteq> None"
  shows "sorted (op_query_pairs U (canonicalize U u))"
    "\<forall>(n, v) \<in> set (op_query_pairs U (canonicalize U u)). \<not> is_tracking_param n"
  using assms rewrite_query_pairs [of "before_query u"] kept_pairs_spec
  by (simp_all add: canonicalize_before before_query_http)

text \<open>Every step before the query rule commutes with setting the query.\<close>

lemma pre_query_commute:
  assumes "url_is_http U u"
  shows "strip_host_dot U (op_set_query U u q) = op_set_query U (strip_host_dot U u) q"
    "rewrite_path U f (op_set_query U u q) = op_set_query U (rewrite_path U f u) q"
  using assms
  by (auto simp: strip_host_dot_def rewrite_path_def host_path_query query_commute Let_def split: option.splits)

lemma before_query_commute:
  assumes "url_is_http U u"
  shows "before_query (op_set_query U u q) = op_set_query U (before_query u) q"
  using assms
  by (simp add: before_query_def query_commute pre_query_commute rewrite_path_frame strip_host_dot_frame)

lemma canonicalize_set_query:
  assumes "url_is_http U u"
  shows "canonicalize U (op_set_query U u (Some q)) =
     (let kept = kept_pairs (op_query_pairs U (op_set_query U u (Some q)))
      in op_set_query U (before_query u) (if kept = [] then None else Some (op_form_serialize U kept)))"
proof -
  have "op_query_pairs U (op_set_query U (before_query u) (Some q)) = op_query_pairs U (op_set_query U u (Some q))"
    using pairs_frame before_query_http assms by blast
  then show ?thesis
    using before_query_commute [OF assms] assms
    by (auto simp: canonicalize_before rewrite_query_def query_get query_overwrite before_query_http Let_def)
qed

lemma canonicalize_query_dedup:
  assumes "url_is_http U u"
    and "mset (filter (\<lambda>(n, _). \<not> is_tracking_param n) (op_query_pairs U (op_set_query U u (Some q)))) =
         mset (filter (\<lambda>(n, _). \<not> is_tracking_param n) (op_query_pairs U (op_set_query U u (Some q'))))"
  shows "canonicalize U (op_set_query U u (Some q)) = canonicalize U (op_set_query U u (Some q'))"
proof -
  have "kept_pairs (op_query_pairs U (op_set_query U u (Some q))) =
        kept_pairs (op_query_pairs U (op_set_query U u (Some q')))"
    unfolding kept_pairs_def using assms(2) by (metis mset_sort properties_for_sort sorted_sort)
  then show ?thesis using assms(1) by (simp add: canonicalize_set_query Let_def)
qed

lemma canonicalize_fragment:
  "url_is_http U u \<Longrightarrow> canonicalize U (op_set_fragment U u f) = canonicalize U u"
  by (simp add: canonicalize_def fragment_overwrite)

end

subsection \<open>A reference instance of the url crate\<close>

text \<open>
  A small URL type that satisfies the laws, used to run the definitions on concrete URLs. It
  keeps the components as they stand in the input and does not percent-decode query pairs.
\<close>

record ref_url =
  ru_scheme :: string
  ru_username :: string
  ru_password :: "string option"
  ru_host :: string
  ru_path :: string
  ru_query :: "string option"
  ru_fragment :: "string option"

definition before_char :: "char \<Rightarrow> string \<Rightarrow> string \<times> string option" where
  "before_char c s = (case split_once c s of None \<Rightarrow> (s, None) | Some (l, r) \<Rightarrow> (l, Some r))"

definition ref_split_pair :: "string \<Rightarrow> string \<times> string" where
  "ref_split_pair seg = (case split_once CHR ''='' seg of None \<Rightarrow> (seg, []) | Some (n, v) \<Rightarrow> (n, v))"

definition ref_query_pairs :: "string option \<Rightarrow> (string \<times> string) list" where
  "ref_query_pairs q =
     (case q of None \<Rightarrow> [] | Some s \<Rightarrow> map ref_split_pair (filter (\<lambda>seg. seg \<noteq> []) (split_char CHR ''&'' s)))"

definition ref_serialize :: "(string \<times> string) list \<Rightarrow> string" where
  "ref_serialize ps = join_char CHR ''&'' (map (\<lambda>(n, v). n @ CHR ''='' # v) ps)"

definition ref_authority :: "string \<Rightarrow> string \<Rightarrow> string + ref_url" where
  "ref_authority sch rest =
     (let (rest, frag) = before_char CHR ''#'' rest;
          (rest, q) = before_char CHR ''?'' rest;
          (auth, path) = before_char CHR ''/'' rest;
          (user, host) = (case split_once CHR ''@'' auth of None \<Rightarrow> ([], auth) | Some (u, h) \<Rightarrow> (u, h));
          (name, pw) = before_char CHR '':'' user
      in if host = [] then Inl ''empty host''
         else Inr \<lparr>ru_scheme = sch, ru_username = name, ru_password = pw, ru_host = ascii_lower host,
                   ru_path = CHR ''/'' # (case path of None \<Rightarrow> [] | Some p \<Rightarrow> p), ru_query = q, ru_fragment = frag\<rparr>)"

definition ref_parse :: "string \<Rightarrow> string + ref_url" where
  "ref_parse s =
     (if starts_with s ''http://'' then ref_authority ''http'' (drop 7 s)
      else if starts_with s ''https://'' then ref_authority ''https'' (drop 8 s)
      else Inl ''relative URL without a base'')"

definition ref_join :: "ref_url \<Rightarrow> string \<Rightarrow> string + ref_url" where
  "ref_join base href =
     (if starts_with href ''http://'' \<or> starts_with href ''https://'' then ref_parse href
      else if starts_with href ''/'' then ref_authority (ru_scheme base) (ru_host base @ href)
      else Inl ''unsupported reference'')"

definition opt_prefix :: "string \<Rightarrow> string option \<Rightarrow> string" where
  "opt_prefix p s = (case s of None \<Rightarrow> [] | Some t \<Rightarrow> p @ t)"

definition ref_as_str :: "ref_url \<Rightarrow> string" where
  "ref_as_str u =
     ru_scheme u @ ''://'' @
     (if ru_username u = [] \<and> ru_password u = None then []
      else ru_username u @ opt_prefix '':'' (ru_password u) @ ''@'') @
     ru_host u @ ru_path u @ opt_prefix ''?'' (ru_query u) @ opt_prefix ''#'' (ru_fragment u)"

definition ref_url_ops :: "ref_url url_ops" where
  "ref_url_ops =
     \<lparr>op_parse = ref_parse, op_join = ref_join, op_as_str = ref_as_str, op_scheme = ru_scheme,
      op_host_str = (\<lambda>u. Some (ru_host u)), op_path = ru_path, op_query = ru_query,
      op_query_pairs = (\<lambda>u. ref_query_pairs (ru_query u)), op_fragment = ru_fragment,
      op_username = ru_username, op_password = ru_password,
      op_set_fragment = (\<lambda>u f. u\<lparr>ru_fragment := f\<rparr>), op_set_username = (\<lambda>u n. u\<lparr>ru_username := n\<rparr>),
      op_set_password = (\<lambda>u p. u\<lparr>ru_password := p\<rparr>),
      op_set_host = (\<lambda>u h. case h of None \<Rightarrow> u | Some s \<Rightarrow> if s = [] then u else u\<lparr>ru_host := s\<rparr>),
      op_set_path = (\<lambda>u p. u\<lparr>ru_path := p\<rparr>), op_set_query = (\<lambda>u q. u\<lparr>ru_query := q\<rparr>),
      op_form_serialize = ref_serialize\<rparr>"

lemma ref_split_pair_no_sep:
  assumes "CHR ''&'' \<notin> set seg" "ref_split_pair seg = (n, v)"
  shows "CHR ''&'' \<notin> set n" "CHR ''&'' \<notin> set v" "CHR ''='' \<notin> set n"
proof -
  have "(CHR ''='' \<notin> set seg \<and> n = seg \<and> v = []) \<or> (seg = n @ CHR ''='' # v \<and> CHR ''='' \<notin> set n)"
    using assms(2) split_once_SomeD
    by (auto simp: ref_split_pair_def split: option.splits)
  with assms(1) show "CHR ''&'' \<notin> set n" "CHR ''&'' \<notin> set v" "CHR ''='' \<notin> set n" by auto
qed

lemma ref_query_pairs_no_sep:
  assumes "(n, v) \<in> set (ref_query_pairs q)"
  shows "CHR ''&'' \<notin> set n" "CHR ''&'' \<notin> set v" "CHR ''='' \<notin> set n"
proof -
  obtain s seg where "seg \<in> set (split_char CHR ''&'' s)" "ref_split_pair seg = (n, v)"
    using assms by (auto simp: ref_query_pairs_def split: option.splits)
  then show "CHR ''&'' \<notin> set n" "CHR ''&'' \<notin> set v" "CHR ''='' \<notin> set n"
    using ref_split_pair_no_sep split_char_pieces by blast+
qed

lemma ref_form_roundtrip:
  assumes "set ps \<subseteq> set (ref_query_pairs q)"
  shows "ref_query_pairs (Some (ref_serialize ps)) = ps"
proof (cases "ps = []")
  case True
  then show ?thesis by (simp add: ref_query_pairs_def ref_serialize_def)
next
  case False
  let ?segs = "map (\<lambda>(n, v). n @ CHR ''='' # v) ps"
  have ok: "CHR ''&'' \<notin> set n \<and> CHR ''&'' \<notin> set v \<and> CHR ''='' \<notin> set n" if "(n, v) \<in> set ps" for n v
    using that assms ref_query_pairs_no_sep by blast
  have "\<forall>w \<in> set ?segs. CHR ''&'' \<notin> set w" using ok by auto
  then have "split_char CHR ''&'' (ref_serialize ps) = ?segs"
    unfolding ref_serialize_def using False by (intro split_join) auto
  moreover have "filter (\<lambda>seg. seg \<noteq> []) ?segs = ?segs" by (auto simp: filter_id_conv)
  moreover have "map ref_split_pair ?segs = ps"
    using ok by (auto simp: ref_split_pair_def intro!: map_idI)
  ultimately show ?thesis by (simp add: ref_query_pairs_def)
qed

interpretation ref_url_crate: url_crate ref_url_ops
  by unfold_locales
    (auto simp: ref_url_ops_def url_is_http_def ref_form_roundtrip split: option.splits)

subsection \<open>Properties\<close>

text \<open>\<open>collapse_path_slashes\<close>, with its fast path and its split into chunks, computes the
  one-pass rule; what it leaves has a double slash only inside a \<open>"://"\<close> and at most one slash
  after it, and applying it again changes nothing.\<close>

theorem collapse_path_slashes_correct:
  "collapse_path_slashes s = collapse_ref False s \<and>
   runs_ok False (collapse_path_slashes s) \<and>
   collapse_path_slashes (collapse_path_slashes s) = collapse_path_slashes s"
  by (simp add: collapse_path_slashes_eq collapse_ref_runs_ok collapse_ref_idem)

lemma decode_octets_mask:
  "\<forall>(e, c) \<in> set xs. is_rfc3986_unreserved (of_char c) \<Longrightarrow>
   decode_octets (concat (map (\<lambda>(e, c). if e then pct c else [c]) xs)) = map snd xs"
proof (induction xs)
  case Nil
  then show ?case by simp
next
  case (Cons x xs)
  obtain e c where x: "x = (e, c)" by (cases x)
  with Cons.prems have u: "is_rfc3986_unreserved (of_char c)" by simp
  then have np: "c \<noteq> CHR ''%''" by (auto simp: is_rfc3986_unreserved_def)
  show ?case
    using Cons x decode_octets_pct [OF u] decode_octets_plain [OF np unreserved_lt_128 [OF u]]
    by (cases e) auto
qed

lemma mask_plain:
  "CHR ''%'' \<notin> set (concat (map (\<lambda>(e, c). if e then pct c else [c]) xs)) \<Longrightarrow>
   concat (map (\<lambda>(e, c). if e then pct c else [c]) xs) = map snd xs"
proof (induction xs)
  case Nil
  then show ?case by simp
next
  case (Cons x xs)
  obtain e c where "x = (e, c)" by (cases x)
  with Cons show ?case by (cases e) (simp_all add: pct_def Let_def)
qed

text \<open>whichever characters of an unreserved string are percent-encoded, decoding gives the
  plain string back, so all the spellings of one path are one key.\<close>

theorem decode_unreserved_any_spelling:
  assumes "\<forall>(e, c) \<in> set xs. is_rfc3986_unreserved (of_char c)"
  shows "decode_unreserved_percent_octets (concat (map (\<lambda>(e, c). if e then pct c else [c]) xs)) = map snd xs"
proof -
  let ?s = "concat (map (\<lambda>(e, c). if e then pct c else [c]) xs)"
  have "?s = map snd xs" if "CHR ''%'' \<notin> set ?s"
    using that mask_plain by blast
  with decode_octets_mask [OF assms] show ?thesis
    by (auto simp: decode_unreserved_percent_octets_def)
qed

theorem decode_unreserved_any_spelling_witness:
  "decode_unreserved_percent_octets ''%66o%6f'' = ''foo''"
proof -
  let ?xs = "[(True, CHR ''f''), (False, CHR ''o''), (True, CHR ''o'')]"
  have "concat (map (\<lambda>(e, c). if e then pct c else [c]) ?xs) = ''%66o%6f''" by code_simp
  moreover have "\<forall>(e, c) \<in> set ?xs. is_rfc3986_unreserved (of_char c)" by code_simp
  ultimately show ?thesis using decode_unreserved_any_spelling [of ?xs] by simp
qed

text \<open>the decoder is a single pass and is not idempotent: a bare percent sign before an
  escape leaves a new escape behind, so canonicalising an already canonical URL can change it.\<close>

theorem decode_unreserved_not_idempotent:
  "decode_unreserved_percent_octets ''/%%341'' = ''/%41'' \<and>
   decode_unreserved_percent_octets (decode_unreserved_percent_octets ''/%%341'') = ''/A''"
  by code_simp

text \<open>C21: a canonical http URL has no fragment and no user info, and its query pairs are sorted
  and hold no tracking parameter.\<close>

theorem canonicalize_normal_form:
  assumes "url_crate U" "url_is_http U u"
  shows "op_fragment U (canonicalize U u) = None \<and>
         op_username U (canonicalize U u) = '''' \<and> op_password U (canonicalize U u) = None \<and>
         (op_query U (canonicalize U u) \<noteq> None \<longrightarrow>
            sorted (op_query_pairs U (canonicalize U u)) \<and>
            (\<forall>(n, v) \<in> set (op_query_pairs U (canonicalize U u)). \<not> is_tracking_param n))"
  using url_crate.canonicalize_strips [OF assms] url_crate.canonicalize_query_clean [OF assms] by simp

definition sample_url :: ref_url where
  "sample_url = \<lparr>ru_scheme = ''https'', ru_username = ''me'', ru_password = Some ''pw'', ru_host = ''e.test.'',
     ru_path = ''/a//%62'', ru_query = Some ''z=1&utm_x=9&a=2'', ru_fragment = Some ''top''\<rparr>"

lemma canonicalize_sample:
  "canonicalize ref_url_ops sample_url =
     \<lparr>ru_scheme = ''https'', ru_username = '''', ru_password = None, ru_host = ''e.test'',
      ru_path = ''/a/b'', ru_query = Some ''a=2&z=1'', ru_fragment = None\<rparr>"
  by code_simp

lemma sample_url_http: "url_is_http ref_url_ops sample_url"
  by code_simp

theorem canonicalize_normal_form_witness:
  "op_fragment ref_url_ops (canonicalize ref_url_ops sample_url) = None \<and>
   op_query ref_url_ops (canonicalize ref_url_ops sample_url) = Some ''a=2&z=1'' \<and>
   sorted (op_query_pairs ref_url_ops (canonicalize ref_url_ops sample_url))"
proof -
  have "op_query ref_url_ops (canonicalize ref_url_ops sample_url) = Some ''a=2&z=1''"
    unfolding canonicalize_sample by code_simp
  with canonicalize_normal_form [OF ref_url_crate.url_crate_axioms sample_url_http]
  show ?thesis by simp
qed

text \<open>URLs that differ only in their fragment, or only in the order of their query pairs and
  in tracking parameters, have the same canonical form.\<close>

theorem canonicalize_dedups:
  assumes "url_crate U" "url_is_http U u"
    and "mset (filter (\<lambda>(n, _). \<not> is_tracking_param n) (op_query_pairs U (op_set_query U u (Some q)))) =
         mset (filter (\<lambda>(n, _). \<not> is_tracking_param n) (op_query_pairs U (op_set_query U u (Some q'))))"
  shows "canonicalize U (op_set_query U u (Some q)) = canonicalize U (op_set_query U u (Some q')) \<and>
         canonicalize U (op_set_fragment U u f) = canonicalize U u"
  using url_crate.canonicalize_query_dedup [OF assms] url_crate.canonicalize_fragment [OF assms(1,2)] by simp

lemma sample_queries:
  "mset (filter (\<lambda>(n, _). \<not> is_tracking_param n)
      (op_query_pairs ref_url_ops (op_set_query ref_url_ops sample_url (Some ''b=2&a=1'')))) =
   mset (filter (\<lambda>(n, _). \<not> is_tracking_param n)
      (op_query_pairs ref_url_ops (op_set_query ref_url_ops sample_url (Some ''a=1&gclid=x&b=2''))))"
  by (simp add: ref_url_ops_def ref_query_pairs_def ref_split_pair_def is_tracking_param_def)

theorem canonicalize_dedups_witness:
  "canonicalize ref_url_ops (op_set_query ref_url_ops sample_url (Some ''b=2&a=1'')) =
   canonicalize ref_url_ops (op_set_query ref_url_ops sample_url (Some ''a=1&gclid=x&b=2''))"
  using canonicalize_dedups [OF ref_url_crate.url_crate_axioms sample_url_http sample_queries, of None] by simp

end
