(* ===== verification/Core_Types.thy ===== *)
theory Core_Types
  imports Core_Url
begin

text \<open>
  \<^verbatim>\<open>crawlrs-core/src/types.rs\<close>, \<^verbatim>\<open>error.rs\<close>, \<^verbatim>\<open>run_id.rs\<close>, \<^verbatim>\<open>crawl_scope.rs\<close>, \<^verbatim>\<open>blocklist.rs\<close>
  and the \<open>FailureKind\<close> of \<^verbatim>\<open>traits/politeness.rs\<close>: the values that flow between the
  components, the hexadecimal form of a URL id and the wire forms of an attempt id. BLAKE3 is
  a parameter (the function from bytes to the 32-byte digest).
\<close>

subsection \<open>Identities\<close>

record worker_identity =
  pod_ordinal :: u32
  worker_index :: u32

definition show_identity :: "worker_identity \<Rightarrow> string" where
  "show_identity w = ''pod-'' @ show_nat (pod_ordinal w) @ '':'' @ show_nat (worker_index w)"

type_synonym attempt_id = string
type_synonym run_id = string

text \<open>A URL id is its sixteen bytes.\<close>

type_synonym url_id = "char list"

definition url_id_ok :: "url_id \<Rightarrow> bool" where
  "url_id_ok i = (length i = 16)"

definition from_canonical :: "(string \<Rightarrow> string) \<Rightarrow> canonical_url \<Rightarrow> url_id" where
  "from_canonical blake3 u = take 16 (blake3 (cu_str u))"

definition byte_hex :: "char \<Rightarrow> string" where
  "byte_hex c = (let b = of_char c :: nat in [hex_char (b div 16), hex_char (b mod 16)])"

definition to_hex :: "url_id \<Rightarrow> string" where
  "to_hex i = concat (map byte_hex i)"

text \<open>\<open>char::to_digit(16)\<close> accepts the same digits as \<open>hex_digit\<close>.\<close>

fun from_hex_bytes :: "string \<Rightarrow> url_id option" where
  "from_hex_bytes [] = Some []"
| "from_hex_bytes [c] = None"
| "from_hex_bytes (h # l # cs) =
     (case hex_digit h of None \<Rightarrow> None
      | Some hi \<Rightarrow> (case hex_digit l of None \<Rightarrow> None
         | Some lo \<Rightarrow> (case from_hex_bytes cs of None \<Rightarrow> None
            | Some bs \<Rightarrow> Some (char_of (hi * 16 + lo) # bs))))"

definition from_hex :: "string \<Rightarrow> url_id option" where
  "from_hex s = (if length s \<noteq> 32 then None else from_hex_bytes s)"

subsection \<open>Pipeline values\<close>

record next_wake =
  nw_host :: string
  nw_until_ms :: u64

record url_entry =
  ue_url :: canonical_url
  ue_depth :: u32
  ue_discovered_from :: "canonical_url option"

definition seed_entry :: "canonical_url \<Rightarrow> url_entry" where
  "seed_entry u = \<lparr>ue_url = u, ue_depth = 0, ue_discovered_from = None\<rparr>"

record fetch_request =
  fq_url :: canonical_url
  fq_headers :: "(string \<times> string) list"
  fq_timeout :: duration

definition fetch_request_new :: "canonical_url \<Rightarrow> fetch_request" where
  "fetch_request_new u = \<lparr>fq_url = u, fq_headers = [], fq_timeout = 30 * 1000000000\<rparr>"

record redirect_hop =
  hop_from :: canonical_url
  hop_to :: canonical_url
  hop_status :: nat

text \<open>A header map is the list of its entries in iteration order.\<close>

record fetch_response =
  fr_url :: canonical_url
  fr_status :: nat
  fr_headers :: "(string \<times> string) list"
  fr_body :: string
  fr_redirect_chain :: "redirect_hop list"
  fr_fetched_at :: u64
  fr_duration :: duration

record parsed_document =
  pd_url :: canonical_url
  pd_status :: nat
  pd_title :: "string option"
  pd_text :: "string option"
  pd_outbound_links :: "canonical_url list"
  pd_fetched_at :: u64

record store_record =
  sr_doc :: parsed_document
  sr_resp :: fetch_response
  sr_run_id :: run_id
  sr_shard :: u32
  sr_depth :: u32
  sr_content_hash :: "64 word"

datatype url_status = Pending | InProgress | Succeeded | FailedTransient | PermanentlyFailed | Skipped

datatype skip_reason = SkipBlocklist | SkipRobots | SkipDepth | SkipMaxUrls

record url_metadata =
  um_url :: canonical_url
  um_status :: url_status
  um_retry_count :: u32
  um_blob_path :: "string option"
  um_content_hash :: "64 word option"
  um_depth :: u32
  um_last_run_id :: run_id
  um_discovered_from :: "canonical_url option"
  um_discovered_at :: u64
  um_updated_at :: u64

datatype link_dispatch = Direct | DurableOutbox

subsection \<open>Failures and errors\<close>

datatype failure_kind =
  TooManyRequests | ServiceUnavailable | NotFound | ClientError | ServerError | ConnectReset
| FkTimeout | DnsFailure | TlsError | Unreachable | ResourceExhausted | FkOther

fun failure_kind_str :: "failure_kind \<Rightarrow> string" where
  "failure_kind_str TooManyRequests = ''too_many_requests''"
| "failure_kind_str ServiceUnavailable = ''service_unavailable''"
| "failure_kind_str NotFound = ''not_found''"
| "failure_kind_str ClientError = ''client_error''"
| "failure_kind_str ServerError = ''server_error''"
| "failure_kind_str ConnectReset = ''connect_reset''"
| "failure_kind_str FkTimeout = ''timeout''"
| "failure_kind_str DnsFailure = ''dns_failure''"
| "failure_kind_str TlsError = ''tls_error''"
| "failure_kind_str Unreachable = ''unreachable''"
| "failure_kind_str ResourceExhausted = ''resource_exhausted''"
| "failure_kind_str FkOther = ''other''"

datatype crawl_error =
  EInvalidUrl url_error
| EFetch string
| ETransport failure_kind string
| EParse string
| EStore string
| EFrontier string
| EPoliteness string
| EMetadata string
| EIo string
| EOther string

subsection \<open>Crawl scope and blocklist\<close>

record crawl_override =
  co_max_depth :: "u32 option"
  co_max_urls :: "u64 option"

record crawl_scope =
  cs_max_depth :: "u32 option"
  cs_max_urls :: "u64 option"
  cs_per_domain :: "string \<rightharpoonup> crawl_override"

definition depth_cap :: "crawl_scope \<Rightarrow> string \<Rightarrow> u32 option" where
  "depth_cap sc host =
     (case cs_per_domain sc host of
        Some ov \<Rightarrow> (case co_max_depth ov of Some d \<Rightarrow> Some d | None \<Rightarrow> cs_max_depth sc)
      | None \<Rightarrow> cs_max_depth sc)"

definition max_urls_for :: "crawl_scope \<Rightarrow> string \<Rightarrow> u64 option" where
  "max_urls_for sc host =
     (case cs_per_domain sc host of
        Some ov \<Rightarrow> (case co_max_urls ov of Some n \<Rightarrow> Some n | None \<Rightarrow> cs_max_urls sc)
      | None \<Rightarrow> cs_max_urls sc)"

record blocklist =
  bl_hosts :: "string list"

definition is_blocked :: "blocklist \<Rightarrow> string \<Rightarrow> bool" where
  "is_blocked b host = (host \<in> set (bl_hosts b))"

subsection \<open>Attempt ids\<close>

text \<open>The Redis frontier writes \<open>s<shard>|<hex>|<host>\<close>; \<open>splitn(3, '|')\<close> leaves every further
  separator in the host. A \<open>None\<close> is the error \<open>MalformedAttempt\<close>.\<close>

definition encode_attempt :: "u32 \<Rightarrow> url_id \<Rightarrow> string \<Rightarrow> attempt_id" where
  "encode_attempt shard i host = ''s'' @ show_nat shard @ ''|'' @ to_hex i @ ''|'' @ host"

definition strip_prefix_s :: "string \<Rightarrow> string option" where
  "strip_prefix_s s = (case s of c # cs \<Rightarrow> if c = CHR ''s'' then Some cs else None | [] \<Rightarrow> None)"

definition decode_attempt :: "attempt_id \<Rightarrow> (u32 \<times> url_id \<times> string) option" where
  "decode_attempt raw =
     (case split_once CHR ''|'' raw of None \<Rightarrow> None
      | Some (shard_str, rest) \<Rightarrow>
         (case split_once CHR ''|'' rest of None \<Rightarrow> None
          | Some (url_id_hex, host) \<Rightarrow>
             (case Option.bind (strip_prefix_s shard_str) (parse_uint U32_MAX) of None \<Rightarrow> None
              | Some shard \<Rightarrow>
                 (case from_hex url_id_hex of None \<Rightarrow> None | Some i \<Rightarrow> Some (shard, i, host)))))"

text \<open>The in-memory frontier's tokens carry no host.\<close>

definition fake_encode_attempt :: "u32 \<Rightarrow> url_id \<Rightarrow> attempt_id" where
  "fake_encode_attempt shard i = show_nat shard @ ''|'' @ to_hex i"

definition fake_decode_attempt :: "attempt_id \<Rightarrow> crawl_error + (u32 \<times> url_id)" where
  "fake_decode_attempt raw =
     (case split_once CHR ''|'' raw of None \<Rightarrow> Inl (EFrontier (''malformed AttemptId: '' @ raw))
      | Some (shard_str, id_hex) \<Rightarrow>
         (case parse_uint U32_MAX shard_str of None \<Rightarrow> Inl (EFrontier (''malformed shard in AttemptId: '' @ raw))
          | Some shard \<Rightarrow>
             (case from_hex id_hex of None \<Rightarrow> Inl (EFrontier (''malformed url_id in AttemptId: '' @ raw))
              | Some i \<Rightarrow> Inr (shard, i))))"

subsection \<open>Hexadecimal ids\<close>

lemma of_char_div_16 [simp]: "(of_char c :: nat) div 16 < 16"
  by (simp add: div_less_iff_less_mult)

lemma from_hex_bytes_to_hex [simp]: "from_hex_bytes (to_hex i) = Some i"
proof (induction i)
  case Nil
  then show ?case by (simp add: to_hex_def)
next
  case (Cons c i)
  have "(of_char c :: nat) div 16 * 16 + of_char c mod 16 = of_char c" by simp
  with Cons show ?case by (simp add: to_hex_def byte_hex_def Let_def)
qed

lemma length_to_hex [simp]: "length (to_hex i) = 2 * length i"
  by (induction i) (auto simp: to_hex_def byte_hex_def Let_def)

lemma from_hex_to_hex [simp]: "url_id_ok i \<Longrightarrow> from_hex (to_hex i) = Some i"
  by (simp add: from_hex_def url_id_ok_def)

lemma to_hex_inject [simp]: "to_hex i = to_hex j \<longleftrightarrow> i = j"
  by (metis from_hex_bytes_to_hex option.inject)

lemma hex_char_small: "d < 16 \<Longrightarrow> (of_char (hex_char d) :: nat) < 103"
  by (simp add: hex_char_def)

lemma bar_code: "\<not> (of_char CHR ''|'' :: nat) < 103"
  by simp

lemma to_hex_no_bar [simp]: "CHR ''|'' \<notin> set (to_hex i)"
proof -
  have "CHR ''|'' \<noteq> hex_char d" if "d < 16" for d
    using hex_char_small [OF that] by (metis bar_code)
  then show ?thesis by (induction i) (auto simp: to_hex_def byte_hex_def Let_def)
qed

lemma from_hex_length: "from_hex s = Some i \<Longrightarrow> url_id_ok i"
proof -
  have *: "from_hex_bytes s = Some i \<Longrightarrow> 2 * length i = length s" for s i
    by (induction s arbitrary: i rule: from_hex_bytes.induct) (auto split: option.splits)
  show "from_hex s = Some i \<Longrightarrow> url_id_ok i"
    using * [of s i] by (auto simp: from_hex_def url_id_ok_def split: if_splits)
qed

lemma failure_kind_str_inject [simp]: "failure_kind_str a = failure_kind_str b \<longleftrightarrow> a = b"
  by (cases a; cases b) simp_all

lemma split_once_shard [simp]: "split_once CHR ''|'' (show_nat n @ CHR ''|'' # r) = Some (show_nat n, r)"
  using show_nat_no_sep [of "CHR ''|''" n] by simp

lemma decode_encode_attempt:
  "shard \<le> U32_MAX \<Longrightarrow> url_id_ok i \<Longrightarrow> decode_attempt (encode_attempt shard i host) = Some (shard, i, host)"
  by (simp add: decode_attempt_def encode_attempt_def strip_prefix_s_def)

lemma fake_decode_encode_attempt:
  "shard \<le> U32_MAX \<Longrightarrow> url_id_ok i \<Longrightarrow> fake_decode_attempt (fake_encode_attempt shard i) = Inr (shard, i)"
  by (simp add: fake_decode_attempt_def fake_encode_attempt_def)

subsection \<open>Properties\<close>

text \<open>an attempt id is decoded to exactly the shard, the URL id and the host it was built
  from, whatever the host contains; so the token is injective and \<open>ack\<close> addresses the lease
  that \<open>claim\<close> created. The in-memory frontier's token has the same round trip.\<close>

theorem attempt_roundtrip:
  assumes "shard \<le> U32_MAX" "url_id_ok i"
  shows "decode_attempt (encode_attempt shard i host) = Some (shard, i, host) \<and>
         fake_decode_attempt (fake_encode_attempt shard i) = Inr (shard, i)"
  using decode_encode_attempt [OF assms] fake_decode_encode_attempt [OF assms] by simp

theorem attempt_roundtrip_witness:
  "decode_attempt (encode_attempt 7 (replicate 16 CHR ''k'') ''e.test|x'') =
     Some (7, replicate 16 CHR ''k'', ''e.test|x'')"
  using attempt_roundtrip [of 7 "replicate 16 CHR ''k''" "''e.test|x''"] by (simp add: url_id_ok_def)

end
