(* ===== verification/Redis_Server.thy ===== *)
theory Redis_Server
  imports Core_Types
begin

text \<open>
  The Redis server as the frontier's scripts use it. The server is a parameter: a record of
  the commands the code issues, over a database of any type, with the documented effect of
  each command on what the reads return as the laws of the locale \<open>redis_server\<close>. Sorted sets
  are read as Redis returns them, as the list of (score, member) pairs in ascending order of
  score and then of member. Scores are wall-clock milliseconds, exact as integers.
\<close>

subsection \<open>Sorted sets\<close>

type_synonym zset = "(int \<times> string) list"

definition zscore :: "zset \<Rightarrow> string \<Rightarrow> int option" where
  "zscore z x = map_of (map (\<lambda>(s, y). (y, s)) z) x"

definition zrem :: "string \<Rightarrow> zset \<Rightarrow> zset" where
  "zrem x z = filter (\<lambda>(s, y). y \<noteq> x) z"

definition zadd :: "int \<Rightarrow> string \<Rightarrow> zset \<Rightarrow> zset" where
  "zadd s x z = insort (s, x) (zrem x z)"

definition zadd_nx :: "int \<Rightarrow> string \<Rightarrow> zset \<Rightarrow> zset" where
  "zadd_nx s x z = (if zscore z x = None then zadd s x z else z)"

text \<open>\<open>ZRANGEBYSCORE key lo hi LIMIT 0 n\<close>.\<close>

definition zrange_by_score :: "int \<Rightarrow> int \<Rightarrow> nat \<Rightarrow> zset \<Rightarrow> string list" where
  "zrange_by_score lo hi n z = take n (map snd (filter (\<lambda>(s, _). lo \<le> s \<and> s \<le> hi) z))"

definition zset_ok :: "zset \<Rightarrow> bool" where
  "zset_ok z = (sorted z \<and> distinct (map snd z))"

lemma zscore_iff: "zset_ok z \<Longrightarrow> zscore z x = Some s \<longleftrightarrow> (s, x) \<in> set z"
proof -
  assume "zset_ok z"
  then have "distinct (map fst (map (\<lambda>(s, y). (y, s)) z))"
    by (simp add: zset_ok_def comp_def case_prod_unfold)
  then have "map_of (map (\<lambda>(s, y). (y, s)) z) x = Some s \<longleftrightarrow> (x, s) \<in> set (map (\<lambda>(s, y). (y, s)) z)"
    by (simp only: map_of_eq_Some_iff)
  then show ?thesis by (auto simp: zscore_def)
qed

lemma zscore_None [simp]: "zscore z x = None \<longleftrightarrow> x \<notin> snd ` set z"
  by (force simp: zscore_def map_of_eq_None_iff)

lemma set_zrem: "set (zrem x z) = {(s, y) \<in> set z. y \<noteq> x}"
  by (auto simp: zrem_def)

lemma set_zadd: "set (zadd s x z) = insert (s, x) {(t, y) \<in> set z. y \<noteq> x}"
  by (simp add: zadd_def set_insort_key set_zrem)

lemma zrem_ok [simp]: "zset_ok z \<Longrightarrow> zset_ok (zrem x z)"
  by (auto simp: zset_ok_def zrem_def sorted_wrt_filter distinct_map_filter intro: sorted_filter)

lemma zadd_ok [simp]: "zset_ok z \<Longrightarrow> zset_ok (zadd s x z)"
proof -
  assume ok: "zset_ok z"
  have "distinct (map snd (insort (s, x) ys))" if "distinct (map snd ys)" "x \<notin> snd ` set ys" for ys
    using that by (induction ys) (auto simp: set_insort_key)
  moreover have "zset_ok (zrem x z)" using ok by simp
  moreover have "x \<notin> snd ` set (zrem x z)" by (auto simp: set_zrem)
  ultimately show ?thesis by (simp add: zset_ok_def zadd_def sorted_insort)
qed

lemma zadd_nx_ok [simp]: "zset_ok z \<Longrightarrow> zset_ok (zadd_nx s x z)"
  by (simp add: zadd_nx_def)

lemma zscore_zrem [simp]: "zscore (zrem x z) y = (if y = x then None else zscore z y)"
proof -
  have "map (\<lambda>(s, y). (y, s)) (zrem x z) = filter (\<lambda>(y, s). y \<noteq> x) (map (\<lambda>(s, y). (y, s)) z)"
    by (induction z) (auto simp: zrem_def)
  then have "zscore (zrem x z) y = map_of (filter (\<lambda>(y, s). y \<noteq> x) (map (\<lambda>(s, y). (y, s)) z)) y"
    by (simp add: zscore_def)
  also have "\<dots> = (if y = x then None else zscore z y)"
    unfolding zscore_def by (induction z) auto
  finally show ?thesis .
qed

lemma zscore_zadd [simp]: "zset_ok z \<Longrightarrow> zscore (zadd s x z) y = (if y = x then Some s else zscore z y)"
  using zscore_iff [of "zadd s x z"] zscore_iff [of z]
  by (cases "zscore z y") (auto simp: set_zadd, (metis option.distinct(1) option.exhaust zscore_None)+)

lemma zadd_members [simp]: "snd ` set (zadd s x z) = insert x (snd ` set z)"
  by (force simp: set_zadd)

lemma zadd_nx_members [simp]: "snd ` set (zadd_nx s x z) = insert x (snd ` set z)"
  by (auto simp: zadd_nx_def zadd_members)

lemma zrem_members [simp]: "snd ` set (zrem x z) = snd ` set z - {x}"
  by (force simp: set_zrem)

lemma zrem_nop: "x \<notin> snd ` set z \<Longrightarrow> zrem x z = z"
  unfolding zrem_def by (subst filter_id_conv) force

lemma zrange_by_score_due:
  "x \<in> set (zrange_by_score lo hi n z) \<Longrightarrow> \<exists>s. (s, x) \<in> set z \<and> lo \<le> s \<and> s \<le> hi"
  unfolding zrange_by_score_def by (drule in_set_takeD) (clarsimp, blast)

lemma zrange_by_score_distinct: "zset_ok z \<Longrightarrow> distinct (zrange_by_score lo hi n z)"
  by (simp add: zrange_by_score_def zset_ok_def distinct_map_filter)

lemma zrange_by_score_all:
  "n \<ge> length z \<Longrightarrow> set (zrange_by_score lo hi n z) = {x. \<exists>s. (s, x) \<in> set z \<and> lo \<le> s \<and> s \<le> hi}"
proof -
  assume "n \<ge> length z"
  then have "length (filter (\<lambda>(s, _). lo \<le> s \<and> s \<le> hi) z) \<le> n"
    using length_filter_le le_trans by blast
  then have "set (zrange_by_score lo hi n z) = snd ` set (filter (\<lambda>(s, _). lo \<le> s \<and> s \<le> hi) z)"
    by (simp add: zrange_by_score_def)
  then show ?thesis by (auto simp: image_iff)
qed

text \<open>The head of a sorted set has the least score.\<close>

lemma zset_hd_least: "zset_ok z \<Longrightarrow> z = (s, x) # zs \<Longrightarrow> (t, y) \<in> set z \<Longrightarrow> s \<le> t"
  by (auto simp: zset_ok_def less_eq_prod_def)

subsection \<open>Commands\<close>

record 'db redis =
  r_lrange :: "'db \<Rightarrow> string \<Rightarrow> string list"
  r_zrange :: "'db \<Rightarrow> string \<Rightarrow> zset"
  r_hget :: "'db \<Rightarrow> string \<Rightarrow> string \<Rightarrow> string option"
  r_get :: "'db \<Rightarrow> string \<Rightarrow> int option"
  r_bf_exists :: "'db \<Rightarrow> string \<Rightarrow> string \<Rightarrow> bool"
  r_lpop :: "'db \<Rightarrow> string \<Rightarrow> 'db"
  r_rpush :: "'db \<Rightarrow> string \<Rightarrow> string \<Rightarrow> 'db"
  r_lrem :: "'db \<Rightarrow> string \<Rightarrow> string \<Rightarrow> 'db"
  r_zadd :: "'db \<Rightarrow> string \<Rightarrow> int \<Rightarrow> string \<Rightarrow> 'db"
  r_zadd_nx :: "'db \<Rightarrow> string \<Rightarrow> int \<Rightarrow> string \<Rightarrow> 'db"
  r_zrem :: "'db \<Rightarrow> string \<Rightarrow> string \<Rightarrow> 'db"
  r_hset :: "'db \<Rightarrow> string \<Rightarrow> string \<Rightarrow> string \<Rightarrow> 'db"
  r_hdel :: "'db \<Rightarrow> string \<Rightarrow> string \<Rightarrow> 'db"
  r_incr :: "'db \<Rightarrow> string \<Rightarrow> 'db"
  r_bf_add :: "'db \<Rightarrow> string \<Rightarrow> string \<Rightarrow> 'db"

text \<open>The reply of \<open>LPOP\<close> is the head of the list, and that of \<open>BF.ADD\<close> whether the item was
  not there before.\<close>

definition lpop_reply :: "'db redis \<Rightarrow> 'db \<Rightarrow> string \<Rightarrow> string option" where
  "lpop_reply R db k = (case r_lrange R db k of [] \<Rightarrow> None | x # _ \<Rightarrow> Some x)"

definition bf_add_reply :: "'db redis \<Rightarrow> 'db \<Rightarrow> string \<Rightarrow> string \<Rightarrow> bool" where
  "bf_add_reply R db k x = (\<not> r_bf_exists R db k x)"

text \<open>
  What each command changes of each read. The data types have separate key spaces here: no key
  of the crawler is used with two types (theory \<open>Frontier_Keys\<close>), so the server's type errors
  do not arise. The Bloom filter has no false negatives; an insertion may make other items
  look present.
\<close>

locale redis_server =
  fixes R :: "'db redis"
  assumes zrange_ok: "zset_ok (r_zrange R db k)"
    and lrange_lists:
      "r_lrange R (r_lpop R db k) = (r_lrange R db)(k := tl (r_lrange R db k))"
      "r_lrange R (r_rpush R db k x) = (r_lrange R db)(k := r_lrange R db k @ [x])"
      "r_lrange R (r_lrem R db k x) = (r_lrange R db)(k := removeAll x (r_lrange R db k))"
    and lrange_frame:
      "r_lrange R (r_zadd R db k s x) = r_lrange R db" "r_lrange R (r_zadd_nx R db k s x) = r_lrange R db"
      "r_lrange R (r_zrem R db k x) = r_lrange R db" "r_lrange R (r_hset R db k f v) = r_lrange R db"
      "r_lrange R (r_hdel R db k f) = r_lrange R db" "r_lrange R (r_incr R db k) = r_lrange R db"
      "r_lrange R (r_bf_add R db k x) = r_lrange R db"
    and zrange_zsets:
      "r_zrange R (r_zadd R db k s x) = (r_zrange R db)(k := zadd s x (r_zrange R db k))"
      "r_zrange R (r_zadd_nx R db k s x) = (r_zrange R db)(k := zadd_nx s x (r_zrange R db k))"
      "r_zrange R (r_zrem R db k x) = (r_zrange R db)(k := zrem x (r_zrange R db k))"
    and zrange_frame:
      "r_zrange R (r_lpop R db k) = r_zrange R db" "r_zrange R (r_rpush R db k x) = r_zrange R db"
      "r_zrange R (r_lrem R db k x) = r_zrange R db" "r_zrange R (r_hset R db k f v) = r_zrange R db"
      "r_zrange R (r_hdel R db k f) = r_zrange R db" "r_zrange R (r_incr R db k) = r_zrange R db"
      "r_zrange R (r_bf_add R db k x) = r_zrange R db"
    and hget_hashes:
      "r_hget R (r_hset R db k f v) = (r_hget R db)(k := (r_hget R db k)(f := Some v))"
      "r_hget R (r_hdel R db k f) = (r_hget R db)(k := (r_hget R db k)(f := None))"
    and hget_frame:
      "r_hget R (r_lpop R db k) = r_hget R db" "r_hget R (r_rpush R db k x) = r_hget R db"
      "r_hget R (r_lrem R db k x) = r_hget R db" "r_hget R (r_zadd R db k s x) = r_hget R db"
      "r_hget R (r_zadd_nx R db k s x) = r_hget R db" "r_hget R (r_zrem R db k x) = r_hget R db"
      "r_hget R (r_incr R db k) = r_hget R db" "r_hget R (r_bf_add R db k x) = r_hget R db"
    and get_counters:
      "r_get R (r_incr R db k) =
         (r_get R db)(k := Some (1 + (case r_get R db k of None \<Rightarrow> 0 | Some n \<Rightarrow> n)))"
    and get_frame:
      "r_get R (r_lpop R db k) = r_get R db" "r_get R (r_rpush R db k x) = r_get R db"
      "r_get R (r_lrem R db k x) = r_get R db" "r_get R (r_zadd R db k s x) = r_get R db"
      "r_get R (r_zadd_nx R db k s x) = r_get R db" "r_get R (r_zrem R db k x) = r_get R db"
      "r_get R (r_hset R db k f v) = r_get R db" "r_get R (r_hdel R db k f) = r_get R db"
      "r_get R (r_bf_add R db k x) = r_get R db"
    and bloom_add: "r_bf_exists R (r_bf_add R db k x) k x"
    and bloom_mono: "r_bf_exists R db k y \<Longrightarrow> r_bf_exists R (r_bf_add R db k x) k y"
    and bloom_present: "r_bf_exists R db k x \<Longrightarrow> r_bf_exists R (r_bf_add R db k x) = r_bf_exists R db"
    and bloom_other: "k' \<noteq> k \<Longrightarrow> r_bf_exists R (r_bf_add R db k x) k' = r_bf_exists R db k'"
    and bloom_frame:
      "r_bf_exists R (r_lpop R db k) = r_bf_exists R db" "r_bf_exists R (r_rpush R db k x) = r_bf_exists R db"
      "r_bf_exists R (r_lrem R db k x) = r_bf_exists R db" "r_bf_exists R (r_zadd R db k s x) = r_bf_exists R db"
      "r_bf_exists R (r_zadd_nx R db k s x) = r_bf_exists R db" "r_bf_exists R (r_zrem R db k x) = r_bf_exists R db"
      "r_bf_exists R (r_hset R db k f v) = r_bf_exists R db" "r_bf_exists R (r_hdel R db k f) = r_bf_exists R db"
      "r_bf_exists R (r_incr R db k) = r_bf_exists R db"
begin

lemmas reads =
  lrange_lists lrange_frame zrange_zsets zrange_frame hget_hashes hget_frame
  get_counters get_frame bloom_frame

end

subsection \<open>A reference server\<close>

text \<open>An in-memory server over association lists, with an exact set in place of the Bloom filter;
  it satisfies the laws and runs the scripts on concrete inputs.\<close>

record mem_db =
  m_lists :: "(string \<times> string list) list"
  m_zsets :: "(string \<times> zset) list"
  m_hashes :: "((string \<times> string) \<times> string option) list"
  m_counters :: "(string \<times> int) list"
  m_blooms :: "(string \<times> string) list"

definition mem_lrange :: "mem_db \<Rightarrow> string \<Rightarrow> string list" where
  "mem_lrange db k = (case map_of (m_lists db) k of None \<Rightarrow> [] | Some l \<Rightarrow> l)"

text \<open>Sorted sets are put in order by the read, so that every value of the type is a database.\<close>

fun zset_norm :: "zset \<Rightarrow> zset" where
  "zset_norm [] = []"
| "zset_norm ((s, x) # z) = zadd s x (zset_norm z)"

definition mem_zrange :: "mem_db \<Rightarrow> string \<Rightarrow> zset" where
  "mem_zrange db k = (case map_of (m_zsets db) k of None \<Rightarrow> [] | Some z \<Rightarrow> zset_norm z)"

definition mem_hget :: "mem_db \<Rightarrow> string \<Rightarrow> string \<Rightarrow> string option" where
  "mem_hget db k f = (case map_of (m_hashes db) (k, f) of None \<Rightarrow> None | Some v \<Rightarrow> v)"

definition mem_get :: "mem_db \<Rightarrow> string \<Rightarrow> int option" where
  "mem_get db k = map_of (m_counters db) k"

definition mem_bf_exists :: "mem_db \<Rightarrow> string \<Rightarrow> string \<Rightarrow> bool" where
  "mem_bf_exists db k x = ((k, x) \<in> set (m_blooms db))"

definition mem_set_list :: "mem_db \<Rightarrow> string \<Rightarrow> string list \<Rightarrow> mem_db" where
  "mem_set_list db k l = db\<lparr>m_lists := (k, l) # m_lists db\<rparr>"

definition mem_set_zset :: "mem_db \<Rightarrow> string \<Rightarrow> zset \<Rightarrow> mem_db" where
  "mem_set_zset db k z = db\<lparr>m_zsets := (k, z) # m_zsets db\<rparr>"

definition mem_set_field :: "mem_db \<Rightarrow> string \<Rightarrow> string \<Rightarrow> string option \<Rightarrow> mem_db" where
  "mem_set_field db k f v = db\<lparr>m_hashes := ((k, f), v) # m_hashes db\<rparr>"

definition mem_incr :: "mem_db \<Rightarrow> string \<Rightarrow> mem_db" where
  "mem_incr db k = db\<lparr>m_counters := (k, 1 + (case mem_get db k of None \<Rightarrow> 0 | Some n \<Rightarrow> n)) # m_counters db\<rparr>"

definition mem_bf_add :: "mem_db \<Rightarrow> string \<Rightarrow> string \<Rightarrow> mem_db" where
  "mem_bf_add db k x = db\<lparr>m_blooms := (k, x) # m_blooms db\<rparr>"

definition mem_redis :: "mem_db redis" where
  "mem_redis =
     \<lparr>r_lrange = mem_lrange, r_zrange = mem_zrange, r_hget = mem_hget, r_get = mem_get, r_bf_exists = mem_bf_exists,
      r_lpop = (\<lambda>db k. mem_set_list db k (tl (mem_lrange db k))),
      r_rpush = (\<lambda>db k x. mem_set_list db k (mem_lrange db k @ [x])),
      r_lrem = (\<lambda>db k x. mem_set_list db k (removeAll x (mem_lrange db k))),
      r_zadd = (\<lambda>db k s x. mem_set_zset db k (zadd s x (mem_zrange db k))),
      r_zadd_nx = (\<lambda>db k s x. mem_set_zset db k (zadd_nx s x (mem_zrange db k))),
      r_zrem = (\<lambda>db k x. mem_set_zset db k (zrem x (mem_zrange db k))),
      r_hset = (\<lambda>db k f v. mem_set_field db k f (Some v)),
      r_hdel = (\<lambda>db k f. mem_set_field db k f None),
      r_incr = mem_incr, r_bf_add = mem_bf_add\<rparr>"

definition empty_mem :: mem_db where
  "empty_mem = \<lparr>m_lists = [], m_zsets = [], m_hashes = [], m_counters = [], m_blooms = []\<rparr>"

lemma zset_norm_ok [simp]: "zset_ok (zset_norm z)"
  by (induction z rule: zset_norm.induct) (simp_all add: zset_ok_def [of "[]"])

lemma zset_norm_id: "zset_ok z \<Longrightarrow> zset_norm z = z"
proof (induction z rule: zset_norm.induct)
  case (2 s x z)
  then have "zset_norm z = z" and "x \<notin> snd ` set z" and "sorted ((s, x) # z)"
    by (auto simp: zset_ok_def image_iff)
  then show ?case by (simp add: zadd_def zrem_nop insort_is_Cons)
qed simp

lemma mem_zrange_ok [simp]: "zset_ok (mem_zrange db k)"
  by (simp add: mem_zrange_def zset_ok_def [of "[]"] split: option.split)

lemmas mem_defs = mem_lrange_def mem_zrange_def mem_hget_def mem_get_def mem_bf_exists_def
  mem_set_list_def mem_set_zset_def mem_set_field_def mem_incr_def mem_bf_add_def

lemma mem_reads:
  "mem_lrange (mem_set_list db k l) = (mem_lrange db)(k := l)"
  "zset_ok z \<Longrightarrow> mem_zrange (mem_set_zset db k z) = (mem_zrange db)(k := z)"
  "mem_hget (mem_set_field db k f v) = (mem_hget db)(k := (mem_hget db k)(f := v))"
  by (auto simp: mem_defs fun_eq_iff zset_norm_id)

interpretation mem_redis: redis_server mem_redis
  by unfold_locales
    (simp_all add: mem_redis_def mem_reads, auto simp: mem_defs fun_eq_iff)

end
