(* ===== verification/Frontier_Keys.thy ===== *)
theory Frontier_Keys
  imports Redis_Server
begin

text \<open>
  \<^verbatim>\<open>crawlrs-frontier/src/keys.rs\<close>: the names of the Redis keys of one run. The lemmas in
  \<open>key_simps\<close> decide every equation between two keys of one run, which is what the scripts'
  proofs need; the properties say that two runs share nothing but the \<open>seen\<close> filters and that
  the per-run keys of a shard share one cluster hash tag.
\<close>

type_synonym key_prefix = run_id

definition shard_tag :: "key_prefix \<Rightarrow> u32 \<Rightarrow> string" where
  "shard_tag run shard = ''crawlrs:{'' @ run @ ''_s'' @ show_nat shard @ ''}''"

definition host_queue_key :: "key_prefix \<Rightarrow> u32 \<Rightarrow> string \<Rightarrow> string" where
  "host_queue_key run shard host = shard_tag run shard @ '':host_queue:'' @ host"

definition host_queue_prefix :: "key_prefix \<Rightarrow> u32 \<Rightarrow> string" where
  "host_queue_prefix run shard = shard_tag run shard @ '':host_queue:''"

definition wake_key :: "key_prefix \<Rightarrow> u32 \<Rightarrow> string" where
  "wake_key run shard = shard_tag run shard @ '':wake''"

definition ready_key :: "key_prefix \<Rightarrow> u32 \<Rightarrow> string" where
  "ready_key run shard = shard_tag run shard @ '':ready''"

definition inflight_key :: "key_prefix \<Rightarrow> u32 \<Rightarrow> string" where
  "inflight_key run shard = shard_tag run shard @ '':inflight''"

definition urls_key :: "key_prefix \<Rightarrow> u32 \<Rightarrow> string" where
  "urls_key run shard = shard_tag run shard @ '':urls''"

definition host_count_key :: "key_prefix \<Rightarrow> u32 \<Rightarrow> string \<Rightarrow> string" where
  "host_count_key run shard host = shard_tag run shard @ '':host_count:'' @ host"

definition seen_key :: "key_prefix \<Rightarrow> u32 \<Rightarrow> string" where
  "seen_key run shard = ''crawlrs:{s'' @ show_nat shard @ ''}:seen''"

lemmas key_defs = host_queue_key_def wake_key_def ready_key_def inflight_key_def urls_key_def
  host_count_key_def

subsection \<open>Distinct keys of one run\<close>

lemma shard_tag_append [key_simps]:
  "shard_tag run s @ x = shard_tag run t @ y \<longleftrightarrow> s = t \<and> x = y"
  using digits_then_sep [of s "CHR ''}''" x t y] by (auto simp: shard_tag_def)

lemma shard_tag_inject [key_simps]: "shard_tag run s = shard_tag run t \<longleftrightarrow> s = t"
  using shard_tag_append [of run s "[]" t "[]"] by simp

lemma host_queue_prefix_host [key_simps]: "host_queue_prefix run s @ h = host_queue_key run s h"
  by (simp add: host_queue_prefix_def host_queue_key_def)

lemma keys_distinct [key_simps]:
  "host_queue_key run s h = host_queue_key run t g \<longleftrightarrow> s = t \<and> h = g"
  "host_count_key run s h = host_count_key run t g \<longleftrightarrow> s = t \<and> h = g"
  "wake_key run s = wake_key run t \<longleftrightarrow> s = t"
  "ready_key run s = ready_key run t \<longleftrightarrow> s = t"
  "inflight_key run s = inflight_key run t \<longleftrightarrow> s = t"
  "urls_key run s = urls_key run t \<longleftrightarrow> s = t"
  "host_queue_key run s h \<noteq> ready_key run t" "ready_key run t \<noteq> host_queue_key run s h"
  "wake_key run s \<noteq> inflight_key run t" "inflight_key run t \<noteq> wake_key run s"
  by (auto simp: key_defs shard_tag_append shard_tag_inject)

lemma seen_key_inject [key_simps]: "seen_key run s = seen_key run' t \<longleftrightarrow> s = t"
  using digits_then_sep [of s "CHR ''}''" _ t] by (auto simp: seen_key_def)

subsection \<open>Runs and cluster slots\<close>

text \<open>Redis Cluster hashes only the text between the first opening brace and the next closing
  one, when it is not empty.\<close>

definition hash_tag :: "string \<Rightarrow> string" where
  "hash_tag key =
     (case split_once CHR ''{'' key of None \<Rightarrow> key
      | Some (_, rest) \<Rightarrow>
         (case split_once CHR ''}'' rest of None \<Rightarrow> key | Some (t, _) \<Rightarrow> if t = [] then key else t))"

lemma hash_tag_brace: "CHR ''}'' \<notin> set t \<Longrightarrow> t \<noteq> [] \<Longrightarrow> hash_tag (''crawlrs:{'' @ t @ CHR ''}'' # r) = t"
  using split_once_append [of "CHR ''{''" "''crawlrs:''" "t @ CHR ''}'' # r"]
  by (simp add: hash_tag_def)

lemma hash_tag_shard:
  assumes "CHR ''}'' \<notin> set run"
  shows "hash_tag (shard_tag run s @ r) = run @ ''_s'' @ show_nat s"
  using hash_tag_brace [of "run @ ''_s'' @ show_nat s" r] assms show_nat_no_sep [of "CHR ''}''" s]
  by (simp add: shard_tag_def)

lemma hash_tag_seen: "hash_tag (seen_key run s) = CHR ''s'' # show_nat s"
  using hash_tag_brace [of "CHR ''s'' # show_nat s" "'':seen''"] show_nat_no_sep [of "CHR ''}''" s]
  by (simp add: seen_key_def)

lemma digit_val_s [simp]: "digit_val CHR ''s'' = None"
  by (simp add: digit_val_def Let_def)

lemma run_shard_inject: "run @ ''_s'' @ show_nat s = run' @ ''_s'' @ show_nat t \<longleftrightarrow> run = run' \<and> s = t"
proof
  assume "run @ ''_s'' @ show_nat s = run' @ ''_s'' @ show_nat t"
  then have "rev (show_nat s) @ CHR ''s'' # CHR ''_'' # rev run = rev (show_nat t) @ CHR ''s'' # CHR ''_'' # rev run'"
    by (metis append.assoc append_Cons append_Nil rev.simps(2) rev_append rev_rev_ident)
  then have "split_once CHR ''s'' (rev (show_nat s) @ CHR ''s'' # CHR ''_'' # rev run) =
             split_once CHR ''s'' (rev (show_nat t) @ CHR ''s'' # CHR ''_'' # rev run')" by simp
  then show "run = run' \<and> s = t"
    using show_nat_no_sep [of "CHR ''s''"] by simp
qed simp

lemma digit_val_underscore [simp]: "digit_val CHR ''_'' = None"
  by (simp add: digit_val_def Let_def)

lemma run_shard_not_seen: "run @ ''_s'' @ show_nat s \<noteq> CHR ''s'' # show_nat t"
proof
  assume "run @ ''_s'' @ show_nat s = CHR ''s'' # show_nat t"
  then have "CHR ''_'' \<in> set (CHR ''s'' # show_nat t)" by (metis in_set_conv_decomp append_Cons)
  then show False using show_nat_no_sep [of "CHR ''_''" t] by simp
qed

text \<open>The keys one run uses on one shard, besides \<open>seen\<close>.\<close>

inductive per_run_key :: "key_prefix \<Rightarrow> u32 \<Rightarrow> string \<Rightarrow> bool" for run shard where
  "per_run_key run shard (host_queue_key run shard h)"
| "per_run_key run shard (host_count_key run shard h)"
| "per_run_key run shard (wake_key run shard)"
| "per_run_key run shard (ready_key run shard)"
| "per_run_key run shard (inflight_key run shard)"
| "per_run_key run shard (urls_key run shard)"

lemma per_run_key_tag:
  "per_run_key run s k \<Longrightarrow> CHR ''}'' \<notin> set run \<Longrightarrow> hash_tag k = run @ ''_s'' @ show_nat s"
  by (induction rule: per_run_key.induct) (simp_all add: key_defs hash_tag_shard)

subsection \<open>Properties\<close>

text \<open>C20: the per-run keys of one shard share one cluster hash tag; keys of different runs or
  shards never coincide; and the \<open>seen\<close> filter, shared by all runs, has a tag of its own.\<close>

theorem keys_isolated:
  assumes "CHR ''}'' \<notin> set run" "CHR ''}'' \<notin> set run'"
    and "per_run_key run s k" "per_run_key run' t k'"
  shows "(hash_tag k = hash_tag k') = (run = run' \<and> s = t) \<and>
         ((run, s) \<noteq> (run', t) \<longrightarrow> k \<noteq> k') \<and>
         seen_key run s = seen_key run' s \<and> hash_tag (seen_key run s) \<noteq> hash_tag k"
  using per_run_key_tag [OF assms(3) assms(1)] per_run_key_tag [OF assms(4) assms(2)]
    run_shard_inject [of run s run' t] run_shard_not_seen [of run s s] hash_tag_seen [of run s]
  by (auto simp: seen_key_def)

theorem keys_isolated_witness:
  "hash_tag (wake_key ''demo'' 0) = hash_tag (urls_key ''demo'' 0) \<and>
   wake_key ''demo'' 0 \<noteq> wake_key ''demo2'' 0"
  using keys_isolated [of "''demo''" "''demo''" 0 "wake_key ''demo'' 0" 0 "urls_key ''demo'' 0"]
    keys_isolated [of "''demo''" "''demo2''" 0 "wake_key ''demo'' 0" 0 "wake_key ''demo2'' 0"]
  by (simp add: per_run_key.intros)

end
