(* ===== verification/Frontier_Spec.thy ===== *)
theory Frontier_Spec
  imports Redis_Server
begin

text \<open>
  The frontier of one shard as an abstract state machine: per-host queues of URL ids, the
  payload table, the seen filter, per-host counters, the wake schedule, the list of ready hosts
  and the leases. Theory \<open>Frontier_Scripts\<close> proves that the Lua scripts and \<open>ack\<close> implement
  these operations. The Bloom filter may accept more than was inserted, so a submission takes
  the filter's next state as an argument that is only required to extend the present one.
\<close>

subsection \<open>State and operations\<close>

record shard =
  sh_queue :: "string \<Rightarrow> string list"
  sh_urls :: "string \<Rightarrow> string option"
  sh_seen :: "string \<Rightarrow> bool"
  sh_count :: "string \<Rightarrow> int option"
  sh_wake :: zset
  sh_ready :: "string list"
  sh_inflight :: zset

text \<open>The member of the lease set for a URL id and its host.\<close>

definition lease_member :: "string \<Rightarrow> string \<Rightarrow> string" where
  "lease_member i h = i @ ''|'' @ h"

record submit_item =
  si_id :: string
  si_host :: string
  si_payload :: string
  si_cap :: int

datatype item_outcome = Queued | Duplicate | Rejected

definition count_of :: "shard \<Rightarrow> string \<Rightarrow> int" where
  "count_of s h = (case sh_count s h of None \<Rightarrow> 0 | Some n \<Rightarrow> n)"

definition sh_enqueue :: "string \<Rightarrow> string \<Rightarrow> string \<Rightarrow> int \<Rightarrow> shard \<Rightarrow> shard" where
  "sh_enqueue i h payload now s =
     s\<lparr>sh_urls := (sh_urls s)(i := Some payload),
       sh_queue := (sh_queue s)(h := sh_queue s h @ [i]),
       sh_wake := zadd_nx now h (sh_wake s)\<rparr>"

definition sh_bump :: "submit_item \<Rightarrow> shard \<Rightarrow> shard" where
  "sh_bump it s =
     (if si_cap it \<ge> 0 then s\<lparr>sh_count := (sh_count s)(si_host it := Some (1 + count_of s (si_host it)))\<rparr> else s)"

definition over_quota :: "submit_item \<Rightarrow> shard \<Rightarrow> bool" where
  "over_quota it s = (si_cap it \<ge> 0 \<and> count_of s (si_host it) \<ge> si_cap it)"

definition sh_submit_item :: "(string \<Rightarrow> bool) \<Rightarrow> submit_item \<Rightarrow> int \<Rightarrow> shard \<Rightarrow> item_outcome \<times> shard" where
  "sh_submit_item seen' it now s =
     (if over_quota it s then (Rejected, s)
      else if sh_seen s (si_id it) then (Duplicate, s)
      else (Queued, sh_enqueue (si_id it) (si_host it) (si_payload it) now (sh_bump it (s\<lparr>sh_seen := seen'\<rparr>))))"

datatype claim_reply = Claimed string string "string option" | EmptyHint int | Empty

definition sh_claim :: "int \<Rightarrow> int \<Rightarrow> shard \<Rightarrow> claim_reply \<times> shard" where
  "sh_claim now lease s =
     (case dropWhile (\<lambda>h. sh_queue s h = []) (sh_ready s) of
        [] \<Rightarrow> ((case sh_wake s of [] \<Rightarrow> Empty | (t, _) # _ \<Rightarrow> EmptyHint t), s\<lparr>sh_ready := []\<rparr>)
      | h # rest \<Rightarrow>
          (let i = hd (sh_queue s h) in
           (Claimed i h (sh_urls s i),
            s\<lparr>sh_ready := rest,
              sh_queue := (sh_queue s)(h := tl (sh_queue s h)),
              sh_wake := zadd (now + lease) h (sh_wake s),
              sh_inflight := zadd (now + lease) (lease_member i h) (sh_inflight s)\<rparr>)))"

definition sh_advance_wake :: "string \<Rightarrow> int \<Rightarrow> shard \<Rightarrow> shard" where
  "sh_advance_wake h t s = s\<lparr>sh_wake := zadd t h (sh_wake s), sh_ready := removeAll h (sh_ready s)\<rparr>"

definition sh_promote :: "int \<Rightarrow> nat \<Rightarrow> shard \<Rightarrow> shard" where
  "sh_promote now lim s =
     (let hosts = zrange_by_score 0 now lim (sh_wake s)
      in s\<lparr>sh_wake := fold zrem hosts (sh_wake s), sh_ready := sh_ready s @ hosts\<rparr>)"

definition sh_reclaim_one :: "int \<Rightarrow> string \<Rightarrow> shard \<Rightarrow> shard" where
  "sh_reclaim_one now m s =
     (case split_once CHR ''|'' m of None \<Rightarrow> s
      | Some (i, h) \<Rightarrow>
          s\<lparr>sh_inflight := zrem m (sh_inflight s),
            sh_queue := (sh_queue s)(h := sh_queue s h @ [i]),
            sh_wake := zadd_nx now h (sh_wake s)\<rparr>)"

definition sh_reclaim :: "int \<Rightarrow> nat \<Rightarrow> shard \<Rightarrow> shard" where
  "sh_reclaim now lim s = fold (sh_reclaim_one now) (zrange_by_score 0 now lim (sh_inflight s)) s"

definition sh_ack :: "string \<Rightarrow> string \<Rightarrow> shard \<Rightarrow> shard" where
  "sh_ack i h s =
     s\<lparr>sh_inflight := zrem (lease_member i h) (sh_inflight s), sh_urls := (sh_urls s)(i := None)\<rparr>"

text \<open>Between its two commands \<open>ack\<close> is interruptible: \<open>sh_ack_first\<close> is the state after the
  first one.\<close>

definition sh_ack_first :: "string \<Rightarrow> string \<Rightarrow> shard \<Rightarrow> shard" where
  "sh_ack_first i h s = s\<lparr>sh_inflight := zrem (lease_member i h) (sh_inflight s)\<rparr>"

definition empty_shard :: shard where
  "empty_shard = \<lparr>sh_queue = (\<lambda>_. []), sh_urls = (\<lambda>_. None), sh_seen = (\<lambda>_. False), sh_count = (\<lambda>_. None),
     sh_wake = [], sh_ready = [], sh_inflight = []\<rparr>"

subsection \<open>Steps\<close>

datatype label =
  LSubmit submit_item int item_outcome
| LClaim int int claim_reply
| LAdvance string int
| LPromote int nat
| LReclaim int nat
| LAckFirst string string
| LAck string string

definition seen_extends :: "(string \<Rightarrow> bool) \<Rightarrow> string \<Rightarrow> (string \<Rightarrow> bool) \<Rightarrow> bool" where
  "seen_extends seen i seen' \<longleftrightarrow> seen' i \<and> (\<forall>x. seen x \<longrightarrow> seen' x)"

inductive shard_step :: "shard \<Rightarrow> label \<Rightarrow> shard \<Rightarrow> bool" where
  submit: "seen_extends (sh_seen s) (si_id it) seen' \<Longrightarrow> CHR ''|'' \<notin> set (si_id it) \<Longrightarrow>
     sh_submit_item seen' it now s = (out, s') \<Longrightarrow> shard_step s (LSubmit it now out) s'"
| claim: "sh_claim now lease s = (r, s') \<Longrightarrow> shard_step s (LClaim now lease r) s'"
| advance: "shard_step s (LAdvance h t) (sh_advance_wake h t s)"
| promote: "shard_step s (LPromote now lim) (sh_promote now lim s)"
| reclaim: "shard_step s (LReclaim now lim) (sh_reclaim now lim s)"
| ack_first: "shard_step s (LAckFirst i h) (sh_ack_first i h s)"
| ack: "shard_step s (LAck i h) (sh_ack i h s)"

inductive shard_run :: "shard \<Rightarrow> label list \<Rightarrow> shard \<Rightarrow> bool" where
  stop: "shard_run s [] s"
| more: "shard_step s l s' \<Longrightarrow> shard_run s' ls s'' \<Longrightarrow> shard_run s (l # ls) s''"

inductive_cases shard_step_submitE: "shard_step s (LSubmit it now out) s'"
inductive_cases shard_step_claimE: "shard_step s (LClaim now lease r) s'"
inductive_cases shard_run_ConsE: "shard_run s (l # ls) s''"
inductive_simps shard_run_Nil [simp]: "shard_run s [] s'"

text \<open>A property kept by every step is kept by every run.\<close>

lemma shard_run_invariant:
  assumes "shard_run s ls s'" "P s" "\<And>s l s'. shard_step s l s' \<Longrightarrow> l \<in> set ls \<Longrightarrow> P s \<Longrightarrow> P s'"
  shows "P s'"
  using assms
proof (induction rule: shard_run.induct)
  case (more s l s' ls s'')
  have "P s'" using more.prems(2) [OF more.hyps(1)] more.prems(1) by simp
  then show ?case using more.IH more.prems(2) by simp
qed

subsection \<open>Invariant\<close>

text \<open>How many times a URL is pending for a host: its places in the queue and its lease.\<close>

definition copies :: "shard \<Rightarrow> string \<Rightarrow> string \<Rightarrow> nat" where
  "copies s i h = count_list (sh_queue s h) i + (if lease_member i h \<in> snd ` set (sh_inflight s) then 1 else 0)"

definition wf_shard :: "shard \<Rightarrow> bool" where
  "wf_shard s \<longleftrightarrow> zset_ok (sh_wake s) \<and> zset_ok (sh_inflight s) \<and>
     (\<forall>m \<in> snd ` set (sh_inflight s). CHR ''|'' \<in> set m) \<and>
     (\<forall>h. \<forall>i \<in> set (sh_queue s h). CHR ''|'' \<notin> set i)"

text \<open>A host with work is scheduled: it is in the wake set or among the ready hosts.\<close>

definition scheduled :: "shard \<Rightarrow> bool" where
  "scheduled s \<longleftrightarrow> (\<forall>h. sh_queue s h \<noteq> [] \<longrightarrow> h \<in> snd ` set (sh_wake s) \<or> h \<in> set (sh_ready s))"

text \<open>A URL is pending at most once, for one host, and only if the filter knows it.\<close>

definition once :: "shard \<Rightarrow> bool" where
  "once s \<longleftrightarrow> (\<forall>i h. CHR ''|'' \<notin> set i \<longrightarrow> copies s i h \<le> 1 \<and>
     (copies s i h > 0 \<longrightarrow> sh_seen s i \<and> (\<forall>h'. copies s i h' > 0 \<longrightarrow> h' = h)))"

definition shard_inv :: "shard \<Rightarrow> bool" where
  "shard_inv s \<longleftrightarrow> wf_shard s \<and> scheduled s \<and> once s"

lemma lease_member_inject [simp]:
  "CHR ''|'' \<notin> set i \<Longrightarrow> CHR ''|'' \<notin> set j \<Longrightarrow> lease_member i h = lease_member j g \<longleftrightarrow> i = j \<and> h = g"
proof -
  assume *: "CHR ''|'' \<notin> set i" "CHR ''|'' \<notin> set j"
  have "split_once CHR ''|'' (lease_member i h) = Some (i, h)" "split_once CHR ''|'' (lease_member j g) = Some (j, g)"
    using * by (simp_all add: lease_member_def)
  then show ?thesis by (metis option.inject prod.inject)
qed

lemma split_lease [simp]: "CHR ''|'' \<notin> set i \<Longrightarrow> split_once CHR ''|'' (lease_member i h) = Some (i, h)"
  by (simp add: lease_member_def)

lemma lease_memberE:
  assumes "CHR ''|'' \<in> set m"
  obtains i h where "CHR ''|'' \<notin> set i" "m = lease_member i h"
proof -
  obtain i h where "split_once CHR ''|'' m = Some (i, h)"
    using assms split_once_None [of "CHR ''|''" m] by fastforce
  then have "m = lease_member i h" "CHR ''|'' \<notin> set i"
    using split_once_SomeD [of "CHR ''|''" m i h] by (simp_all add: lease_member_def)
  then show thesis using that by blast
qed

lemma bar_in_lease [simp]: "CHR ''|'' \<in> set (lease_member i h)"
  by (simp add: lease_member_def)

lemma empty_shard_inv: "shard_inv empty_shard"
  by (simp add: shard_inv_def wf_shard_def scheduled_def once_def copies_def empty_shard_def zset_ok_def)

subsubsection \<open>Submission\<close>

lemma sh_bump_frame [simp]:
  "sh_queue (sh_bump it s) = sh_queue s" "sh_urls (sh_bump it s) = sh_urls s" "sh_seen (sh_bump it s) = sh_seen s"
  "sh_wake (sh_bump it s) = sh_wake s" "sh_ready (sh_bump it s) = sh_ready s" "sh_inflight (sh_bump it s) = sh_inflight s"
  by (simp_all add: sh_bump_def)

lemma sh_enqueue_sel [simp]:
  "sh_queue (sh_enqueue i h p now s) = (sh_queue s)(h := sh_queue s h @ [i])"
  "sh_urls (sh_enqueue i h p now s) = (sh_urls s)(i := Some p)"
  "sh_seen (sh_enqueue i h p now s) = sh_seen s" "sh_count (sh_enqueue i h p now s) = sh_count s"
  "sh_wake (sh_enqueue i h p now s) = zadd_nx now h (sh_wake s)"
  "sh_ready (sh_enqueue i h p now s) = sh_ready s" "sh_inflight (sh_enqueue i h p now s) = sh_inflight s"
  by (simp_all add: sh_enqueue_def)

lemma copies_cong: "sh_queue s' = sh_queue s \<Longrightarrow> sh_inflight s' = sh_inflight s \<Longrightarrow> copies s' = copies s"
  by (simp add: copies_def fun_eq_iff)

lemma copies_enqueue:
  "copies (sh_enqueue i h p now s) j g = copies s j g + (if j = i \<and> g = h then 1 else 0)"
  by (simp add: copies_def)

lemma sh_submit_item_cases:
  assumes "sh_submit_item seen' it now s = (out, s')"
  obtains "s' = s" "out = Rejected" "over_quota it s"
  | "s' = s" "out = Duplicate" "\<not> over_quota it s" "sh_seen s (si_id it)"
  | "\<not> over_quota it s" "\<not> sh_seen s (si_id it)" "out = Queued"
    "s' = sh_enqueue (si_id it) (si_host it) (si_payload it) now (sh_bump it (s\<lparr>sh_seen := seen'\<rparr>))"
  using assms by (auto simp: sh_submit_item_def split: if_splits)

lemma enqueue_inv:
  assumes inv: "shard_inv s" and ns: "\<not> sh_seen s i" and ok: "CHR ''|'' \<notin> set i"
    and ext: "seen_extends (sh_seen s) i seen'"
    and eq: "sh_queue t = sh_queue s" "sh_inflight t = sh_inflight s" "sh_wake t = sh_wake s"
      "sh_ready t = sh_ready s" "sh_seen t = seen'"
  shows "shard_inv (sh_enqueue i h p now t)"
proof -
  have c: "copies t = copies s" by (rule copies_cong) (use eq in auto)
  have z: "copies s i g = 0" for g
    using inv ns ok unfolding shard_inv_def once_def by (meson gr0I)
  have "wf_shard (sh_enqueue i h p now t)"
    using inv ok eq by (auto simp: shard_inv_def wf_shard_def)
  moreover have "scheduled (sh_enqueue i h p now t)"
    using inv eq by (auto simp: shard_inv_def scheduled_def)
  moreover have "once (sh_enqueue i h p now t)"
    unfolding once_def
  proof (intro allI impI)
    fix j g assume "CHR ''|'' \<notin> set j"
    then have j: "copies s j g \<le> 1" "copies s j g > 0 \<Longrightarrow> sh_seen s j"
        "copies s j g > 0 \<Longrightarrow> copies s j g' > 0 \<Longrightarrow> g' = g" for g'
      using inv unfolding shard_inv_def once_def by blast+
    show "copies (sh_enqueue i h p now t) j g \<le> 1 \<and> (0 < copies (sh_enqueue i h p now t) j g \<longrightarrow>
        sh_seen (sh_enqueue i h p now t) j \<and> (\<forall>h'. 0 < copies (sh_enqueue i h p now t) j h' \<longrightarrow> h' = g))"
      using j z ext eq(5) by (cases "j = i") (auto simp: copies_enqueue c seen_extends_def)
  qed
  ultimately show ?thesis by (simp add: shard_inv_def)
qed

lemma submit_inv:
  assumes "shard_inv s" "seen_extends (sh_seen s) (si_id it) seen'" "CHR ''|'' \<notin> set (si_id it)"
    and "sh_submit_item seen' it now s = (out, s')"
  shows "shard_inv s'"
  using assms(4)
proof (cases rule: sh_submit_item_cases)
  case 3
  then show ?thesis using enqueue_inv [OF assms(1) _ assms(3,2)] by simp
qed (use assms(1) in auto)

subsubsection \<open>Claiming, promoting, reclaiming, acknowledging\<close>

lemma once_antimono:
  assumes "once s" "\<And>i h. CHR ''|'' \<notin> set i \<Longrightarrow> copies s' i h \<le> copies s i h" "sh_seen s' = sh_seen s"
  shows "once s'"
  unfolding once_def
proof (intro allI impI)
  fix i h assume i: "CHR ''|'' \<notin> set i"
  have le: "copies s' i g \<le> copies s i g" for g using assms(2) i by blast
  have "copies s i h \<le> 1" "copies s i h > 0 \<Longrightarrow> sh_seen s i"
    "copies s i h > 0 \<Longrightarrow> copies s i g > 0 \<Longrightarrow> g = h" for g
    using assms(1) i unfolding once_def by blast+
  then show "copies s' i h \<le> 1 \<and> (0 < copies s' i h \<longrightarrow> sh_seen s' i \<and> (\<forall>h'. 0 < copies s' i h' \<longrightarrow> h' = h))"
    using le assms(3) by (metis le_trans not_le order_less_le_trans)
qed

lemma sh_claim_cases:
  assumes "sh_claim now lease s = (r, s')"
  obtains (none) "\<forall>h \<in> set (sh_ready s). sh_queue s h = []" "s' = s\<lparr>sh_ready := []\<rparr>"
      "r = (case sh_wake s of [] \<Rightarrow> Empty | (t, _) # _ \<Rightarrow> EmptyHint t)"
  | (claimed) stale h rest i q where "sh_ready s = stale @ h # rest" "\<forall>g \<in> set stale. sh_queue s g = []"
      "sh_queue s h = i # q" "r = Claimed i h (sh_urls s i)"
      "s' = s\<lparr>sh_ready := rest, sh_queue := (sh_queue s)(h := q), sh_wake := zadd (now + lease) h (sh_wake s),
              sh_inflight := zadd (now + lease) (lease_member i h) (sh_inflight s)\<rparr>"
proof (cases "dropWhile (\<lambda>h. sh_queue s h = []) (sh_ready s)")
  case Nil
  then have "\<forall>h \<in> set (sh_ready s). sh_queue s h = []" by (simp add: dropWhile_eq_Nil_conv)
  then show thesis using none assms Nil by (simp add: sh_claim_def)
next
  case (Cons h rest)
  then have ne: "sh_queue s h \<noteq> []" using hd_dropWhile [of "\<lambda>h. sh_queue s h = []" "sh_ready s"] by simp
  let ?stale = "takeWhile (\<lambda>h. sh_queue s h = []) (sh_ready s)"
  have r: "sh_ready s = ?stale @ h # rest" using Cons takeWhile_dropWhile_id by metis
  have e: "\<forall>g \<in> set ?stale. sh_queue s g = []" using set_takeWhileD by fastforce
  obtain i q where q: "sh_queue s h = i # q" using ne by (cases "sh_queue s h") auto
  show thesis by (rule claimed [OF r e q]) (use assms Cons q in \<open>simp_all add: sh_claim_def\<close>)
qed

lemma claim_copies:
  assumes "shard_inv s" "sh_claim now lease s = (r, s')" "CHR ''|'' \<notin> set j"
  shows "copies s' j g = copies s j g"
  using assms(2)
proof (cases rule: sh_claim_cases)
  case none
  then show ?thesis by (simp add: copies_def)
next
  case (claimed stale h rest i q)
  have "\<forall>j \<in> set (sh_queue s h). CHR ''|'' \<notin> set j"
    using assms(1) unfolding shard_inv_def wf_shard_def by blast
  then have i: "CHR ''|'' \<notin> set i" using claimed(3) by simp
  have "copies s i h \<le> 1" using assms(1) i unfolding shard_inv_def once_def by blast
  then have fresh: "lease_member i h \<notin> snd ` set (sh_inflight s)"
    using claimed(3) by (auto simp: copies_def split: if_splits)
  show ?thesis
    using fresh claimed(3,5) assms(3) i by (cases "j = i") (auto simp: copies_def)
qed

lemma claim_inv:
  assumes "shard_inv s" "sh_claim now lease s = (r, s')"
  shows "shard_inv s'"
proof -
  have "sh_seen s' = sh_seen s" using assms(2) by (cases rule: sh_claim_cases) auto
  then have "once s'"
    using once_antimono [of s s'] claim_copies [OF assms] assms(1) by (simp add: shard_inv_def)
  moreover have "wf_shard s' \<and> scheduled s'"
    using assms(2)
  proof (cases rule: sh_claim_cases)
    case none
    then show ?thesis using assms(1) by (auto simp: shard_inv_def wf_shard_def scheduled_def)
  next
    case (claimed stale h rest i q)
    have wf: "\<forall>j \<in> set (sh_queue s g). CHR ''|'' \<notin> set j" for g
      using assms(1) unfolding shard_inv_def wf_shard_def by blast
    have "wf_shard s'"
      using assms(1) claimed(5) wf [of h] claimed(3) by (simp add: shard_inv_def wf_shard_def)
    moreover have "scheduled s'"
      unfolding scheduled_def
    proof (intro allI impI)
      fix g assume g: "sh_queue s' g \<noteq> []"
      show "g \<in> snd ` set (sh_wake s') \<or> g \<in> set (sh_ready s')"
      proof (cases "g = h")
        case False
        then have "sh_queue s g \<noteq> []" using g claimed(5) by simp
        then have "g \<in> snd ` set (sh_wake s) \<or> g \<in> set (sh_ready s)" and "g \<notin> set stale"
          using assms(1) claimed(2) unfolding shard_inv_def scheduled_def by blast+
        then show ?thesis using False claimed(1,5) by auto
      qed (simp add: claimed(5))
    qed
    ultimately show ?thesis ..
  qed
  ultimately show ?thesis by (simp add: shard_inv_def)
qed

lemma advance_inv: "shard_inv s \<Longrightarrow> shard_inv (sh_advance_wake h t s)"
  unfolding shard_inv_def
  by (auto simp: wf_shard_def scheduled_def sh_advance_wake_def copies_def intro: once_antimono)

lemma fold_zrem_members: "snd ` set (fold zrem hs z) = snd ` set z - set hs"
  by (induction hs arbitrary: z) auto

lemma fold_zrem_ok: "zset_ok z \<Longrightarrow> zset_ok (fold zrem hs z)"
  by (induction hs arbitrary: z) auto

lemma promote_inv: "shard_inv s \<Longrightarrow> shard_inv (sh_promote now lim s)"
  unfolding shard_inv_def
  by (auto simp: wf_shard_def scheduled_def sh_promote_def copies_def Let_def fold_zrem_members fold_zrem_ok
      intro: once_antimono)

lemma sh_reclaim_one_lease:
  assumes "CHR ''|'' \<notin> set i"
  shows "sh_reclaim_one now (lease_member i h) s =
     s\<lparr>sh_inflight := zrem (lease_member i h) (sh_inflight s), sh_queue := (sh_queue s)(h := sh_queue s h @ [i]),
       sh_wake := zadd_nx now h (sh_wake s)\<rparr>"
  using assms by (simp add: sh_reclaim_one_def)

lemma reclaim_one_copies:
  assumes "CHR ''|'' \<in> set m" "m \<in> snd ` set (sh_inflight s)" "CHR ''|'' \<notin> set j"
  shows "copies (sh_reclaim_one now m s) j g = copies s j g"
proof -
  obtain i h where m: "CHR ''|'' \<notin> set i" "m = lease_member i h" using assms(1) lease_memberE by blast
  show ?thesis
    using assms(2,3) m(1) unfolding m(2) sh_reclaim_one_lease [OF m(1)] by (auto simp: copies_def)
qed

lemma reclaim_one_inv:
  assumes "shard_inv s" "m \<in> snd ` set (sh_inflight s)"
  shows "shard_inv (sh_reclaim_one now m s)"
proof -
  have bar: "CHR ''|'' \<in> set m" using assms by (auto simp: shard_inv_def wf_shard_def)
  then obtain i h where m: "CHR ''|'' \<notin> set i" "m = lease_member i h" using lease_memberE by blast
  have "once (sh_reclaim_one now m s)"
    using assms(1) reclaim_one_copies [OF bar assms(2)] once_antimono [of s]
    by (simp add: shard_inv_def sh_reclaim_one_lease [OF m(1)] m(2))
  moreover have "wf_shard (sh_reclaim_one now m s)" "scheduled (sh_reclaim_one now m s)"
    using assms(1) m(1) unfolding m(2) sh_reclaim_one_lease [OF m(1)]
    by (auto simp: shard_inv_def wf_shard_def scheduled_def)
  ultimately show ?thesis by (simp add: shard_inv_def)
qed

lemma reclaim_one_inflight:
  "CHR ''|'' \<in> set m \<Longrightarrow> sh_inflight (sh_reclaim_one now m s) = zrem m (sh_inflight s)"
  by (auto simp: sh_reclaim_one_def split: option.splits)

lemma reclaim_fold:
  assumes "shard_inv s" "distinct ms" "set ms \<subseteq> snd ` set (sh_inflight s)"
  shows "shard_inv (fold (sh_reclaim_one now) ms s) \<and>
     (\<forall>j g. CHR ''|'' \<notin> set j \<longrightarrow> copies (fold (sh_reclaim_one now) ms s) j g = copies s j g)"
  using assms
proof (induction ms arbitrary: s)
  case (Cons m ms)
  have m: "m \<in> snd ` set (sh_inflight s)" using Cons.prems by simp
  then have bar: "CHR ''|'' \<in> set m" using Cons.prems(1) unfolding shard_inv_def wf_shard_def by blast
  have "set ms \<subseteq> snd ` set (sh_inflight (sh_reclaim_one now m s))"
    using Cons.prems(2,3) by (auto simp: reclaim_one_inflight [OF bar])
  then show ?case
    using Cons.IH [OF reclaim_one_inv [OF Cons.prems(1) m]] Cons.prems(2) reclaim_one_copies [OF bar m] by simp
qed simp

lemma reclaim_due:
  "shard_inv s \<Longrightarrow> distinct (zrange_by_score 0 now lim (sh_inflight s)) \<and>
     set (zrange_by_score 0 now lim (sh_inflight s)) \<subseteq> snd ` set (sh_inflight s)"
  using zrange_by_score_due zrange_by_score_distinct by (force simp: shard_inv_def wf_shard_def)

lemma reclaim_inv: "shard_inv s \<Longrightarrow> shard_inv (sh_reclaim now lim s)"
  using reclaim_fold reclaim_due by (simp add: sh_reclaim_def)

lemma reclaim_copies: "shard_inv s \<Longrightarrow> CHR ''|'' \<notin> set j \<Longrightarrow> copies (sh_reclaim now lim s) j g = copies s j g"
  using reclaim_fold reclaim_due by (simp add: sh_reclaim_def)

lemma ack_inv: "shard_inv s \<Longrightarrow> shard_inv (sh_ack i h s)" "shard_inv s \<Longrightarrow> shard_inv (sh_ack_first i h s)"
  unfolding shard_inv_def sh_ack_def sh_ack_first_def
  by (auto simp: wf_shard_def scheduled_def copies_def intro: once_antimono)

lemma shard_step_inv: "shard_step s l s' \<Longrightarrow> shard_inv s \<Longrightarrow> shard_inv s'"
proof (induction rule: shard_step.induct)
  case (submit s it seen' now out s')
  then show ?case using submit_inv by blast
next
  case (claim now lease s r s')
  then show ?case using claim_inv by blast
qed (rule advance_inv promote_inv reclaim_inv ack_inv, assumption)+

lemma shard_run_inv: "shard_run s ls s' \<Longrightarrow> shard_inv s \<Longrightarrow> shard_inv s'"
  using shard_run_invariant [of s ls s' shard_inv] shard_step_inv by blast

subsection \<open>No URL is lost\<close>

lemma shard_step_copies:
  assumes "shard_step s l s'" "shard_inv s" "CHR ''|'' \<notin> set i" "copies s i h > 0"
    and "l \<noteq> LAck i h" "l \<noteq> LAckFirst i h"
    and "\<forall>j g. l = LAck j g \<or> l = LAckFirst j g \<longrightarrow> CHR ''|'' \<notin> set j"
  shows "copies s' i h > 0"
  using assms
proof (induction rule: shard_step.induct)
  case (submit s it seen' now out s')
  from submit(3) have "copies s' i h \<ge> copies s i h"
  proof (cases rule: sh_submit_item_cases)
    case 3
    have "copies (sh_bump it (s\<lparr>sh_seen := seen'\<rparr>)) = copies s" by (rule copies_cong) simp_all
    with 3 show ?thesis by (simp add: copies_enqueue)
  qed simp_all
  with submit.prems show ?case by simp
next
  case (claim now lease s r s')
  then show ?case using claim_copies by simp
next
  case (reclaim s now lim)
  then show ?case using reclaim_copies by simp
qed (auto simp: copies_def sh_advance_wake_def sh_promote_def sh_ack_def sh_ack_first_def Let_def split: if_splits)

subsection \<open>The wake gate\<close>

text \<open>A host that is not ready and sleeps until \<open>w\<close>.\<close>

definition gated :: "string \<Rightarrow> int \<Rightarrow> shard \<Rightarrow> bool" where
  "gated h w s \<longleftrightarrow> zset_ok (sh_wake s) \<and> h \<notin> set (sh_ready s) \<and> zscore (sh_wake s) h = Some w"

text \<open>Steps that neither reset the host's wake time nor promote at a time it has reached.\<close>

fun quiet :: "string \<Rightarrow> int \<Rightarrow> label \<Rightarrow> bool" where
  "quiet h w (LAdvance g t) = (g \<noteq> h)"
| "quiet h w (LPromote now lim) = (now < w)"
| "quiet h w l = True"

fun claims_host :: "string \<Rightarrow> label \<Rightarrow> bool" where
  "claims_host h (LClaim now lease (Claimed i g p)) = (g = h)"
| "claims_host h l = False"

lemma gated_nx: "gated h w s \<Longrightarrow> zscore (zadd_nx t g (sh_wake s)) h = Some w"
  by (auto simp: gated_def zadd_nx_def simp del: zscore_None)

lemma gated_reclaim_one: "gated h w s \<Longrightarrow> gated h w (sh_reclaim_one now m s)"
  using gated_nx [of h w s] by (auto simp: sh_reclaim_one_def gated_def split: option.splits)

lemma gated_reclaim: "gated h w s \<Longrightarrow> gated h w (sh_reclaim now lim s)"
proof -
  have "gated h w s \<Longrightarrow> gated h w (fold (sh_reclaim_one now) ms s)" for ms
    by (induction ms arbitrary: s) (simp_all add: gated_reclaim_one)
  then show "gated h w s \<Longrightarrow> gated h w (sh_reclaim now lim s)" by (simp add: sh_reclaim_def)
qed

lemma zscore_fold_zrem: "h \<notin> set hs \<Longrightarrow> zscore (fold zrem hs z) h = zscore z h"
  by (induction hs arbitrary: z) auto

lemma gated_promote:
  assumes "gated h w s" "now < w"
  shows "gated h w (sh_promote now lim s)"
proof -
  have "h \<notin> set (zrange_by_score 0 now lim (sh_wake s))"
  proof
    assume "h \<in> set (zrange_by_score 0 now lim (sh_wake s))"
    then obtain t where "(t, h) \<in> set (sh_wake s)" "t \<le> now" using zrange_by_score_due by blast
    then show False using assms zscore_iff [of "sh_wake s" h t] by (simp add: gated_def)
  qed
  with assms(1) show ?thesis by (simp add: gated_def sh_promote_def Let_def fold_zrem_ok zscore_fold_zrem)
qed

lemma gated_claim:
  assumes "gated h w s" "sh_claim now lease s = (r, s')"
  shows "gated h w s' \<and> (\<forall>i p. r \<noteq> Claimed i h p)"
  using assms(2)
proof (cases rule: sh_claim_cases)
  case none
  then show ?thesis using assms(1) by (auto simp: gated_def split: list.splits)
next
  case (claimed stale g rest i q)
  then show ?thesis using assms(1) by (auto simp: gated_def)
qed

lemma gated_step:
  assumes "shard_step s l s'" "gated h w s" "quiet h w l"
  shows "gated h w s' \<and> \<not> claims_host h l"
  using assms
proof (induction rule: shard_step.induct)
  case (submit s it seen' now out s')
  from submit(3) have "gated h w s'"
    by (cases rule: sh_submit_item_cases)
      (use submit.prems gated_nx [of h w s] in \<open>auto simp: gated_def\<close>)
  then show ?case by simp
next
  case (claim now lease s r s')
  then show ?case using gated_claim [OF claim(2,1)] by (cases r) auto
next
  case (promote s now lim)
  then show ?case using gated_promote by simp
next
  case (reclaim s now lim)
  then show ?case using gated_reclaim by simp
qed (auto simp: gated_def sh_advance_wake_def sh_ack_def sh_ack_first_def)

lemma gated_run:
  "shard_run s ls s' \<Longrightarrow> gated h w s \<Longrightarrow> \<forall>l \<in> set ls. quiet h w l \<Longrightarrow>
   gated h w s' \<and> (\<forall>l \<in> set ls. \<not> claims_host h l)"
proof (induction rule: shard_run.induct)
  case (more s l s' ls s'')
  then show ?case using gated_step [OF more.hyps(1)] by auto
qed simp

lemma advance_gates: "zset_ok (sh_wake s) \<Longrightarrow> gated h t (sh_advance_wake h t s)"
  by (simp add: gated_def sh_advance_wake_def)

subsection \<open>Payloads\<close>

text \<open>Every pending URL has its payload, as long as URLs are acknowledged while leased.\<close>

definition paid :: "shard \<Rightarrow> bool" where
  "paid s \<longleftrightarrow> (\<forall>i h. CHR ''|'' \<notin> set i \<longrightarrow> copies s i h > 0 \<longrightarrow> sh_urls s i \<noteq> None)"

fun timely :: "shard \<Rightarrow> label \<Rightarrow> bool" where
  "timely s (LAck i h) = (CHR ''|'' \<notin> set i \<and> lease_member i h \<in> snd ` set (sh_inflight s))"
| "timely s l = True"

lemma paidD: "paid s \<Longrightarrow> CHR ''|'' \<notin> set i \<Longrightarrow> copies s i h > 0 \<Longrightarrow> sh_urls s i \<noteq> None"
  by (auto simp: paid_def)

lemma paid_antimono:
  assumes "paid s" "\<And>i h. CHR ''|'' \<notin> set i \<Longrightarrow> copies s' i h \<le> copies s i h" "sh_urls s' = sh_urls s"
  shows "paid s'"
  using assms unfolding paid_def by (metis order_less_le_trans)

lemma sh_urls_reclaim [simp]: "sh_urls (sh_reclaim now lim s) = sh_urls s"
proof -
  have "sh_urls (fold (sh_reclaim_one now) ms s) = sh_urls s" for ms
    by (induction ms arbitrary: s) (auto simp: sh_reclaim_one_def split: option.splits)
  then show ?thesis by (simp add: sh_reclaim_def)
qed

lemma ack_copies:
  assumes "shard_inv s" "CHR ''|'' \<notin> set i" "lease_member i h \<in> snd ` set (sh_inflight s)"
  shows "copies (sh_ack i h s) i g = 0"
proof -
  have c: "copies s i h > 0" using assms(3) by (simp add: copies_def)
  have o: "copies s i h \<le> 1" "\<And>g. copies s i g > 0 \<Longrightarrow> g = h"
    using assms(1,2) c unfolding shard_inv_def once_def by blast+
  show ?thesis
  proof (cases "g = h")
    case True
    then show ?thesis using o(1) assms(3) by (simp add: copies_def sh_ack_def)
  next
    case False
    then have "copies s i g = 0" using o(2) [of g] by blast
    moreover have "copies (sh_ack i h s) i g \<le> copies s i g" by (simp add: copies_def sh_ack_def)
    ultimately show ?thesis by simp
  qed
qed

lemma paid_step:
  assumes "shard_step s l s'" "shard_inv s" "paid s" "timely s l"
  shows "paid s'"
  using assms
proof (induction rule: shard_step.induct)
  case (submit s it seen' now out s')
  from submit(3) show ?case
  proof (cases rule: sh_submit_item_cases)
    case 3
    have "copies (sh_bump it (s\<lparr>sh_seen := seen'\<rparr>)) = copies s" by (rule copies_cong) simp_all
    with 3 submit.prems(2) show ?thesis by (auto simp: paid_def copies_enqueue)
  qed (use submit.prems in auto)
next
  case (claim now lease s r s')
  have "sh_urls s' = sh_urls s" using claim(1) by (cases rule: sh_claim_cases) auto
  then show ?case using claim.prems claim_copies [OF claim.prems(1) claim.hyps] paid_antimono [of s s'] by simp
next
  case (reclaim s now lim)
  then show ?case using reclaim_copies [of s] paid_antimono [of s "sh_reclaim now lim s"] by simp
next
  case (ack s i h)
  have "copies (sh_ack i h s) j g \<le> copies s j g" for j g by (auto simp: copies_def sh_ack_def)
  moreover have "copies (sh_ack i h s) i g = 0" for g using ack ack_copies by simp
  ultimately show ?case
    unfolding paid_def using paidD [OF ack.prems(2)]
    by (metis fun_upd_other gr0I le_zero_eq sh_ack_def shard.select_convs(2) shard.surjective shard.update_convs(2) shard.update_convs(7) not_less_zero)
qed (auto simp: paid_def copies_def sh_advance_wake_def sh_promote_def sh_ack_first_def Let_def split: if_splits)

subsection \<open>Quota\<close>

text \<open>The submissions accepted for a host, and runs that submit to a host with one cap.\<close>

fun accepted :: "string \<Rightarrow> label \<Rightarrow> nat" where
  "accepted h (LSubmit it now Queued) = (if si_host it = h then 1 else 0)"
| "accepted h l = 0"

fun capped :: "string \<Rightarrow> int \<Rightarrow> label \<Rightarrow> bool" where
  "capped h c (LSubmit it now out) = (si_host it = h \<longrightarrow> si_cap it = c)"
| "capped h c l = True"

lemma sh_count_reclaim [simp]: "sh_count (sh_reclaim now lim s) = sh_count s"
proof -
  have "sh_count (fold (sh_reclaim_one now) ms s) = sh_count s" for ms
    by (induction ms arbitrary: s) (auto simp: sh_reclaim_one_def split: option.splits)
  then show ?thesis by (simp add: sh_reclaim_def)
qed

lemma count_of_cong: "sh_count s' = sh_count s \<Longrightarrow> count_of s' h = count_of s h"
  by (simp add: count_of_def)

lemma count_step:
  assumes "shard_step s l s'" "capped h c l" "0 \<le> c" "count_of s h \<le> c"
  shows "count_of s' h = count_of s h + int (accepted h l) \<and> count_of s' h \<le> c"
  using assms
proof (induction rule: shard_step.induct)
  case (submit s it seen' now out s')
  from submit(3) show ?case
    by (cases rule: sh_submit_item_cases)
      (use submit.prems in \<open>auto simp: sh_bump_def count_of_def over_quota_def split: if_splits\<close>)
next
  case (claim now lease s r s')
  have "sh_count s' = sh_count s" using claim(1) by (cases rule: sh_claim_cases) auto
  then show ?case using claim.prems by (simp add: count_of_def)
qed (auto simp: count_of_def sh_advance_wake_def sh_promote_def sh_ack_def sh_ack_first_def Let_def)

lemma count_run:
  assumes "shard_run s ls s'" "\<forall>l \<in> set ls. capped h c l" "0 \<le> c" "count_of s h \<le> c"
  shows "count_of s' h = count_of s h + int (sum_list (map (accepted h) ls)) \<and> count_of s' h \<le> c"
  using assms
proof (induction rule: shard_run.induct)
  case (more s l s' ls s'')
  then show ?case using count_step [OF more.hyps(1), of h c] by simp
qed simp

subsection \<open>Progress\<close>

lemma claim_empty_hint:
  assumes "shard_inv s" "sh_claim now lease s = (r, s')"
  shows "r = Empty \<Longrightarrow> sh_queue s h = []"
    and "r = EmptyHint t \<Longrightarrow> sh_queue s h \<noteq> [] \<Longrightarrow> \<exists>t'. zscore (sh_wake s) h = Some t' \<and> t \<le> t'"
proof -
  have wake: "h \<in> snd ` set (sh_wake s)" if "\<forall>h \<in> set (sh_ready s). sh_queue s h = []" "sh_queue s h \<noteq> []"
    using that assms(1) by (auto simp: shard_inv_def scheduled_def)
  show "sh_queue s h = []" if "r = Empty"
    using assms(2) by (cases rule: sh_claim_cases) (use that wake in \<open>auto split: list.splits\<close>)
  show "\<exists>t'. zscore (sh_wake s) h = Some t' \<and> t \<le> t'" if hint: "r = EmptyHint t" and q: "sh_queue s h \<noteq> []"
    using assms(2)
  proof (cases rule: sh_claim_cases)
    case none
    then obtain x zs where z: "sh_wake s = (t, x) # zs"
      using hint by (cases "sh_wake s") (auto split: prod.splits)
    obtain t' where t': "(t', h) \<in> set (sh_wake s)" using wake none(1) q by auto
    have ok: "zset_ok (sh_wake s)" using assms(1) by (simp add: shard_inv_def wf_shard_def)
    then have "zscore (sh_wake s) h = Some t'" using t' zscore_iff by blast
    moreover have "t \<le> t'" using zset_hd_least [OF ok z t'] .
    ultimately show ?thesis by blast
  qed (use that in auto)
qed

lemma promote_then_claim:
  assumes "shard_inv s" "sh_queue s h \<noteq> []" "\<forall>(t, g) \<in> set (sh_wake s). 0 \<le> t \<and> t \<le> now"
    and "lim \<ge> length (sh_wake s)"
  shows "\<exists>i g p. fst (sh_claim now lease (sh_promote now lim s)) = Claimed i g p"
proof -
  let ?s = "sh_promote now lim s"
  have "set (zrange_by_score 0 now lim (sh_wake s)) = snd ` set (sh_wake s)"
    using zrange_by_score_all [OF assms(4), of 0 now] assms(3) by force
  then have "h \<in> set (sh_ready ?s)"
    using assms(1,2) by (auto simp: sh_promote_def Let_def shard_inv_def scheduled_def)
  moreover have "sh_queue ?s h \<noteq> []" using assms(2) by (simp add: sh_promote_def Let_def)
  moreover obtain r s' where rs: "sh_claim now lease ?s = (r, s')" by fastforce
  ultimately show ?thesis
    using rs by (cases rule: sh_claim_cases [OF rs]) auto
qed

subsection \<open>The contract of a sharded frontier\<close>

text \<open>
  What a frontier over many shards promises: a call on one shard takes that shard through steps
  it may perform, and leaves the others alone. Everything the crawler relies on follows for any
  sequence of calls.
\<close>

locale shard_machine =
  fixes view :: "'st \<Rightarrow> u32 \<Rightarrow> shard"
    and eff :: "'call \<Rightarrow> u32 \<Rightarrow> 'st \<Rightarrow> 'st"
    and labels :: "'call \<Rightarrow> label \<Rightarrow> bool"
  assumes eff_runs: "\<exists>ls. shard_run (view st s) ls (view (eff c s st) s) \<and> (\<forall>l \<in> set ls. labels c l)"
    and eff_frame: "t \<noteq> s \<Longrightarrow> view (eff c s st) t = view st t"
begin

lemma exec_invariant:
  assumes "P (view st s)"
    and "\<And>c v l v'. (s, c) \<in> set calls \<Longrightarrow> labels c l \<Longrightarrow> shard_step v l v' \<Longrightarrow> P v \<Longrightarrow> P v'"
  shows "P (view (fold (\<lambda>(s, c). eff c s) calls st) s)"
  using assms
proof (induction calls arbitrary: st)
  case Nil
  then show ?case by simp
next
  case (Cons x calls)
  obtain t c where x: "x = (t, c)" by (cases x)
  have "P (view (eff c t st) s)"
  proof (cases "t = s")
    case True
    obtain ls where run: "shard_run (view st s) ls (view (eff c s st) s)" and "\<forall>l \<in> set ls. labels c l"
      using eff_runs by blast
    from run have "P (view (eff c s st) s)"
    proof (rule shard_run_invariant)
      show "P (view st s)" by (rule Cons.prems(1))
      show "P v'" if "shard_step v l v'" "l \<in> set ls" "P v" for v l v'
        using Cons.prems(2) [of c l v v'] that x True \<open>\<forall>l \<in> set ls. labels c l\<close> by simp
    qed
    then show ?thesis using True by simp
  next
    case False
    then show ?thesis using eff_frame [of s t c st] Cons.prems(1) by simp
  qed
  then show ?case using Cons.IH [of "eff c t st"] Cons.prems(2) x by auto
qed

lemma exec_inv: "shard_inv (view st s) \<Longrightarrow> shard_inv (view (fold (\<lambda>(s, c). eff c s) calls st) s)"
  by (rule exec_invariant [where P = shard_inv]) (use shard_step_inv in blast)+

lemma exec_gated:
  assumes "gated h w (view st s)" "\<And>c l. (s, c) \<in> set calls \<Longrightarrow> labels c l \<Longrightarrow> quiet h w l"
  shows "gated h w (view (fold (\<lambda>(s, c). eff c s) calls st) s)"
  by (rule exec_invariant [where P = "gated h w"]) (use assms gated_step in blast)+

lemma exec_quota:
  assumes "count_of (view st s) h \<le> c" "0 \<le> c" "\<And>call l. (s, call) \<in> set calls \<Longrightarrow> labels call l \<Longrightarrow> capped h c l"
  shows "count_of (view (fold (\<lambda>(s, c). eff c s) calls st) s) h \<le> c"
proof (rule exec_invariant [where P = "\<lambda>v. count_of v h \<le> c"])
  fix call v l v'
  assume "(s, call) \<in> set calls" "labels call l" "shard_step v l v'" "count_of v h \<le> c"
  then show "count_of v' h \<le> c" using count_step assms(2,3) by blast
qed (rule assms(1))

lemma exec_keeps:
  assumes "shard_inv (view st s)" "CHR ''|'' \<notin> set i" "copies (view st s) i h > 0"
    and "\<And>call l. (s, call) \<in> set calls \<Longrightarrow> labels call l \<Longrightarrow> l \<noteq> LAck i h \<and> l \<noteq> LAckFirst i h"
    and "\<And>call l j g. (s, call) \<in> set calls \<Longrightarrow> labels call l \<Longrightarrow> l = LAck j g \<or> l = LAckFirst j g \<Longrightarrow> CHR ''|'' \<notin> set j"
  shows "copies (view (fold (\<lambda>(s, c). eff c s) calls st) s) i h > 0"
proof -
  let ?P = "\<lambda>v. shard_inv v \<and> copies v i h > 0"
  have "?P (view (fold (\<lambda>(s, c). eff c s) calls st) s)"
  proof (rule exec_invariant [where P = ?P])
    fix call v l v'
    assume *: "(s, call) \<in> set calls" "labels call l" "shard_step v l v'" "?P v"
    have "copies v' i h > 0"
      by (rule shard_step_copies [OF *(3)]) (use * assms(2,4,5) in blast)+
    then show "?P v'" using * shard_step_inv by blast
  qed (use assms in blast)
  then show ?thesis by blast
qed

end

end
