(* ===== verification/Frontier_Scripts.thy ===== *)
theory Frontier_Scripts
  imports Frontier_Keys Frontier_Spec
begin

text \<open>
  \<^verbatim>\<open>crawlrs-frontier/src/host_queue.rs\<close>, \<^verbatim>\<open>codec.rs\<close> and the Lua scripts under
  \<^verbatim>\<open>crawlrs-frontier/src/scripts\<close>. A script is a function from the database to its reply and
  the next database: Redis runs it atomically. The wrappers of \<open>HostQueueOps\<close> add the codec,
  the connection and the decoding of replies; a fault argument says whether the connection
  could be had, the command ran, or the reply was lost after it ran. The replies' conversions
  (the \<open>FromRedisValue\<close> implementations of the redis crate) and the postcard codec are
  parameters. The second half proves that every script refines its operation on the abstract
  shard and leaves the other shards alone.
\<close>

subsection \<open>Replies, codec and connection\<close>

datatype redis_value = VNil | VInt int | VBulk string | VArray "redis_value list"

record redis_conv =
  conv_i64 :: "redis_value \<Rightarrow> string + int"
  conv_u64 :: "redis_value \<Rightarrow> string + nat"
  conv_string :: "redis_value \<Rightarrow> string + string"
  conv_bytes :: "redis_value \<Rightarrow> string + string"
  conv_array :: "redis_value \<Rightarrow> string + redis_value list"
  conv_strings :: "redis_value \<Rightarrow> string + string list"

record url_codec =
  to_allocvec :: "url_entry \<Rightarrow> string + string"
  from_bytes :: "string \<Rightarrow> string + url_entry"

definition codec_encode :: "url_codec \<Rightarrow> url_entry \<Rightarrow> crawl_error + string" where
  "codec_encode C e = (case to_allocvec C e of Inl m \<Rightarrow> Inl (EFrontier (''postcard encode: '' @ m)) | Inr b \<Rightarrow> Inr b)"

definition codec_decode :: "url_codec \<Rightarrow> string \<Rightarrow> crawl_error + url_entry" where
  "codec_decode C b = (case from_bytes C b of Inl m \<Rightarrow> Inl (EFrontier (''postcard decode: '' @ m)) | Inr e \<Rightarrow> Inr e)"

datatype hq_error =
  HqRedis | HqParse string | HqPool | BadUrlId string | Codec crawl_error | MissingPayload string | BadTag string

datatype fault = NoFault | PoolFault | ExecFault | ReplyLost

fun invoke :: "fault \<Rightarrow> ('db \<Rightarrow> 'r \<times> 'db) \<Rightarrow> 'db \<Rightarrow> (hq_error + 'r) \<times> 'db" where
  "invoke NoFault f db = (Inr (fst (f db)), snd (f db))"
| "invoke PoolFault f db = (Inl HqPool, db)"
| "invoke ExecFault f db = (Inl HqRedis, db)"
| "invoke ReplyLost f db = (Inl HqRedis, snd (f db))"

record 'db host_queue_ops =
  hq_redis :: "'db redis"
  hq_conv :: redis_conv
  hq_codec :: url_codec
  hq_run :: key_prefix

subsection \<open>The Lua scripts\<close>

definition submit_lua ::
  "'db redis \<Rightarrow> string \<Rightarrow> string \<Rightarrow> string \<Rightarrow> string \<Rightarrow> string \<Rightarrow> string \<Rightarrow> string \<Rightarrow> int \<Rightarrow> 'db \<Rightarrow> redis_value \<times> 'db" where
  "submit_lua R seen urls host_queue wake i host payload now_ms db =
     (let added = bf_add_reply R db seen i; db = r_bf_add R db seen i in
      if \<not> added then (VInt 1, db)
      else
        let db = r_hset R db urls i payload;
            db = r_rpush R db host_queue i;
            db = r_zadd_nx R db wake now_ms host
        in (VInt 0, db))"

text \<open>One URL's share of KEYS and ARGV in a batch.\<close>

record batch_arg =
  ba_queue_key :: string
  ba_count_key :: string
  ba_id :: string
  ba_host :: string
  ba_payload :: string
  ba_cap :: int

definition lua_quota_exceeded :: "'db redis \<Rightarrow> batch_arg \<Rightarrow> 'db \<Rightarrow> bool" where
  "lua_quota_exceeded R a db =
     (ba_cap a \<ge> 0 \<and> (case r_get R db (ba_count_key a) of None \<Rightarrow> 0 | Some n \<Rightarrow> n) \<ge> ba_cap a)"

fun submit_batch_loop ::
  "'db redis \<Rightarrow> string \<Rightarrow> string \<Rightarrow> string \<Rightarrow> int \<Rightarrow> nat \<Rightarrow> string list \<Rightarrow> batch_arg list \<Rightarrow> 'db \<Rightarrow>
   (nat \<times> string list) \<times> 'db" where
  "submit_batch_loop R seen urls wake now_ms queued rejected_ids [] db = ((queued, rejected_ids), db)"
| "submit_batch_loop R seen urls wake now_ms queued rejected_ids (a # as) db =
     (if lua_quota_exceeded R a db then
        submit_batch_loop R seen urls wake now_ms queued (rejected_ids @ [ba_id a]) as db
      else
        let added = bf_add_reply R db seen (ba_id a); db = r_bf_add R db seen (ba_id a) in
        if added then
          let db = (if ba_cap a \<ge> 0 then r_incr R db (ba_count_key a) else db);
              db = r_hset R db urls (ba_id a) (ba_payload a);
              db = r_rpush R db (ba_queue_key a) (ba_id a);
              db = r_zadd_nx R db wake now_ms (ba_host a)
          in submit_batch_loop R seen urls wake now_ms (queued + 1) rejected_ids as db
        else submit_batch_loop R seen urls wake now_ms queued rejected_ids as db)"

definition submit_batch_lua ::
  "'db redis \<Rightarrow> string \<Rightarrow> string \<Rightarrow> string \<Rightarrow> int \<Rightarrow> batch_arg list \<Rightarrow> 'db \<Rightarrow> redis_value \<times> 'db" where
  "submit_batch_lua R seen urls wake now_ms as db =
     (case submit_batch_loop R seen urls wake now_ms 0 [] as db of
        ((queued, rejected_ids), db) \<Rightarrow> (VArray [VInt (int queued), VArray (map VBulk rejected_ids)], db))"

text \<open>A score as Redis prints it; the scores the crawler writes are not negative.\<close>

definition show_score :: "int \<Rightarrow> string" where
  "show_score n = (if n < 0 then ''-'' @ show_nat (nat (- n)) else show_nat (nat n))"

definition bulk_or_nil :: "string option \<Rightarrow> redis_value" where
  "bulk_or_nil v = (case v of None \<Rightarrow> VNil | Some s \<Rightarrow> VBulk s)"

text \<open>The claim loop pops ready hosts until one has a queued URL. Its fuel is one more than the
  number of ready hosts; \<open>None\<close> would be a loop that did not end, which
  \<open>claim_lua_returns\<close> excludes.\<close>

fun claim_loop ::
  "nat \<Rightarrow> 'db redis \<Rightarrow> string \<Rightarrow> string \<Rightarrow> string \<Rightarrow> string \<Rightarrow> string \<Rightarrow> int \<Rightarrow> int \<Rightarrow> 'db \<Rightarrow> (redis_value option \<times> 'db) option" where
  "claim_loop 0 R ready wake inflight urls prefix now_ms lease db = None"
| "claim_loop (Suc fuel) R ready wake inflight urls prefix now_ms lease db =
     (let host = lpop_reply R db ready; db = r_lpop R db ready in
      case host of None \<Rightarrow> Some (None, db)
      | Some host \<Rightarrow>
          (let url_id = lpop_reply R db (prefix @ host); db = r_lpop R db (prefix @ host) in
           case url_id of
             None \<Rightarrow> claim_loop fuel R ready wake inflight urls prefix now_ms lease db
           | Some i \<Rightarrow>
               (let expiry_ms = now_ms + lease;
                    db = r_zadd R db wake expiry_ms host;
                    db = r_zadd R db inflight expiry_ms (i @ ''|'' @ host);
                    payload = r_hget R db urls i
                in Some (Some (VArray [VBulk ''claimed'', VBulk i, VBulk host, bulk_or_nil payload]), db))))"

definition claim_lua ::
  "'db redis \<Rightarrow> string \<Rightarrow> string \<Rightarrow> string \<Rightarrow> string \<Rightarrow> string \<Rightarrow> int \<Rightarrow> int \<Rightarrow> 'db \<Rightarrow> (redis_value \<times> 'db) option" where
  "claim_lua R ready wake inflight urls prefix now_ms lease db =
     (case claim_loop (Suc (length (r_lrange R db ready))) R ready wake inflight urls prefix now_ms lease db of
        None \<Rightarrow> None
      | Some (Some v, db) \<Rightarrow> Some (v, db)
      | Some (None, db) \<Rightarrow>
          (case r_zrange R db wake of
             (t, _) # _ \<Rightarrow> Some (VArray [VBulk ''empty_hint'', VBulk (show_score t)], db)
           | [] \<Rightarrow> Some (VArray [VBulk ''empty''], db)))"

definition advance_wake_lua :: "'db redis \<Rightarrow> string \<Rightarrow> string \<Rightarrow> string \<Rightarrow> int \<Rightarrow> 'db \<Rightarrow> redis_value \<times> 'db" where
  "advance_wake_lua R wake ready host until_ms db =
     (let db = r_zadd R db wake until_ms host; db = r_lrem R db ready host in (VInt 1, db))"

fun promote_loop :: "'db redis \<Rightarrow> string \<Rightarrow> string \<Rightarrow> string list \<Rightarrow> nat \<Rightarrow> 'db \<Rightarrow> nat \<times> 'db" where
  "promote_loop R wake ready [] promoted db = (promoted, db)"
| "promote_loop R wake ready (host # hosts) promoted db =
     (let db = r_zrem R db wake host; db = r_rpush R db ready host
      in promote_loop R wake ready hosts (promoted + 1) db)"

definition promote_lua :: "'db redis \<Rightarrow> string \<Rightarrow> string \<Rightarrow> int \<Rightarrow> nat \<Rightarrow> 'db \<Rightarrow> redis_value \<times> 'db" where
  "promote_lua R wake ready now_ms limit db =
     (let hosts = zrange_by_score 0 now_ms limit (r_zrange R db wake);
          (n, db) = promote_loop R wake ready hosts 0 db
      in (VInt (int n), db))"

fun reclaim_loop ::
  "'db redis \<Rightarrow> string \<Rightarrow> string \<Rightarrow> string \<Rightarrow> int \<Rightarrow> string list \<Rightarrow> nat \<Rightarrow> 'db \<Rightarrow> nat \<times> 'db" where
  "reclaim_loop R inflight wake prefix now_ms [] reclaimed db = (reclaimed, db)"
| "reclaim_loop R inflight wake prefix now_ms (m # ms) reclaimed db =
     (case split_once CHR ''|'' m of
        None \<Rightarrow> reclaim_loop R inflight wake prefix now_ms ms reclaimed db
      | Some (i, host) \<Rightarrow>
          (let db = r_zrem R db inflight m;
               db = r_rpush R db (prefix @ host) i;
               db = r_zadd_nx R db wake now_ms host
           in reclaim_loop R inflight wake prefix now_ms ms (reclaimed + 1) db))"

definition reclaim_lua ::
  "'db redis \<Rightarrow> string \<Rightarrow> string \<Rightarrow> int \<Rightarrow> nat \<Rightarrow> string \<Rightarrow> 'db \<Rightarrow> redis_value \<times> 'db" where
  "reclaim_lua R inflight wake now_ms limit prefix db =
     (let expired = zrange_by_score 0 now_ms limit (r_zrange R db inflight);
          (n, db) = reclaim_loop R inflight wake prefix now_ms expired 0 db
      in (VInt (int n), db))"

subsection \<open>The wrappers\<close>

datatype submit_outcome = SubmitQueued | SubmitDuplicate

definition hq_submit ::
  "'db host_queue_ops \<Rightarrow> u32 \<Rightarrow> url_id \<Rightarrow> url_entry \<Rightarrow> string \<Rightarrow> int \<Rightarrow> fault \<Rightarrow> 'db \<Rightarrow> (hq_error + submit_outcome) \<times> 'db" where
  "hq_submit Q shard i entry host now_ms flt db =
     (case codec_encode (hq_codec Q) entry of Inl e \<Rightarrow> (Inl (Codec e), db)
      | Inr payload \<Rightarrow>
          (case invoke flt (submit_lua (hq_redis Q) (seen_key (hq_run Q) shard) (urls_key (hq_run Q) shard)
                   (host_queue_key (hq_run Q) shard host) (wake_key (hq_run Q) shard)
                   (to_hex i) host payload now_ms) db of
             (Inl e, db) \<Rightarrow> (Inl e, db)
           | (Inr v, db) \<Rightarrow>
               (case conv_i64 (hq_conv Q) v of Inl e \<Rightarrow> (Inl HqRedis, db)
                | Inr code \<Rightarrow>
                    (if code = 0 then Inr SubmitQueued
                     else if code = 1 then Inr SubmitDuplicate
                     else Inl (BadTag (''submit returned unexpected code '' @ show_score code)), db))))"

record hq_item =
  hi_url_id :: url_id
  hi_entry :: url_entry
  hi_host :: string
  hi_max_urls :: int

text \<open>The first failing payload aborts before Redis is touched.\<close>

definition hq_payloads :: "'db host_queue_ops \<Rightarrow> hq_item list \<Rightarrow> crawl_error + string list" where
  "hq_payloads Q items = mapM_result (\<lambda>it. codec_encode (hq_codec Q) (hi_entry it)) items"

definition hq_batch_arg :: "key_prefix \<Rightarrow> u32 \<Rightarrow> hq_item \<Rightarrow> string \<Rightarrow> batch_arg" where
  "hq_batch_arg run shard it payload =
     \<lparr>ba_queue_key = host_queue_key run shard (hi_host it), ba_count_key = host_count_key run shard (hi_host it),
      ba_id = to_hex (hi_url_id it), ba_host = hi_host it, ba_payload = payload, ba_cap = hi_max_urls it\<rparr>"

definition parse_rejected :: "string \<Rightarrow> hq_error + url_id" where
  "parse_rejected hex =
     (case from_hex hex of None \<Rightarrow> Inl (BadTag (''rejected_id parse: not 32 hex chars: '' @ hex)) | Some i \<Rightarrow> Inr i)"

definition parse_submit_batch_value :: "redis_conv \<Rightarrow> redis_value \<Rightarrow> hq_error + (int \<times> url_id list)" where
  "parse_submit_batch_value V v =
     (case conv_array V v of Inl e \<Rightarrow> Inl (HqParse e)
      | Inr [] \<Rightarrow> Inl (BadTag ''submit_batch.lua returned empty array'')
      | Inr [queued_v] \<Rightarrow> Inl (BadTag ''submit_batch.lua missing rejected_ids'')
      | Inr (queued_v # rejected_v # _) \<Rightarrow>
          (case conv_i64 V queued_v of Inl e \<Rightarrow> Inl (HqParse e)
           | Inr queued \<Rightarrow>
               (case conv_strings V rejected_v of Inl e \<Rightarrow> Inl (HqParse e)
                | Inr rejected_hex \<Rightarrow>
                    (case mapM_result parse_rejected rejected_hex of Inl e \<Rightarrow> Inl e
                     | Inr ids \<Rightarrow> Inr (queued, ids)))))"

definition hq_submit_batch ::
  "'db host_queue_ops \<Rightarrow> u32 \<Rightarrow> hq_item list \<Rightarrow> int \<Rightarrow> fault \<Rightarrow> 'db \<Rightarrow> (hq_error + (int \<times> url_id list)) \<times> 'db" where
  "hq_submit_batch Q shard items now_ms flt db =
     (if items = [] then (Inr (0, []), db)
      else case hq_payloads Q items of Inl e \<Rightarrow> (Inl (Codec e), db)
      | Inr payloads \<Rightarrow>
          (case invoke flt (submit_batch_lua (hq_redis Q) (seen_key (hq_run Q) shard) (urls_key (hq_run Q) shard)
                   (wake_key (hq_run Q) shard) now_ms (map2 (hq_batch_arg (hq_run Q) shard) items payloads)) db of
             (Inl e, db) \<Rightarrow> (Inl e, db)
           | (Inr v, db) \<Rightarrow> (parse_submit_batch_value (hq_conv Q) v, db)))"

datatype claim_raw = RawClaimed url_id url_entry string | RawEmptyHint u64 | RawEmpty

definition parse_claimed :: "redis_conv \<Rightarrow> url_codec \<Rightarrow> redis_value list \<Rightarrow> hq_error + claim_raw" where
  "parse_claimed V C vs =
     (case vs of [] \<Rightarrow> Inl (BadTag ''claimed missing url_id'')
      | url_id_v # vs \<Rightarrow>
        (case conv_string V url_id_v of Inl e \<Rightarrow> Inl (HqParse e) | Inr url_id_hex \<Rightarrow>
        (case vs of [] \<Rightarrow> Inl (BadTag ''claimed missing host'')
         | host_v # vs \<Rightarrow>
           (case conv_string V host_v of Inl e \<Rightarrow> Inl (HqParse e) | Inr host \<Rightarrow>
           (case vs of [] \<Rightarrow> Inl (MissingPayload url_id_hex)
            | payload_v # _ \<Rightarrow>
              (case conv_bytes V payload_v of Inl e \<Rightarrow> Inl (HqParse e) | Inr payload \<Rightarrow>
              (case from_hex url_id_hex of None \<Rightarrow> Inl (BadUrlId url_id_hex) | Some i \<Rightarrow>
              (case codec_decode C payload of Inl e \<Rightarrow> Inl (Codec e)
               | Inr entry \<Rightarrow> Inr (RawClaimed i entry host)))))))))"

definition parse_claim_value :: "redis_conv \<Rightarrow> url_codec \<Rightarrow> redis_value \<Rightarrow> hq_error + claim_raw" where
  "parse_claim_value V C v =
     (case conv_array V v of Inl e \<Rightarrow> Inl (HqParse e)
      | Inr [] \<Rightarrow> Inl (BadTag ''claim.lua returned empty array'')
      | Inr (tag_v # vs) \<Rightarrow>
          (case conv_string V tag_v of Inl e \<Rightarrow> Inl (HqParse e)
           | Inr tag \<Rightarrow>
               if tag = ''empty'' then Inr RawEmpty
               else if tag = ''empty_hint'' then
                 (case vs of [] \<Rightarrow> Inl (BadTag ''empty_hint missing score'')
                  | score_v # _ \<Rightarrow>
                      (case conv_u64 V score_v of Inl e \<Rightarrow> Inl (HqParse e) | Inr t \<Rightarrow> Inr (RawEmptyHint t)))
               else if tag = ''claimed'' then parse_claimed V C vs
               else Inl (BadTag tag)))"

text \<open>The script's reply and database; the model's \<open>None\<close> (a claim loop that does not end) would
  be a call that never returns, shown as a lost call that left the database alone.\<close>

definition claim_call :: "'db host_queue_ops \<Rightarrow> u32 \<Rightarrow> int \<Rightarrow> int \<Rightarrow> 'db \<Rightarrow> redis_value \<times> 'db" where
  "claim_call Q shard now_ms lease db =
     (case claim_lua (hq_redis Q) (ready_key (hq_run Q) shard) (wake_key (hq_run Q) shard)
             (inflight_key (hq_run Q) shard) (urls_key (hq_run Q) shard) (host_queue_prefix (hq_run Q) shard)
             now_ms lease db of
        Some r \<Rightarrow> r | None \<Rightarrow> (VNil, db))"

definition hq_claim ::
  "'db host_queue_ops \<Rightarrow> u32 \<Rightarrow> int \<Rightarrow> int \<Rightarrow> fault \<Rightarrow> 'db \<Rightarrow> (hq_error + claim_raw) \<times> 'db" where
  "hq_claim Q shard now_ms lease flt db =
     (case invoke flt (claim_call Q shard now_ms lease) db of
        (Inl e, db) \<Rightarrow> (Inl e, db)
      | (Inr v, db) \<Rightarrow> (parse_claim_value (hq_conv Q) (hq_codec Q) v, db))"

definition reply_i64 :: "'db host_queue_ops \<Rightarrow> (hq_error + redis_value) \<times> 'db \<Rightarrow> (hq_error + int) \<times> 'db" where
  "reply_i64 Q r =
     (case r of (Inl e, db) \<Rightarrow> (Inl e, db)
      | (Inr v, db) \<Rightarrow> ((case conv_i64 (hq_conv Q) v of Inl e \<Rightarrow> Inl HqRedis | Inr n \<Rightarrow> Inr n), db))"

definition hq_advance_wake ::
  "'db host_queue_ops \<Rightarrow> u32 \<Rightarrow> string \<Rightarrow> int \<Rightarrow> fault \<Rightarrow> 'db \<Rightarrow> (hq_error + unit) \<times> 'db" where
  "hq_advance_wake Q shard host until flt db =
     (case reply_i64 Q (invoke flt (advance_wake_lua (hq_redis Q) (wake_key (hq_run Q) shard)
              (ready_key (hq_run Q) shard) host until) db) of
        (Inl e, db) \<Rightarrow> (Inl e, db) | (Inr _, db) \<Rightarrow> (Inr (), db))"

definition hq_promote ::
  "'db host_queue_ops \<Rightarrow> u32 \<Rightarrow> int \<Rightarrow> u64 \<Rightarrow> fault \<Rightarrow> 'db \<Rightarrow> (hq_error + int) \<times> 'db" where
  "hq_promote Q shard now_ms batch_limit flt db =
     reply_i64 Q (invoke flt (promote_lua (hq_redis Q) (wake_key (hq_run Q) shard) (ready_key (hq_run Q) shard)
       now_ms batch_limit) db)"

definition hq_reclaim ::
  "'db host_queue_ops \<Rightarrow> u32 \<Rightarrow> int \<Rightarrow> u64 \<Rightarrow> fault \<Rightarrow> 'db \<Rightarrow> (hq_error + int) \<times> 'db" where
  "hq_reclaim Q shard now_ms batch_limit flt db =
     reply_i64 Q (invoke flt (reclaim_lua (hq_redis Q) (inflight_key (hq_run Q) shard) (wake_key (hq_run Q) shard)
       now_ms batch_limit (host_queue_prefix (hq_run Q) shard)) db)"

text \<open>\<open>ack\<close> issues two commands on one connection: the second one only if the first succeeded.\<close>

definition hq_ack ::
  "'db host_queue_ops \<Rightarrow> u32 \<Rightarrow> url_id \<Rightarrow> string \<Rightarrow> fault \<Rightarrow> fault \<Rightarrow> 'db \<Rightarrow> (hq_error + unit) \<times> 'db" where
  "hq_ack Q shard i host flt1 flt2 db =
     (let member = to_hex i @ ''|'' @ host in
      case invoke flt1 (\<lambda>db. ((), r_zrem (hq_redis Q) db (inflight_key (hq_run Q) shard) member)) db of
        (Inl e, db) \<Rightarrow> (Inl e, db)
      | (Inr _, db) \<Rightarrow> invoke flt2 (\<lambda>db. ((), r_hdel (hq_redis Q) db (urls_key (hq_run Q) shard) (to_hex i))) db)"

subsection \<open>Refinement\<close>

text \<open>The abstract shard that a database shows under a run's keys.\<close>

definition shard_view :: "'db redis \<Rightarrow> key_prefix \<Rightarrow> u32 \<Rightarrow> 'db \<Rightarrow> shard" where
  "shard_view R run shard db =
     \<lparr>sh_queue = (\<lambda>h. r_lrange R db (host_queue_key run shard h)),
      sh_urls = r_hget R db (urls_key run shard),
      sh_seen = r_bf_exists R db (seen_key run shard),
      sh_count = (\<lambda>h. r_get R db (host_count_key run shard h)),
      sh_wake = r_zrange R db (wake_key run shard),
      sh_ready = r_lrange R db (ready_key run shard),
      sh_inflight = r_zrange R db (inflight_key run shard)\<rparr>"

definition item_of_arg :: "batch_arg \<Rightarrow> submit_item" where
  "item_of_arg a = \<lparr>si_id = ba_id a, si_host = ba_host a, si_payload = ba_payload a, si_cap = ba_cap a\<rparr>"

definition uncapped :: "string \<Rightarrow> string \<Rightarrow> string \<Rightarrow> submit_item" where
  "uncapped i host payload = \<lparr>si_id = i, si_host = host, si_payload = payload, si_cap = -1\<rparr>"

definition arg_ok :: "key_prefix \<Rightarrow> u32 \<Rightarrow> batch_arg \<Rightarrow> bool" where
  "arg_ok run shard a \<longleftrightarrow> ba_queue_key a = host_queue_key run shard (ba_host a) \<and>
     ba_count_key a = host_count_key run shard (ba_host a) \<and> CHR ''|'' \<notin> set (ba_id a)"

definition claim_value :: "claim_reply \<Rightarrow> redis_value" where
  "claim_value r =
     (case r of Claimed i h p \<Rightarrow> VArray [VBulk ''claimed'', VBulk i, VBulk h, bulk_or_nil p]
      | EmptyHint t \<Rightarrow> VArray [VBulk ''empty_hint'', VBulk (show_score t)]
      | Empty \<Rightarrow> VArray [VBulk ''empty''])"

lemma shard_eqI:
  assumes "sh_queue s = sh_queue t" "sh_urls s = sh_urls t" "sh_seen s = sh_seen t" "sh_count s = sh_count t"
    "sh_wake s = sh_wake t" "sh_ready s = sh_ready t" "sh_inflight s = sh_inflight t"
  shows "s = (t :: shard)"
  using assms by simp

lemma shard_view_sel [simp]:
  "sh_queue (shard_view R run s db) h = r_lrange R db (host_queue_key run s h)"
  "sh_urls (shard_view R run s db) = r_hget R db (urls_key run s)"
  "sh_seen (shard_view R run s db) = r_bf_exists R db (seen_key run s)"
  "sh_count (shard_view R run s db) h = r_get R db (host_count_key run s h)"
  "sh_wake (shard_view R run s db) = r_zrange R db (wake_key run s)"
  "sh_ready (shard_view R run s db) = r_lrange R db (ready_key run s)"
  "sh_inflight (shard_view R run s db) = r_zrange R db (inflight_key run s)"
  by (simp_all add: shard_view_def)

context redis_server
begin

lemmas view_simps = reads key_simps fun_eq_iff

text \<open>One accepted URL.\<close>

definition enqueue_cmds :: "string \<Rightarrow> string \<Rightarrow> string \<Rightarrow> string \<Rightarrow> int \<Rightarrow> string \<Rightarrow> string \<Rightarrow> 'db \<Rightarrow> 'db" where
  "enqueue_cmds urls host_queue wake i now_ms host payload db =
     r_zadd_nx R (r_rpush R (r_hset R db urls i payload) host_queue i) wake now_ms host"

lemma enqueue_view:
  "shard_view R run s (enqueue_cmds (urls_key run s) (host_queue_key run s host) (wake_key run s) i now_ms host payload db) =
   sh_enqueue i host payload now_ms (shard_view R run s db)"
  by (rule shard_eqI) (auto simp: enqueue_cmds_def view_simps)

lemma enqueue_view_other:
  "t \<noteq> s \<Longrightarrow>
   shard_view R run t (enqueue_cmds (urls_key run s) (host_queue_key run s host) (wake_key run s) i now_ms host payload db) =
   shard_view R run t db"
  by (rule shard_eqI) (auto simp: enqueue_cmds_def view_simps)

lemma bloom_view:
  "shard_view R run s (r_bf_add R db (seen_key run s) i) =
   (shard_view R run s db)\<lparr>sh_seen := r_bf_exists R (r_bf_add R db (seen_key run s) i) (seen_key run s)\<rparr>"
  by (rule shard_eqI) (auto simp: view_simps)

lemma bloom_view_other:
  "t \<noteq> s \<Longrightarrow> shard_view R run t (r_bf_add R db (seen_key run s) i) = shard_view R run t db"
  by (rule shard_eqI) (auto simp: reads key_simps bloom_other)

lemma bloom_view_present:
  "r_bf_exists R db (seen_key run s) i \<Longrightarrow>
   shard_view R run t (r_bf_add R db (seen_key run s) i) = shard_view R run t db"
  by (rule shard_eqI) (auto simp: reads key_simps bloom_present)

lemma incr_view:
  "shard_view R run s (r_incr R db (host_count_key run s h)) =
   (shard_view R run s db)\<lparr>sh_count := (sh_count (shard_view R run s db))
      (h := Some (1 + count_of (shard_view R run s db) h))\<rparr>"
  by (rule shard_eqI) (auto simp: view_simps count_of_def)

lemma incr_view_other:
  "t \<noteq> s \<Longrightarrow> shard_view R run t (r_incr R db (host_count_key run s h)) = shard_view R run t db"
  by (rule shard_eqI) (auto simp: view_simps)

lemma seen_extends_bloom:
  "seen_extends (r_bf_exists R db k) i (r_bf_exists R (r_bf_add R db k i) k)"
  by (simp add: seen_extends_def bloom_add bloom_mono)

lemma submit_lua_refines:
  assumes "submit_lua R (seen_key run s) (urls_key run s) (host_queue_key run s host) (wake_key run s)
      i host payload now db = (v, db')" and "CHR ''|'' \<notin> set i"
  shows "\<exists>out. shard_step (shard_view R run s db) (LSubmit (uncapped i host payload) now out) (shard_view R run s db') \<and>
      v = VInt (if out = Queued then 0 else 1) \<and> out \<noteq> Rejected"
proof (cases "r_bf_exists R db (seen_key run s) i")
  case True
  then have v: "v = VInt 1" and eq: "shard_view R run s db' = shard_view R run s db"
    using assms(1) bloom_view_present by (auto simp: submit_lua_def bf_add_reply_def)
  have "shard_step (shard_view R run s db) (LSubmit (uncapped i host payload) now Duplicate) (shard_view R run s db)"
    using True assms(2)
    by (intro shard_step.submit [where seen' = "r_bf_exists R db (seen_key run s)"])
      (auto simp: sh_submit_item_def uncapped_def over_quota_def seen_extends_def)
  then show ?thesis using v eq by (intro exI [of _ Duplicate]) simp
next
  case False
  let ?db1 = "r_bf_add R db (seen_key run s) i"
  let ?seen' = "r_bf_exists R ?db1 (seen_key run s)"
  have db': "db' = enqueue_cmds (urls_key run s) (host_queue_key run s host) (wake_key run s) i now host payload ?db1"
    and v: "v = VInt 0"
    using assms(1) False by (auto simp: submit_lua_def bf_add_reply_def enqueue_cmds_def Let_def)
  have "sh_submit_item ?seen' (uncapped i host payload) now (shard_view R run s db) = (Queued, shard_view R run s db')"
    using False by (simp add: sh_submit_item_def uncapped_def over_quota_def db' enqueue_view bloom_view sh_bump_def)
  then have "shard_step (shard_view R run s db) (LSubmit (uncapped i host payload) now Queued) (shard_view R run s db')"
    using assms(2) seen_extends_bloom by (intro shard_step.submit) (auto simp: uncapped_def)
  then show ?thesis using v by auto
qed

lemma submit_lua_other:
  assumes "submit_lua R (seen_key run s) (urls_key run s) (host_queue_key run s host) (wake_key run s)
      i host payload now db = (v, db')" and "t \<noteq> s"
  shows "shard_view R run t db' = shard_view R run t db"
proof -
  let ?db1 = "r_bf_add R db (seen_key run s) i"
  have "db' = ?db1 \<or>
     db' = enqueue_cmds (urls_key run s) (host_queue_key run s host) (wake_key run s) i now host payload ?db1"
    using assms(1) by (auto simp: submit_lua_def enqueue_cmds_def Let_def split: if_splits)
  then show ?thesis using assms(2) by (auto simp: enqueue_view_other bloom_view_other)
qed

end

text \<open>A batch, URL by URL.\<close>

context redis_server
begin

definition batch_item :: "key_prefix \<Rightarrow> u32 \<Rightarrow> int \<Rightarrow> batch_arg \<Rightarrow> 'db \<Rightarrow> item_outcome \<times> 'db" where
  "batch_item run s now a db =
     (if lua_quota_exceeded R a db then (Rejected, db)
      else
        let db1 = r_bf_add R db (seen_key run s) (ba_id a) in
        if r_bf_exists R db (seen_key run s) (ba_id a) then (Duplicate, db1)
        else (Queued, enqueue_cmds (urls_key run s) (ba_queue_key a) (wake_key run s) (ba_id a) now (ba_host a)
                (ba_payload a) (if ba_cap a \<ge> 0 then r_incr R db1 (ba_count_key a) else db1)))"

lemma submit_batch_loop_item:
  "submit_batch_loop R (seen_key run s) (urls_key run s) (wake_key run s) now q rej (a # as) db =
     (case batch_item run s now a db of
        (Rejected, db) \<Rightarrow> submit_batch_loop R (seen_key run s) (urls_key run s) (wake_key run s) now q (rej @ [ba_id a]) as db
      | (Duplicate, db) \<Rightarrow> submit_batch_loop R (seen_key run s) (urls_key run s) (wake_key run s) now q rej as db
      | (Queued, db) \<Rightarrow> submit_batch_loop R (seen_key run s) (urls_key run s) (wake_key run s) now (q + 1) rej as db)"
  by (simp add: batch_item_def bf_add_reply_def enqueue_cmds_def Let_def)

lemma quota_view:
  "arg_ok run s a \<Longrightarrow> over_quota (item_of_arg a) (shard_view R run s db) = lua_quota_exceeded R a db"
  by (simp add: over_quota_def item_of_arg_def lua_quota_exceeded_def count_of_def arg_ok_def)

lemma batch_item_refines:
  assumes "arg_ok run s a" "batch_item run s now a db = (out, db')"
  shows "shard_step (shard_view R run s db) (LSubmit (item_of_arg a) now out) (shard_view R run s db')"
proof (cases "lua_quota_exceeded R a db \<or> r_bf_exists R db (seen_key run s) (ba_id a)")
  case True
  let ?seen' = "r_bf_exists R (r_bf_add R db (seen_key run s) (ba_id a)) (seen_key run s)"
  have eq: "shard_view R run s db' = shard_view R run s db"
    using True assms(2) bloom_view_present by (auto simp: batch_item_def Let_def split: if_splits)
  have "sh_submit_item ?seen' (item_of_arg a) now (shard_view R run s db) = (out, shard_view R run s db)"
    using True assms(2) quota_view [OF assms(1), of db]
    by (auto simp: sh_submit_item_def batch_item_def item_of_arg_def Let_def split: if_splits)
  then show ?thesis
    unfolding eq using assms(1) seen_extends_bloom
    by (intro shard_step.submit [where seen' = ?seen']) (auto simp: item_of_arg_def arg_ok_def)
next
  case False
  let ?db1 = "r_bf_add R db (seen_key run s) (ba_id a)"
  have out: "out = Queued" and db': "db' = enqueue_cmds (urls_key run s) (host_queue_key run s (ba_host a)) (wake_key run s)
      (ba_id a) now (ba_host a) (ba_payload a) (if ba_cap a \<ge> 0 then r_incr R ?db1 (host_count_key run s (ba_host a)) else ?db1)"
    using False assms by (auto simp: batch_item_def arg_ok_def Let_def)
  have "sh_submit_item (r_bf_exists R ?db1 (seen_key run s)) (item_of_arg a) now (shard_view R run s db) =
      (Queued, shard_view R run s db')"
    using False quota_view [OF assms(1), of db]
    by (simp add: sh_submit_item_def db' enqueue_view incr_view bloom_view sh_bump_def item_of_arg_def count_of_def)
  then show ?thesis
    using assms(1) seen_extends_bloom out
    by (intro shard_step.submit) (auto simp: item_of_arg_def arg_ok_def)
qed

lemma batch_item_other:
  assumes "arg_ok run s a" "batch_item run s now a db = (out, db')" "t \<noteq> s"
  shows "shard_view R run t db' = shard_view R run t db"
  using assms
  by (auto simp: batch_item_def arg_ok_def enqueue_view_other incr_view_other bloom_view_other Let_def split: if_splits)

text \<open>The labels of a batch, and what its reply reports of them.\<close>

lemma submit_batch_loop_refines:
  assumes "submit_batch_loop R (seen_key run s) (urls_key run s) (wake_key run s) now q rej as db = ((q', rej'), db')"
    and "\<forall>a \<in> set as. arg_ok run s a"
  shows "\<exists>outs. length outs = length as \<and>
     shard_run (shard_view R run s db) (map2 (\<lambda>a. LSubmit (item_of_arg a) now) as outs) (shard_view R run s db') \<and>
     q' = q + count_list outs Queued \<and>
     rej' = rej @ map (ba_id \<circ> fst) (filter (\<lambda>(a, out). out = Rejected) (zip as outs)) \<and>
     (\<forall>t. t \<noteq> s \<longrightarrow> shard_view R run t db' = shard_view R run t db)"
  using assms
proof (induction as arbitrary: q rej db)
  case Nil
  then show ?case by simp
next
  case (Cons a as)
  obtain out db1 where item: "batch_item run s now a db = (out, db1)" by fastforce
  have ok: "arg_ok run s a" using Cons.prems(2) by simp
  let ?q = "if out = Queued then q + 1 else q" and ?rej = "if out = Rejected then rej @ [ba_id a] else rej"
  have "submit_batch_loop R (seen_key run s) (urls_key run s) (wake_key run s) now ?q ?rej as db1 = ((q', rej'), db')"
    using Cons.prems(1) item by (cases out) (simp_all add: submit_batch_loop_item del: submit_batch_loop.simps)
  then obtain outs where o: "length outs = length as"
     "shard_run (shard_view R run s db1) (map2 (\<lambda>a. LSubmit (item_of_arg a) now) as outs) (shard_view R run s db')"
     "q' = ?q + count_list outs Queued"
     "rej' = ?rej @ map (ba_id \<circ> fst) (filter (\<lambda>(a, out). out = Rejected) (zip as outs))"
     "\<forall>t. t \<noteq> s \<longrightarrow> shard_view R run t db' = shard_view R run t db1"
    using Cons.IH [of ?q ?rej db1] Cons.prems(2) by auto
  have "shard_run (shard_view R run s db) (map2 (\<lambda>a. LSubmit (item_of_arg a) now) (a # as) (out # outs)) (shard_view R run s db')"
    using shard_run.more [OF batch_item_refines [OF ok item] o(2)] by simp
  then show ?case
    using o batch_item_other [OF ok item] by (intro exI [of _ "out # outs"]) auto
qed

end

text \<open>Claiming: the loop ends and finds what the abstract claim finds.\<close>

lemma sh_claim_stale:
  "sh_ready s = h # rest \<Longrightarrow> sh_queue s h = [] \<Longrightarrow> sh_claim now lease s = sh_claim now lease (s\<lparr>sh_ready := rest\<rparr>)"
  by (cases "dropWhile (\<lambda>h. sh_queue s h = []) rest")
    (simp_all add: sh_claim_def Let_def del: dropWhile_eq_Nil_conv)

lemma sh_claim_Nil:
  "sh_ready s = [] \<Longrightarrow>
   sh_claim now lease s = ((case sh_wake s of [] \<Rightarrow> Empty | (t, _) # _ \<Rightarrow> EmptyHint t), s)"
  by (simp add: sh_claim_def)

definition loop_value :: "claim_reply \<Rightarrow> redis_value option" where
  "loop_value r = (case r of Claimed i h p \<Rightarrow> Some (claim_value r) | _ \<Rightarrow> None)"

context redis_server
begin

lemma pop_ready_view:
  "shard_view R run s (r_lpop R db (ready_key run s)) = (shard_view R run s db)\<lparr>sh_ready := tl (r_lrange R db (ready_key run s))\<rparr>"
  by (rule shard_eqI) (auto simp: view_simps)

lemma pop_empty_queue_view:
  "r_lrange R db (host_queue_key run s h) = [] \<Longrightarrow>
   shard_view R run t (r_lpop R db (host_queue_key run s h)) = shard_view R run t db"
  by (rule shard_eqI) (auto simp: view_simps)

lemma pop_view_other:
  "t \<noteq> s \<Longrightarrow> shard_view R run t (r_lpop R db (ready_key run s)) = shard_view R run t db"
  "t \<noteq> s \<Longrightarrow> shard_view R run t (r_lpop R db (host_queue_key run s h)) = shard_view R run t db"
  "t \<noteq> s \<Longrightarrow> shard_view R run t (r_zadd R db (wake_key run s) e h) = shard_view R run t db"
  "t \<noteq> s \<Longrightarrow> shard_view R run t (r_zadd R db (inflight_key run s) e m) = shard_view R run t db"
  by (rule shard_eqI; auto simp: view_simps)+

lemma claim_hit_view:
  assumes "r_lrange R db (ready_key run s) = h # rest" "r_lrange R db (host_queue_key run s h) = i # q"
  shows "shard_view R run s (r_zadd R (r_zadd R (r_lpop R (r_lpop R db (ready_key run s)) (host_queue_key run s h))
      (wake_key run s) e h) (inflight_key run s) e (lease_member i h)) =
    (shard_view R run s db)\<lparr>sh_ready := rest, sh_queue := (sh_queue (shard_view R run s db))(h := q),
       sh_wake := zadd e h (r_zrange R db (wake_key run s)),
       sh_inflight := zadd e (lease_member i h) (r_zrange R db (inflight_key run s))\<rparr>"
  by (rule shard_eqI) (use assms in \<open>auto simp: view_simps\<close>)

lemma claim_loop_refines:
  assumes "length (r_lrange R db (ready_key run s)) < fuel"
  shows "\<exists>db'. claim_loop fuel R (ready_key run s) (wake_key run s) (inflight_key run s) (urls_key run s)
       (host_queue_prefix run s) now lease db = Some (loop_value (fst (sh_claim now lease (shard_view R run s db))), db') \<and>
     snd (sh_claim now lease (shard_view R run s db)) = shard_view R run s db' \<and>
     (\<forall>t. t \<noteq> s \<longrightarrow> shard_view R run t db' = shard_view R run t db)"
  using assms
proof (induction fuel arbitrary: db)
  case 0
  then show ?case by simp
next
  case (Suc fuel)
  let ?v = "shard_view R run s db" and ?db1 = "r_lpop R db (ready_key run s)"
  show ?case
  proof (cases "r_lrange R db (ready_key run s)")
    case Nil
    then have "shard_view R run s ?db1 = ?v" by (intro shard_eqI) (auto simp: view_simps)
    with Nil show ?thesis
      by (auto simp: lpop_reply_def sh_claim_Nil loop_value_def pop_view_other split: list.splits)
  next
    case (Cons h rest)
    show ?thesis
    proof (cases "r_lrange R db (host_queue_key run s h)")
      case Nil
      let ?db2 = "r_lpop R ?db1 (host_queue_key run s h)"
      have q1: "r_lrange R ?db1 (host_queue_key run s h) = []" using Nil by (simp add: view_simps)
      have v2: "shard_view R run s ?db2 = ?v\<lparr>sh_ready := rest\<rparr>"
        using Cons by (simp add: pop_empty_queue_view [OF q1] pop_ready_view)
      have "length (r_lrange R ?db2 (ready_key run s)) < fuel"
        using Suc.prems Cons by (simp add: view_simps)
      from Suc.IH [OF this] obtain db' where
        "claim_loop fuel R (ready_key run s) (wake_key run s) (inflight_key run s) (urls_key run s)
           (host_queue_prefix run s) now lease ?db2 = Some (loop_value (fst (sh_claim now lease (shard_view R run s ?db2))), db')"
        "snd (sh_claim now lease (shard_view R run s ?db2)) = shard_view R run s db'"
        "\<forall>t. t \<noteq> s \<longrightarrow> shard_view R run t db' = shard_view R run t ?db2" by blast
      moreover have "sh_claim now lease ?v = sh_claim now lease (shard_view R run s ?db2)"
        unfolding v2 using Cons Nil by (intro sh_claim_stale) auto
      ultimately show ?thesis
        using Cons q1 by (simp add: lpop_reply_def key_simps pop_view_other)
    next
      case q: (Cons i q)
      have q1: "r_lrange R ?db1 (host_queue_key run s h) = i # q" using q by (simp add: view_simps)
      have "sh_claim now lease ?v = (Claimed i h (r_hget R db (urls_key run s) i),
          ?v\<lparr>sh_ready := rest, sh_queue := (sh_queue ?v)(h := q), sh_wake := zadd (now + lease) h (sh_wake ?v),
             sh_inflight := zadd (now + lease) (lease_member i h) (sh_inflight ?v)\<rparr>)"
        using Cons q by (simp add: sh_claim_def)
      then show ?thesis
        using Cons q q1 claim_hit_view [OF Cons q, of "now + lease"]
        by (simp add: lpop_reply_def key_simps loop_value_def claim_value_def Let_def reads pop_view_other
            flip: lease_member_def) (simp add: lease_member_def)
    qed
  qed
qed

lemma claim_lua_refines:
  "\<exists>db'. claim_lua R (ready_key run s) (wake_key run s) (inflight_key run s) (urls_key run s) (host_queue_prefix run s)
       now lease db = Some (claim_value (fst (sh_claim now lease (shard_view R run s db))), db') \<and>
     snd (sh_claim now lease (shard_view R run s db)) = shard_view R run s db' \<and>
     (\<forall>t. t \<noteq> s \<longrightarrow> shard_view R run t db' = shard_view R run t db)"
proof -
  let ?v = "shard_view R run s db"
  obtain r s' where rs: "sh_claim now lease ?v = (r, s')" by fastforce
  obtain db' where db': "claim_loop (Suc (length (r_lrange R db (ready_key run s)))) R (ready_key run s) (wake_key run s)
       (inflight_key run s) (urls_key run s) (host_queue_prefix run s) now lease db = Some (loop_value r, db')"
     "s' = shard_view R run s db'" "\<forall>t. t \<noteq> s \<longrightarrow> shard_view R run t db' = shard_view R run t db"
    using claim_loop_refines [of db run s "Suc (length (r_lrange R db (ready_key run s)))" now lease] rs by auto
  have w: "r_zrange R db' (wake_key run s) = r_zrange R db (wake_key run s)" if "loop_value r = None"
    using rs by (cases rule: sh_claim_cases) (use that db'(2) in \<open>auto simp: loop_value_def shard_view_def\<close>)
  have "claim_lua R (ready_key run s) (wake_key run s) (inflight_key run s) (urls_key run s) (host_queue_prefix run s)
       now lease db = Some (claim_value r, db')"
    using rs
  proof (cases rule: sh_claim_cases)
    case none
    then have "loop_value r = None" by (auto simp: loop_value_def split: list.splits)
    with none db'(1) w show ?thesis
      by (auto simp: claim_lua_def claim_value_def simp del: claim_loop.simps split: list.splits prod.splits)
  next
    case claimed
    with db'(1) show ?thesis by (simp add: claim_lua_def loop_value_def del: claim_loop.simps)
  qed
  then show ?thesis using rs db' by auto
qed

end

text \<open>Wake times, promotion, reclaim and acknowledgement.\<close>

context redis_server
begin

lemma advance_view:
  "shard_view R run s (snd (advance_wake_lua R (wake_key run s) (ready_key run s) h t db)) =
   sh_advance_wake h t (shard_view R run s db)"
  by (rule shard_eqI) (auto simp: advance_wake_lua_def sh_advance_wake_def Let_def view_simps)

lemma advance_view_other:
  "u \<noteq> s \<Longrightarrow> shard_view R run u (snd (advance_wake_lua R (wake_key run s) (ready_key run s) h t db)) = shard_view R run u db"
  by (rule shard_eqI) (auto simp: advance_wake_lua_def Let_def view_simps)

lemma promote_loop_view:
  "shard_view R run s (snd (promote_loop R (wake_key run s) (ready_key run s) hs n db)) =
     (shard_view R run s db)\<lparr>sh_wake := fold zrem hs (r_zrange R db (wake_key run s)),
        sh_ready := r_lrange R db (ready_key run s) @ hs\<rparr> \<and>
   fst (promote_loop R (wake_key run s) (ready_key run s) hs n db) = n + length hs \<and>
   (u \<noteq> s \<longrightarrow> shard_view R run u (snd (promote_loop R (wake_key run s) (ready_key run s) hs n db)) = shard_view R run u db)"
proof (induction hs arbitrary: n db)
  case Nil
  then show ?case by (simp add: shard_view_def)
next
  case (Cons h hs)
  let ?db = "r_rpush R (r_zrem R db (wake_key run s) h) (ready_key run s) h"
  have "shard_view R run s ?db = (shard_view R run s db)\<lparr>sh_wake := zrem h (r_zrange R db (wake_key run s)),
      sh_ready := r_lrange R db (ready_key run s) @ [h]\<rparr>"
    by (rule shard_eqI) (auto simp: view_simps)
  moreover have "u \<noteq> s \<Longrightarrow> shard_view R run u ?db = shard_view R run u db"
    by (rule shard_eqI) (auto simp: view_simps)
  ultimately show ?case using Cons.IH [of "n + 1" ?db] by (simp add: Let_def reads)
qed

lemma promote_view:
  "shard_view R run s (snd (promote_lua R (wake_key run s) (ready_key run s) now lim db)) =
   sh_promote now lim (shard_view R run s db)"
  using promote_loop_view [of run s "zrange_by_score 0 now lim (r_zrange R db (wake_key run s))" 0 db]
  by (simp add: promote_lua_def sh_promote_def Let_def case_prod_unfold)

lemma promote_view_other:
  "u \<noteq> s \<Longrightarrow> shard_view R run u (snd (promote_lua R (wake_key run s) (ready_key run s) now lim db)) = shard_view R run u db"
  using promote_loop_view [of run s "zrange_by_score 0 now lim (r_zrange R db (wake_key run s))" 0 db u]
  by (simp add: promote_lua_def Let_def case_prod_unfold)

lemma reclaim_loop_view:
  "shard_view R run s (snd (reclaim_loop R (inflight_key run s) (wake_key run s) (host_queue_prefix run s) now ms n db)) =
     fold (sh_reclaim_one now) ms (shard_view R run s db) \<and>
   (u \<noteq> s \<longrightarrow> shard_view R run u
      (snd (reclaim_loop R (inflight_key run s) (wake_key run s) (host_queue_prefix run s) now ms n db)) = shard_view R run u db)"
proof (induction ms arbitrary: n db)
  case Nil
  then show ?case by simp
next
  case (Cons m ms)
  show ?case
  proof (cases "split_once CHR ''|'' m")
    case None
    then have "sh_reclaim_one now m v = v" for v by (simp add: sh_reclaim_one_def del: split_once_None)
    then show ?thesis using Cons.IH [of n db] None by (simp del: split_once_None)
  next
    case (Some ih)
    obtain i h where ih: "ih = (i, h)" by (cases ih)
    let ?db = "r_zadd_nx R (r_rpush R (r_zrem R db (inflight_key run s) m) (host_queue_key run s h) i) (wake_key run s) now h"
    have "shard_view R run s ?db = sh_reclaim_one now m (shard_view R run s db)"
      using Some ih by (intro shard_eqI) (auto simp: sh_reclaim_one_def view_simps)
    moreover have "u \<noteq> s \<Longrightarrow> shard_view R run u ?db = shard_view R run u db"
      by (rule shard_eqI) (auto simp: view_simps)
    ultimately show ?thesis using Cons.IH [of "n + 1" ?db] Some ih by (simp add: Let_def key_simps)
  qed
qed

lemma reclaim_view:
  "shard_view R run s (snd (reclaim_lua R (inflight_key run s) (wake_key run s) now lim (host_queue_prefix run s) db)) =
   sh_reclaim now lim (shard_view R run s db)"
  using reclaim_loop_view [of run s now _ 0 db] by (simp add: reclaim_lua_def sh_reclaim_def Let_def case_prod_unfold)

lemma reclaim_view_other:
  "u \<noteq> s \<Longrightarrow> shard_view R run u
     (snd (reclaim_lua R (inflight_key run s) (wake_key run s) now lim (host_queue_prefix run s) db)) = shard_view R run u db"
  using reclaim_loop_view [of run s now _ 0 db u] by (simp add: reclaim_lua_def Let_def case_prod_unfold)

lemma zrem_inflight_view:
  "shard_view R run s (r_zrem R db (inflight_key run s) (lease_member i h)) = sh_ack_first i h (shard_view R run s db)"
  "u \<noteq> s \<Longrightarrow> shard_view R run u (r_zrem R db (inflight_key run s) m) = shard_view R run u db"
  by (rule shard_eqI; auto simp: sh_ack_first_def view_simps)+

lemma hdel_view:
  "shard_view R run s (r_hdel R (r_zrem R db (inflight_key run s) (lease_member i h)) (urls_key run s) i) =
     sh_ack i h (shard_view R run s db)"
  "u \<noteq> s \<Longrightarrow> shard_view R run u (r_hdel R db (urls_key run s) i) = shard_view R run u db"
  by (rule shard_eqI; auto simp: sh_ack_def view_simps)+

end

subsection \<open>Calls\<close>

text \<open>The calls a client makes on one shard, each with the fault it meets.\<close>

datatype hq_call =
  CSubmit url_id url_entry string int fault
| CBatch "hq_item list" int fault
| CClaim int int fault
| CAdvance string int fault
| CPromote int u64 fault
| CReclaim int u64 fault
| CAck url_id string fault fault

fun hq_effect :: "'db host_queue_ops \<Rightarrow> u32 \<Rightarrow> hq_call \<Rightarrow> 'db \<Rightarrow> 'db" where
  "hq_effect Q s (CSubmit i e h now f) db = snd (hq_submit Q s i e h now f db)"
| "hq_effect Q s (CBatch items now f) db = snd (hq_submit_batch Q s items now f db)"
| "hq_effect Q s (CClaim now lease f) db = snd (hq_claim Q s now lease f db)"
| "hq_effect Q s (CAdvance h t f) db = snd (hq_advance_wake Q s h t f db)"
| "hq_effect Q s (CPromote now lim f) db = snd (hq_promote Q s now lim f db)"
| "hq_effect Q s (CReclaim now lim f) db = snd (hq_reclaim Q s now lim f db)"
| "hq_effect Q s (CAck i h f1 f2) db = snd (hq_ack Q s i h f1 f2 db)"

text \<open>The labels a call can perform: none when the script did not run.\<close>

fun call_labels :: "hq_call \<Rightarrow> label \<Rightarrow> bool" where
  "call_labels (CSubmit i e h now f) (LSubmit it n out) = (si_id it = to_hex i \<and> si_host it = h \<and> si_cap it = -1 \<and> n = now)"
| "call_labels (CBatch items now f) (LSubmit it n out) =
     (n = now \<and> (\<exists>x \<in> set items. si_id it = to_hex (hi_url_id x) \<and> si_host it = hi_host x \<and> si_cap it = hi_max_urls x))"
| "call_labels (CClaim now lease f) (LClaim n l r) = (n = now \<and> l = lease)"
| "call_labels (CAdvance h t f) (LAdvance g u) = (g = h \<and> u = t)"
| "call_labels (CPromote now lim f) (LPromote n l) = (n = now \<and> l = lim)"
| "call_labels (CReclaim now lim f) (LReclaim n l) = (n = now \<and> l = lim)"
| "call_labels (CAck i h f1 f2) (LAckFirst j g) = (j = to_hex i \<and> g = h)"
| "call_labels (CAck i h f1 f2) (LAck j g) = (j = to_hex i \<and> g = h)"
| "call_labels c l = False"

lemma set_map2_left: "l \<in> set (map2 g as bs) \<Longrightarrow> \<exists>a \<in> set as. \<exists>b. l = g a b"
  by (auto dest: set_zip_leftD)

lemma shard_run_single: "shard_step s l s' \<Longrightarrow> shard_run s [l] s'"
  by (blast intro: shard_run.intros)

text \<open>Either nothing ran or the whole script did.\<close>

lemma invoke_snd: "snd (invoke flt f db) = db \<or> snd (invoke flt f db) = snd (f db)"
  by (cases flt) auto

lemma hq_submit_effect:
  "snd (hq_submit Q s i e h now f db) = db \<or>
   (\<exists>p. snd (hq_submit Q s i e h now f db) =
      snd (submit_lua (hq_redis Q) (seen_key (hq_run Q) s) (urls_key (hq_run Q) s) (host_queue_key (hq_run Q) s h)
        (wake_key (hq_run Q) s) (to_hex i) h p now db))"
  by (cases f) (auto simp: hq_submit_def split: sum.splits)

lemma hq_batch_args_ok:
  assumes "mapM_result f items = Inr payloads"
  shows "\<forall>a \<in> set (map2 (hq_batch_arg run s) items payloads). arg_ok run s a \<and>
     (\<exists>x \<in> set items. ba_id a = to_hex (hi_url_id x) \<and> ba_host a = hi_host x \<and> ba_cap a = hi_max_urls x)"
  by (auto simp: hq_batch_arg_def arg_ok_def dest: set_zip_leftD)

lemma hq_submit_batch_effect:
  "snd (hq_submit_batch Q s items now f db) = db \<or>
   (\<exists>ps. hq_payloads Q items = Inr ps \<and> snd (hq_submit_batch Q s items now f db) =
      snd (submit_batch_lua (hq_redis Q) (seen_key (hq_run Q) s) (urls_key (hq_run Q) s) (wake_key (hq_run Q) s) now
        (map2 (hq_batch_arg (hq_run Q) s) items ps) db))"
  by (cases f) (auto simp: hq_submit_batch_def split: sum.splits)

lemma hq_claim_effect: "snd (hq_claim Q s now lease f db) = db \<or> snd (hq_claim Q s now lease f db) = snd (claim_call Q s now lease db)"
  by (cases f) (auto simp: hq_claim_def split: sum.splits)

lemma reply_i64_snd [simp]: "snd (reply_i64 Q r) = snd r"
  by (auto simp: reply_i64_def split: prod.splits sum.splits)

lemma hq_advance_effect:
  "snd (hq_advance_wake Q s h t f db) = db \<or> snd (hq_advance_wake Q s h t f db) =
     snd (advance_wake_lua (hq_redis Q) (wake_key (hq_run Q) s) (ready_key (hq_run Q) s) h t db)"
  by (cases f) (auto simp: hq_advance_wake_def reply_i64_def split: sum.splits)

lemma hq_ack_effect:
  assumes "db1 = r_zrem (hq_redis Q) db (inflight_key (hq_run Q) s) (lease_member (to_hex i) h)"
    and "db2 = r_hdel (hq_redis Q) db1 (urls_key (hq_run Q) s) (to_hex i)"
  shows "snd (hq_ack Q s i h f1 f2 db) \<in> {db, db1, db2}"
  by (cases f1; cases f2) (simp_all add: hq_ack_def assms lease_member_def)

text \<open>A step of the shard that a call performed: some of its labels ran, other shards are as before.\<close>

definition call_runs :: "'db host_queue_ops \<Rightarrow> u32 \<Rightarrow> hq_call \<Rightarrow> 'db \<Rightarrow> 'db \<Rightarrow> bool" where
  "call_runs Q s c db db' \<longleftrightarrow>
     (\<exists>ls. shard_run (shard_view (hq_redis Q) (hq_run Q) s db) ls (shard_view (hq_redis Q) (hq_run Q) s db') \<and>
        (\<forall>l \<in> set ls. call_labels c l)) \<and>
     (\<forall>t. t \<noteq> s \<longrightarrow> shard_view (hq_redis Q) (hq_run Q) t db' = shard_view (hq_redis Q) (hq_run Q) t db)"

lemma call_runs_refl: "call_runs Q s c db db"
  unfolding call_runs_def by (auto intro: exI [of _ "[]"])

lemma call_runs_step:
  assumes "shard_step (shard_view (hq_redis Q) (hq_run Q) s db) l (shard_view (hq_redis Q) (hq_run Q) s db')"
    and "call_labels c l" "\<And>t. t \<noteq> s \<Longrightarrow> shard_view (hq_redis Q) (hq_run Q) t db' = shard_view (hq_redis Q) (hq_run Q) t db"
  shows "call_runs Q s c db db'"
  unfolding call_runs_def using shard_run_single [OF assms(1)] assms(2,3) by (auto intro!: exI [of _ "[l]"])

lemma submit_runs:
  assumes "redis_server (hq_redis Q)"
  shows "call_runs Q s (CSubmit i e h now f) db (snd (hq_submit Q s i e h now f db))"
proof -
  have "call_runs Q s (CSubmit i e h now f) db (snd (submit_lua (hq_redis Q) (seen_key (hq_run Q) s) (urls_key (hq_run Q) s)
      (host_queue_key (hq_run Q) s h) (wake_key (hq_run Q) s) (to_hex i) h p now db))" (is "call_runs _ _ _ _ (snd ?r)") for p
  proof -
    obtain v db' where r: "?r = (v, db')" by fastforce
    from redis_server.submit_lua_refines [OF assms r to_hex_no_bar] obtain out where
      "shard_step (shard_view (hq_redis Q) (hq_run Q) s db) (LSubmit (uncapped (to_hex i) h p) now out)
         (shard_view (hq_redis Q) (hq_run Q) s db')" by blast
    then show ?thesis
      using redis_server.submit_lua_other [OF assms r] r by (intro call_runs_step) (auto simp: uncapped_def)
  qed
  then show ?thesis using hq_submit_effect [of Q s i e h now f db] call_runs_refl by metis
qed

lemma submit_batch_runs:
  assumes "redis_server (hq_redis Q)"
  shows "call_runs Q s (CBatch items now f) db (snd (hq_submit_batch Q s items now f db))"
proof -
  have "call_runs Q s (CBatch items now f) db (snd (submit_batch_lua (hq_redis Q) (seen_key (hq_run Q) s)
      (urls_key (hq_run Q) s) (wake_key (hq_run Q) s) now (map2 (hq_batch_arg (hq_run Q) s) items ps) db))"
    if ps: "hq_payloads Q items = Inr ps" for ps
  proof -
    let ?as = "map2 (hq_batch_arg (hq_run Q) s) items ps"
    obtain q' rej' db' where r: "submit_batch_loop (hq_redis Q) (seen_key (hq_run Q) s) (urls_key (hq_run Q) s)
        (wake_key (hq_run Q) s) now 0 [] ?as db = ((q', rej'), db')" by (metis prod.exhaust)
    have ok: "\<forall>a \<in> set ?as. arg_ok (hq_run Q) s a \<and>
        (\<exists>x \<in> set items. ba_id a = to_hex (hi_url_id x) \<and> ba_host a = hi_host x \<and> ba_cap a = hi_max_urls x)"
      using hq_batch_args_ok ps unfolding hq_payloads_def by blast
    then obtain outs where o: "shard_run (shard_view (hq_redis Q) (hq_run Q) s db)
          (map2 (\<lambda>a. LSubmit (item_of_arg a) now) ?as outs) (shard_view (hq_redis Q) (hq_run Q) s db')"
        "\<forall>t. t \<noteq> s \<longrightarrow> shard_view (hq_redis Q) (hq_run Q) t db' = shard_view (hq_redis Q) (hq_run Q) t db"
      using redis_server.submit_batch_loop_refines [OF assms r] by blast
    have "\<forall>l \<in> set (map2 (\<lambda>a. LSubmit (item_of_arg a) now) ?as outs). call_labels (CBatch items now f) l"
    proof
      fix l assume "l \<in> set (map2 (\<lambda>a. LSubmit (item_of_arg a) now) ?as outs)"
      then obtain a out where "a \<in> set ?as" and l: "l = LSubmit (item_of_arg a) now out"
        using set_map2_left by fast
      with ok obtain x where "x \<in> set items" "ba_id a = to_hex (hi_url_id x)" "ba_host a = hi_host x" "ba_cap a = hi_max_urls x"
        by blast
      then show "call_labels (CBatch items now f) l" unfolding l by (auto simp: item_of_arg_def)
    qed
    then have "call_runs Q s (CBatch items now f) db db'" unfolding call_runs_def using o by blast
    then show ?thesis using r by (simp add: submit_batch_lua_def)
  qed
  then show ?thesis using hq_submit_batch_effect [of Q s items now f db] call_runs_refl by metis
qed

lemma claim_call_refines:
  assumes "redis_server (hq_redis Q)"
  shows "\<exists>db'. claim_call Q s now lease db =
       (claim_value (fst (sh_claim now lease (shard_view (hq_redis Q) (hq_run Q) s db))), db') \<and>
     shard_view (hq_redis Q) (hq_run Q) s db' = snd (sh_claim now lease (shard_view (hq_redis Q) (hq_run Q) s db)) \<and>
     (\<forall>t. t \<noteq> s \<longrightarrow> shard_view (hq_redis Q) (hq_run Q) t db' = shard_view (hq_redis Q) (hq_run Q) t db)"
  using redis_server.claim_lua_refines [OF assms, of "hq_run Q" s now lease db] by (auto simp: claim_call_def)

lemma claim_runs:
  assumes "redis_server (hq_redis Q)"
  shows "call_runs Q s (CClaim now lease f) db (snd (hq_claim Q s now lease f db))"
proof -
  have "call_runs Q s (CClaim now lease f) db (snd (claim_call Q s now lease db))"
  proof -
    obtain db' where "claim_call Q s now lease db =
         (claim_value (fst (sh_claim now lease (shard_view (hq_redis Q) (hq_run Q) s db))), db')"
       "shard_view (hq_redis Q) (hq_run Q) s db' = snd (sh_claim now lease (shard_view (hq_redis Q) (hq_run Q) s db))"
       "\<forall>t. t \<noteq> s \<longrightarrow> shard_view (hq_redis Q) (hq_run Q) t db' = shard_view (hq_redis Q) (hq_run Q) t db"
      using claim_call_refines [OF assms] by blast
    then show ?thesis
      by (intro call_runs_step [where l = "LClaim now lease (fst (sh_claim now lease (shard_view (hq_redis Q) (hq_run Q) s db)))"])
        (auto intro: shard_step.claim)
  qed
  then show ?thesis using hq_claim_effect [of Q s now lease f db] call_runs_refl by metis
qed

text \<open>Whatever call is made and whatever fault it meets, the shard takes steps of the abstract
  machine and the other shards of the run do not change.\<close>

lemma hq_effect_runs:
  assumes "redis_server (hq_redis Q)"
  shows "call_runs Q s c db (hq_effect Q s c db)"
proof (cases c)
  case (CAdvance h t f)
  have "call_runs Q s (CAdvance h t f) db
      (snd (advance_wake_lua (hq_redis Q) (wake_key (hq_run Q) s) (ready_key (hq_run Q) s) h t db))"
    by (rule call_runs_step [where l = "LAdvance h t"])
      (simp_all add: redis_server.advance_view [OF assms] redis_server.advance_view_other [OF assms] shard_step.advance)
  then show ?thesis 
    using hq_advance_effect [of Q s h t f db] call_runs_refl unfolding CAdvance hq_effect.simps by metis
next
  case (CPromote now lim f)
  have "call_runs Q s (CPromote now lim f) db
      (snd (promote_lua (hq_redis Q) (wake_key (hq_run Q) s) (ready_key (hq_run Q) s) now lim db))"
    by (rule call_runs_step [where l = "LPromote now lim"])
      (simp_all add: redis_server.promote_view [OF assms] redis_server.promote_view_other [OF assms] shard_step.promote)
  then show ?thesis 
    using invoke_snd call_runs_refl unfolding CPromote hq_effect.simps hq_promote_def reply_i64_snd by metis
next
  case (CReclaim now lim f)
  have "call_runs Q s (CReclaim now lim f) db
      (snd (reclaim_lua (hq_redis Q) (inflight_key (hq_run Q) s) (wake_key (hq_run Q) s) now lim (host_queue_prefix (hq_run Q) s) db))"
    by (rule call_runs_step [where l = "LReclaim now lim"])
      (simp_all add: redis_server.reclaim_view [OF assms] redis_server.reclaim_view_other [OF assms] shard_step.reclaim)
  then show ?thesis 
    using invoke_snd call_runs_refl unfolding CReclaim hq_effect.simps hq_reclaim_def reply_i64_snd by metis
next
  case (CAck i h f1 f2)
  let ?db1 = "r_zrem (hq_redis Q) db (inflight_key (hq_run Q) s) (lease_member (to_hex i) h)"
  let ?db2 = "r_hdel (hq_redis Q) ?db1 (urls_key (hq_run Q) s) (to_hex i)"
  have "call_runs Q s (CAck i h f1 f2) db ?db1"
    by (rule call_runs_step [where l = "LAckFirst (to_hex i) h"])
      (simp_all add: redis_server.zrem_inflight_view [OF assms] shard_step.ack_first)
  moreover have "call_runs Q s (CAck i h f1 f2) db ?db2"
    by (rule call_runs_step [where l = "LAck (to_hex i) h"])
      (simp_all add: redis_server.hdel_view [OF assms] redis_server.zrem_inflight_view [OF assms] shard_step.ack)
  ultimately show ?thesis using hq_ack_effect [OF refl refl, of Q s i h f1 f2 db] call_runs_refl by (auto simp: CAck)
qed (simp_all add: submit_runs submit_batch_runs claim_runs assms)

subsection \<open>The Redis implementation of the contract\<close>

definition hq_exec :: "'db host_queue_ops \<Rightarrow> (u32 \<times> hq_call) list \<Rightarrow> 'db \<Rightarrow> 'db" where
  "hq_exec Q calls db = fold (\<lambda>(s, c). hq_effect Q s c) calls db"

definition hq_view :: "'db host_queue_ops \<Rightarrow> 'db \<Rightarrow> u32 \<Rightarrow> shard" where
  "hq_view Q db s = shard_view (hq_redis Q) (hq_run Q) s db"

locale redis_host_queue = redis_server "hq_redis Q" for Q :: "'db host_queue_ops"

sublocale redis_host_queue \<subseteq> machine: shard_machine "hq_view Q" "\<lambda>c s db. hq_effect Q s c db" call_labels
proof
  fix db s c t
  show "\<exists>ls. shard_run (hq_view Q db s) ls (hq_view Q (hq_effect Q s c db) s) \<and> (\<forall>l \<in> set ls. call_labels c l)"
    using hq_effect_runs [OF redis_server_axioms] unfolding call_runs_def hq_view_def by blast
  show "t \<noteq> s \<Longrightarrow> hq_view Q (hq_effect Q s c db) t = hq_view Q db t"
    using hq_effect_runs [OF redis_server_axioms] unfolding call_runs_def hq_view_def by blast
qed

text \<open>Calls that neither reset a host's wake time nor promote once it has come, and calls that
  submit to a host under one cap.\<close>

fun quiet_call :: "string \<Rightarrow> int \<Rightarrow> hq_call \<Rightarrow> bool" where
  "quiet_call h w (CAdvance g t f) = (g \<noteq> h)"
| "quiet_call h w (CPromote now lim f) = (now < w)"
| "quiet_call h w c = True"

fun capped_call :: "string \<Rightarrow> int \<Rightarrow> hq_call \<Rightarrow> bool" where
  "capped_call h c (CSubmit i e g now f) = (g \<noteq> h)"
| "capped_call h c (CBatch items now f) = (\<forall>x \<in> set items. hi_host x = h \<longrightarrow> hi_max_urls x = c)"
| "capped_call h c call = True"

fun acks :: "url_id \<Rightarrow> string \<Rightarrow> hq_call \<Rightarrow> bool" where
  "acks i h (CAck j g f1 f2) = (j = i \<and> g = h)"
| "acks i h c = False"

lemma quiet_call_labels: "quiet_call h w c \<Longrightarrow> call_labels c l \<Longrightarrow> quiet h w l"
  by (cases c; cases l) auto

lemma capped_call_labels: "capped_call h n c \<Longrightarrow> 0 \<le> n \<Longrightarrow> call_labels c l \<Longrightarrow> capped h n l"
  by (cases c; cases l) auto

lemma acks_labels: "\<not> acks i h c \<Longrightarrow> call_labels c l \<Longrightarrow> l \<noteq> LAck (to_hex i) h \<and> l \<noteq> LAckFirst (to_hex i) h"
  by (cases c; cases l) auto

lemma ack_labels_hex: "call_labels c l \<Longrightarrow> l = LAck j g \<or> l = LAckFirst j g \<Longrightarrow> CHR ''|'' \<notin> set j"
  by (cases c) auto

end
