(* ===== verification/Redis_Client.thy ===== *)
theory Redis_Client
  imports Frontier_Scripts
begin

text \<open>
  The client libraries the host queue relies on, as contracts: the redis crate's conversions of
  replies and the postcard codec, each with a reference instance. Under them a URL submitted
  through \<^verbatim>\<open>host_queue.rs\<close> comes back from a claim as the entry that went in.
\<close>

subsection \<open>Contracts\<close>

definition ascii_str :: "string \<Rightarrow> bool" where
  "ascii_str s = list_all (\<lambda>c. (of_char c :: nat) < 128) s"

text \<open>Conversions never invent: a string read from a bulk reply is that reply. They accept what
  the scripts send; only text that is not UTF-8 may be refused, so ASCII is always accepted. A
  nil reply reads as no bytes.\<close>

locale redis_conversions =
  fixes V :: redis_conv
  assumes conv_array: "conv_array V (VArray vs) = Inr vs"
    and conv_string_sound: "conv_string V (VBulk s) = Inr x \<Longrightarrow> x = s"
    and conv_string_ascii: "ascii_str s \<Longrightarrow> conv_string V (VBulk s) = Inr s"
    and conv_bytes: "conv_bytes V (VBulk b) = Inr b"
    and conv_bytes_nil: "conv_bytes V VNil = Inr []"
    and conv_i64: "conv_i64 V (VInt z) = Inr z"
    and conv_u64: "n \<le> U64_MAX \<Longrightarrow> conv_u64 V (VBulk (show_nat n)) = Inr n"
    and conv_u64_sound: "conv_u64 V (VBulk (show_score t)) = Inr n \<Longrightarrow> int n = t"
    and conv_strings: "list_all ascii_str ss \<Longrightarrow> conv_strings V (VArray (map VBulk ss)) = Inr ss"

locale entry_codec =
  fixes C :: url_codec
  assumes decode_encode: "to_allocvec C e = Inr b \<Longrightarrow> from_bytes C b = Inr e"
    and decode_empty: "\<exists>m. from_bytes C [] = Inl m"

subsection \<open>What the parsers make of the scripts' replies\<close>

lemma claim_tags_ascii [simp]: "ascii_str ''claimed''" "ascii_str ''empty_hint''" "ascii_str ''empty''"
  by (simp_all add: ascii_str_def)

lemma to_hex_ascii [simp]: "ascii_str (to_hex i)"
proof -
  have "(of_char (hex_char d) :: nat) < 128" if "d < 16" for d
    using hex_char_small [OF that] by simp
  then show ?thesis by (induction i) (auto simp: to_hex_def ascii_str_def byte_hex_def Let_def)
qed

context redis_conversions
begin

lemma parse_claim_sound:
  assumes "parse_claim_value V C (claim_value r) = Inr raw"
  shows "case raw of RawClaimed i e h \<Rightarrow> \<exists>i' p. r = Claimed i' h p \<and> from_hex i' = Some i
     | RawEmptyHint t \<Rightarrow> r = EmptyHint (int t) | RawEmpty \<Rightarrow> r = Empty"
proof (cases r)
  case (Claimed i h p)
  then have "parse_claimed V C [VBulk i, VBulk h, bulk_or_nil p] = Inr raw"
    using assms by (simp add: parse_claim_value_def claim_value_def conv_array conv_string_ascii)
  then show ?thesis
    using Claimed by (auto simp: parse_claimed_def split: sum.splits option.splits dest!: conv_string_sound)
next
  case (EmptyHint t)
  then show ?thesis
    using assms conv_u64_sound
    by (auto simp: parse_claim_value_def claim_value_def conv_array conv_string_ascii split: sum.splits)
next
  case Empty
  then show ?thesis
    using assms by (simp add: parse_claim_value_def claim_value_def conv_array conv_string_ascii)
qed

lemma parse_claim_claimed:
  assumes "url_id_ok i" "ascii_str h" "from_bytes C p = Inr e"
  shows "parse_claim_value V C (claim_value (Claimed (to_hex i) h (Some p))) = Inr (RawClaimed i e h)"
  using assms
  by (simp add: parse_claim_value_def claim_value_def conv_array conv_string_ascii parse_claimed_def
      bulk_or_nil_def conv_bytes codec_decode_def)

lemma parse_claim_no_payload:
  assumes "url_id_ok i" "ascii_str h" "from_bytes C [] = Inl m"
  shows "parse_claim_value V C (claim_value (Claimed (to_hex i) h None)) =
     Inl (Codec (EFrontier (''postcard decode: '' @ m)))"
  using assms
  by (simp add: parse_claim_value_def claim_value_def conv_array conv_string_ascii parse_claimed_def
      bulk_or_nil_def conv_bytes_nil codec_decode_def)

lemma parse_batch_reply:
  assumes "\<forall>i \<in> set ids. url_id_ok i"
  shows "parse_submit_batch_value V (VArray [VInt q, VArray (map VBulk (map to_hex ids))]) = Inr (q, ids)"
proof -
  have "mapM_result parse_rejected (map to_hex ids) = Inr ids"
    using assms by (induction ids) (auto simp: parse_rejected_def)
  moreover have "conv_strings V (VArray (map VBulk (map to_hex ids))) = Inr (map to_hex ids)"
    by (rule conv_strings) (simp add: list_all_iff)
  ultimately show ?thesis
    by (simp add: parse_submit_batch_value_def conv_array conv_i64)
qed

end

subsection \<open>Reference instances\<close>

fun ref_strings :: "redis_value list \<Rightarrow> string + string list" where
  "ref_strings [] = Inr []"
| "ref_strings (VBulk s # vs) = (case ref_strings vs of Inl e \<Rightarrow> Inl e | Inr ss \<Rightarrow> Inr (s # ss))"
| "ref_strings (v # vs) = Inl ''not a string''"

fun ref_i64 :: "redis_value \<Rightarrow> string + int" where
  "ref_i64 (VInt n) = Inr n"
| "ref_i64 v = Inl ''not an integer''"

fun ref_u64 :: "redis_value \<Rightarrow> string + nat" where
  "ref_u64 (VBulk s) = (case read_digits 0 s of None \<Rightarrow> Inl ''not a number'' | Some n \<Rightarrow> Inr n)"
| "ref_u64 v = Inl ''not a number''"

fun ref_string :: "redis_value \<Rightarrow> string + string" where
  "ref_string (VBulk s) = Inr s"
| "ref_string v = Inl ''not a string''"

fun ref_bytes :: "redis_value \<Rightarrow> string + string" where
  "ref_bytes (VBulk s) = Inr s"
| "ref_bytes VNil = Inr []"
| "ref_bytes v = Inl ''not bytes''"

fun ref_array :: "redis_value \<Rightarrow> string + redis_value list" where
  "ref_array (VArray vs) = Inr vs"
| "ref_array v = Inl ''not an array''"

fun ref_string_array :: "redis_value \<Rightarrow> string + string list" where
  "ref_string_array (VArray vs) = ref_strings vs"
| "ref_string_array v = Inl ''not an array''"

definition ref_conv :: redis_conv where
  "ref_conv = \<lparr>conv_i64 = ref_i64, conv_u64 = ref_u64, conv_string = ref_string, conv_bytes = ref_bytes,
     conv_array = ref_array, conv_strings = ref_string_array\<rparr>"

lemma ref_strings_bulk [simp]: "ref_strings (map VBulk ss) = Inr ss"
  by (induction ss) auto

lemma digit_val_minus [simp]: "digit_val CHR ''-'' = None"
  by (simp add: digit_val_def Let_def)

interpretation ref_conv: redis_conversions ref_conv
proof
  fix t n assume "conv_u64 ref_conv (VBulk (show_score t)) = Inr n"
  then have "read_digits 0 (show_score t) = Some n" by (auto simp: ref_conv_def split: option.splits)
  then show "int n = t"
    by (auto simp: show_score_def read_digits_show split: if_splits)
qed (auto simp: ref_conv_def read_digits_show)

text \<open>A codec by length-prefixed fields.\<close>

definition put_field :: "string \<Rightarrow> string" where
  "put_field s = show_nat (length s) @ CHR '':'' # s"

definition get_field :: "string \<Rightarrow> (string \<times> string) option" where
  "get_field b =
     (case split_once CHR '':'' b of None \<Rightarrow> None
      | Some (n, r) \<Rightarrow> (case read_digits 0 n of None \<Rightarrow> None | Some k \<Rightarrow> Some (take k r, drop k r)))"

fun get_fields :: "nat \<Rightarrow> string \<Rightarrow> string list option" where
  "get_fields 0 b = Some []"
| "get_fields (Suc n) b =
     (case get_field b of None \<Rightarrow> None
      | Some (s, r) \<Rightarrow> (case get_fields n r of None \<Rightarrow> None | Some ss \<Rightarrow> Some (s # ss)))"

definition opt_fields :: "string option \<Rightarrow> string list" where
  "opt_fields s = (case s of None \<Rightarrow> [''n'', ''''] | Some t \<Rightarrow> [''s'', t])"

definition url_fields :: "canonical_url \<Rightarrow> string list" where
  "url_fields u = [cu_str u, cu_scheme u] @ opt_fields (cu_host u) @ [cu_path u]"

definition entry_fields :: "url_entry \<Rightarrow> string list" where
  "entry_fields e = url_fields (ue_url e) @ [show_nat (ue_depth e)] @
     (case ue_discovered_from e of None \<Rightarrow> ''n'' # replicate 5 '''' | Some u \<Rightarrow> ''s'' # url_fields u)"

definition opt_of_fields :: "string \<Rightarrow> string \<Rightarrow> string option" where
  "opt_of_fields f s = (if f = ''s'' then Some s else None)"

definition entry_of_fields :: "string list \<Rightarrow> string + url_entry" where
  "entry_of_fields fs =
     (case fs of
        [str, sch, hf, h, p, d, ff, str', sch', hf', h', p'] \<Rightarrow>
          (case read_digits 0 d of None \<Rightarrow> Inl ''bad depth''
           | Some k \<Rightarrow> Inr \<lparr>ue_url = \<lparr>cu_str = str, cu_scheme = sch, cu_host = opt_of_fields hf h, cu_path = p\<rparr>, ue_depth = k,
               ue_discovered_from = (if ff = ''s'' then Some \<lparr>cu_str = str', cu_scheme = sch', cu_host = opt_of_fields hf' h', cu_path = p'\<rparr> else None)\<rparr>)
      | _ \<Rightarrow> Inl ''bad fields'')"

definition ref_encode :: "url_entry \<Rightarrow> string + string" where
  "ref_encode e = Inr (concat (map put_field (entry_fields e)))"

definition ref_decode :: "string \<Rightarrow> string + url_entry" where
  "ref_decode b = (case get_fields 12 b of None \<Rightarrow> Inl ''unexpected end'' | Some fs \<Rightarrow> entry_of_fields fs)"

definition ref_codec :: url_codec where
  "ref_codec = \<lparr>to_allocvec = ref_encode, from_bytes = ref_decode\<rparr>"

lemma get_put_field [simp]: "get_field (put_field s @ r) = Some (s, r)"
  using show_nat_no_sep [of "CHR '':''" "length s"] by (simp add: get_field_def put_field_def read_digits_show)

lemma get_put_fields: "get_fields (length fs) (concat (map put_field fs)) = Some fs"
  by (induction fs) auto

lemma entry_fields_roundtrip: "length (entry_fields e) = 12" "entry_of_fields (entry_fields e) = Inr e"
  by (auto simp: entry_fields_def url_fields_def opt_fields_def entry_of_fields_def opt_of_fields_def read_digits_show
      numeral_eq_Suc split: option.splits)

interpretation ref_codec: entry_codec ref_codec
proof
  fix e b assume "to_allocvec ref_codec e = Inr b"
  then have "b = concat (map put_field (entry_fields e))" by (simp add: ref_codec_def ref_encode_def)
  then have "get_fields 12 b = Some (entry_fields e)"
    using get_put_fields [of "entry_fields e"] by (simp add: entry_fields_roundtrip(1))
  then show "from_bytes ref_codec b = Inr e"
    by (simp add: ref_codec_def ref_decode_def entry_fields_roundtrip(2))
next
  show "\<exists>m. from_bytes ref_codec [] = Inl m"
    by (simp add: ref_codec_def ref_decode_def get_field_def numeral_eq_Suc)
qed

subsection \<open>The host queue over Redis\<close>

text \<open>A host queue whose server, conversions and codec keep their contracts.\<close>

locale live_host_queue = redis_host_queue Q + redis_conversions "hq_conv Q" + entry_codec "hq_codec Q"
  for Q :: "'db host_queue_ops"

definition mem_hq :: "mem_db host_queue_ops" where
  "mem_hq = \<lparr>hq_redis = mem_redis, hq_conv = ref_conv, hq_codec = ref_codec, hq_run = ''r''\<rparr>"

lemma mem_hq_sel [simp]:
  "hq_redis mem_hq = mem_redis" "hq_conv mem_hq = ref_conv" "hq_codec mem_hq = ref_codec" "hq_run mem_hq = ''r''"
  by (simp_all add: mem_hq_def)

interpretation mem_hq: live_host_queue mem_hq
  unfolding live_host_queue_def redis_host_queue_def
  using mem_redis.redis_server_axioms ref_conv.redis_conversions_axioms ref_codec.entry_codec_axioms by simp

lemma empty_mem_view: "hq_view mem_hq empty_mem s = empty_shard"
  by (simp add: hq_view_def shard_view_def empty_shard_def empty_mem_def mem_redis_def mem_defs fun_eq_iff)

subsection \<open>Consequences of the contract\<close>

lemma hq_exec_fold: "hq_exec Q calls db = fold (\<lambda>(s, c). (\<lambda>c s db. hq_effect Q s c db) c s) calls db"
  by (simp add: hq_exec_def)

lemma hq_claim_reply:
  assumes "redis_server (hq_redis Q)"
  shows "\<exists>db'. hq_claim Q s now lease NoFault db =
       (parse_claim_value (hq_conv Q) (hq_codec Q) (claim_value (fst (sh_claim now lease (hq_view Q db s)))), db') \<and>
     hq_view Q db' s = snd (sh_claim now lease (hq_view Q db s))"
  using claim_call_refines [OF assms, of s now lease db] by (auto simp: hq_claim_def hq_view_def)

lemma hq_claim_Inr:
  assumes "hq_claim Q s now lease f db = (Inr raw, db')"
  shows "f = NoFault"
  using assms by (cases f) (auto simp: hq_claim_def)

context live_host_queue
begin

lemma exec_view_inv: "shard_inv (hq_view Q db s) \<Longrightarrow> shard_inv (hq_view Q (hq_exec Q calls db) s)"
  unfolding hq_exec_fold by (rule machine.exec_inv)

lemma gate_holds:
  assumes "hq_advance_wake Q s h t NoFault db = (Inr (), db1)"
    and "\<forall>(s', c) \<in> set calls. quiet_call h t c"
    and "hq_claim Q s now lease f (hq_exec Q calls db1) = (Inr (RawClaimed i e g), db2)"
  shows "g \<noteq> h"
proof -
  have "db1 = snd (advance_wake_lua (hq_redis Q) (wake_key (hq_run Q) s) (ready_key (hq_run Q) s) h t db)"
    using assms(1) by (auto simp: hq_advance_wake_def reply_i64_def split: sum.splits)
  then have "hq_view Q db1 s = sh_advance_wake h t (hq_view Q db s)"
    by (simp add: hq_view_def advance_view)
  then have "gated h t (hq_view Q db1 s)"
    using advance_gates [of "hq_view Q db s"] by (simp add: hq_view_def zrange_ok)
  then have g: "gated h t (hq_view Q (hq_exec Q calls db1) s)"
    unfolding hq_exec_fold
    by (rule machine.exec_gated) (use assms(2) quiet_call_labels in blast)
  have "parse_claim_value (hq_conv Q) (hq_codec Q)
      (claim_value (fst (sh_claim now lease (hq_view Q (hq_exec Q calls db1) s)))) = Inr (RawClaimed i e g)"
    using hq_claim_reply [OF redis_server_axioms, of s now lease "hq_exec Q calls db1"] assms(3)
      hq_claim_Inr [OF assms(3)] by auto
  from parse_claim_sound [OF this] obtain i' p
    where "fst (sh_claim now lease (hq_view Q (hq_exec Q calls db1) s)) = Claimed i' g p" by auto
  then show ?thesis
    using gated_claim [OF g, of now lease] by (metis prod.collapse)
qed

lemma quota_holds:
  assumes "0 \<le> c" "count_of (hq_view Q db s) h \<le> c" "\<forall>(s', call) \<in> set calls. capped_call h c call"
  shows "count_of (hq_view Q (hq_exec Q calls db) s) h \<le> c"
  unfolding hq_exec_fold
  by (rule machine.exec_quota [OF assms(2,1)]) (use assms capped_call_labels in blast)

lemma pending_kept:
  assumes "shard_inv (hq_view Q db s)" "copies (hq_view Q db s) (to_hex i) h > 0"
    and "\<forall>(s', c) \<in> set calls. \<not> acks i h c"
  shows "copies (hq_view Q (hq_exec Q calls db) s) (to_hex i) h > 0"
  unfolding hq_exec_fold
proof (rule machine.exec_keeps [OF assms(1) _ assms(2)])
  fix call l assume "(s, call) \<in> set calls" "call_labels call l"
  then show "l \<noteq> LAck (to_hex i) h \<and> l \<noteq> LAckFirst (to_hex i) h"
    using assms(3) acks_labels by blast
next
  fix call l j g assume "call_labels call l" "l = LAck j g \<or> l = LAckFirst j g"
  then show "CHR ''|'' \<notin> set j" by (rule ack_labels_hex)
qed simp

lemma promote_db: "hq_view Q (snd (hq_promote Q s now lim NoFault db)) s = sh_promote now lim (hq_view Q db s)"
  by (simp add: hq_promote_def hq_view_def promote_view)

lemma promote_then_claim_reply:
  assumes "shard_inv (hq_view Q db s)" "sh_queue (hq_view Q db s) h \<noteq> []"
    and "\<forall>(t, g) \<in> set (sh_wake (hq_view Q db s)). 0 \<le> t \<and> t \<le> now" "length (sh_wake (hq_view Q db s)) \<le> lim"
  shows "\<exists>i g p. fst (claim_call Q s now lease (snd (hq_promote Q s now lim NoFault db))) = claim_value (Claimed i g p)"
proof -
  obtain i g p where "fst (sh_claim now lease (sh_promote now lim (hq_view Q db s))) = Claimed i g p"
    using promote_then_claim [OF assms(1-4), of lease] by blast
  then show ?thesis
    using claim_call_refines [OF redis_server_axioms, of s now lease "snd (hq_promote Q s now lim NoFault db)"] promote_db
    by (metis fst_conv hq_view_def)
qed

lemma empty_reply:
  assumes "shard_inv (hq_view Q db s)" "hq_claim Q s now lease f db = (Inr raw, db')"
  shows "raw = RawEmpty \<Longrightarrow> sh_queue (hq_view Q db s) h = []"
    and "raw = RawEmptyHint t \<Longrightarrow> sh_queue (hq_view Q db s) h \<noteq> [] \<Longrightarrow>
       \<exists>t'. zscore (sh_wake (hq_view Q db s)) h = Some t' \<and> int t \<le> t'"
proof -
  obtain r s' where rs: "sh_claim now lease (hq_view Q db s) = (r, s')" by fastforce
  have "parse_claim_value (hq_conv Q) (hq_codec Q) (claim_value r) = Inr raw"
    using hq_claim_reply [OF redis_server_axioms, of s now lease db] assms(2) hq_claim_Inr [OF assms(2)] rs by auto
  note snd = parse_claim_sound [OF this]
  show "sh_queue (hq_view Q db s) h = []" if "raw = RawEmpty"
    using claim_empty_hint(1) [OF assms(1) rs] snd that by simp
  show "\<exists>t'. zscore (sh_wake (hq_view Q db s)) h = Some t' \<and> int t \<le> t'"
    if "raw = RawEmptyHint t" "sh_queue (hq_view Q db s) h \<noteq> []"
    using claim_empty_hint(2) [OF assms(1) rs] snd that by simp
qed

end

context live_host_queue
begin

lemma submit_fresh:
  assumes "hq_view Q db s = empty_shard" "to_allocvec (hq_codec Q) e = Inr p"
  shows "fst (hq_submit Q s i e h now NoFault db) = Inr SubmitQueued"
    and "\<exists>seen'. hq_view Q (snd (hq_submit Q s i e h now NoFault db)) s =
       sh_enqueue (to_hex i) h p now (empty_shard\<lparr>sh_seen := seen'\<rparr>)"
proof -
  obtain v db' where r: "submit_lua (hq_redis Q) (seen_key (hq_run Q) s) (urls_key (hq_run Q) s)
      (host_queue_key (hq_run Q) s h) (wake_key (hq_run Q) s) (to_hex i) h p now db = (v, db')" by fastforce
  obtain out where step: "shard_step empty_shard (LSubmit (uncapped (to_hex i) h p) now out) (hq_view Q db' s)"
      and v: "v = VInt (if out = Queued then 0 else 1)"
    using submit_lua_refines [OF r to_hex_no_bar] assms(1) by (auto simp: hq_view_def)
  from step have q: "out = Queued \<and> (\<exists>seen'. hq_view Q db' s = sh_enqueue (to_hex i) h p now (empty_shard\<lparr>sh_seen := seen'\<rparr>))"
    by (auto elim!: shard_step_submitE simp: sh_submit_item_def over_quota_def uncapped_def empty_shard_def sh_bump_def)
      (metis)
  have "hq_submit Q s i e h now NoFault db = (Inr SubmitQueued, db')"
    using r v q assms(2) by (simp add: hq_submit_def codec_encode_def conv_i64)
  then show "fst (hq_submit Q s i e h now NoFault db) = Inr SubmitQueued"
    "\<exists>seen'. hq_view Q (snd (hq_submit Q s i e h now NoFault db)) s =
       sh_enqueue (to_hex i) h p now (empty_shard\<lparr>sh_seen := seen'\<rparr>)"
    using q by auto
qed

lemma submit_promote_claim:
  assumes "hq_view Q db s = empty_shard" "to_allocvec (hq_codec Q) e = Inr p"
    and "url_id_ok i" "ascii_str h" "0 \<le> now" "0 < lim"
  shows "fst (hq_claim Q s now lease NoFault
      (snd (hq_promote Q s now lim NoFault (snd (hq_submit Q s i e h now NoFault db))))) = Inr (RawClaimed i e h)"
proof -
  let ?db1 = "snd (hq_submit Q s i e h now NoFault db)"
  obtain seen' where v1: "hq_view Q ?db1 s = sh_enqueue (to_hex i) h p now (empty_shard\<lparr>sh_seen := seen'\<rparr>)"
    using submit_fresh(2) [OF assms(1,2)] by blast
  have "zrange_by_score 0 now lim [(now, h)] = [h]" using assms(5,6) by (simp add: zrange_by_score_def)
  then have "fst (sh_claim now lease (sh_promote now lim (hq_view Q ?db1 s))) = Claimed (to_hex i) h (Some p)"
    by (simp add: v1 sh_promote_def sh_claim_def sh_enqueue_def empty_shard_def zadd_nx_def zadd_def zrem_def Let_def)
  then show ?thesis
    using hq_claim_reply [OF redis_server_axioms, of s now lease "snd (hq_promote Q s now lim NoFault ?db1)"]
      promote_db [of s now lim ?db1] parse_claim_claimed [OF assms(3,4) decode_encode [OF assms(2)]] by auto
qed

text \<open>A batch reports what it did with every URL.\<close>

lemma mapM_zip_ids:
  assumes "length outs = length items" "length ps = length items"
  shows "map (ba_id \<circ> fst) (filter (\<lambda>(a, out). out = Rejected) (zip (map2 (hq_batch_arg run s) items ps) outs)) =
     map to_hex (map (hi_url_id \<circ> fst) (filter (\<lambda>(x, out). out = Rejected) (zip items outs)))"
  using assms
proof (induction items arbitrary: outs ps)
  case (Cons x items)
  then obtain out outs' p ps' where "outs = out # outs'" "ps = p # ps'" by (metis length_Suc_conv)
  with Cons show ?case by (simp add: hq_batch_arg_def)
qed simp

lemma submit_batch_reply:
  assumes "items \<noteq> []" "hq_payloads Q items = Inr ps" "\<forall>x \<in> set items. url_id_ok (hi_url_id x)"
  shows "\<exists>outs. length outs = length items \<and>
     fst (hq_submit_batch Q s items now NoFault db) =
       Inr (int (count_list outs Queued), map (hi_url_id \<circ> fst) (filter (\<lambda>(x, out). out = Rejected) (zip items outs))) \<and>
     shard_run (hq_view Q db s)
       (map2 (\<lambda>a. LSubmit (item_of_arg a) now) (map2 (hq_batch_arg (hq_run Q) s) items ps) outs)
       (hq_view Q (snd (hq_submit_batch Q s items now NoFault db)) s)"
proof -
  let ?as = "map2 (hq_batch_arg (hq_run Q) s) items ps"
  have len: "length ps = length items" using assms(2) mapM_result_Inr_length unfolding hq_payloads_def by blast
  obtain q' rej' db' where r: "submit_batch_loop (hq_redis Q) (seen_key (hq_run Q) s) (urls_key (hq_run Q) s)
      (wake_key (hq_run Q) s) now 0 [] ?as db = ((q', rej'), db')" by (metis prod.exhaust)
  have "\<forall>a \<in> set ?as. arg_ok (hq_run Q) s a" using hq_batch_args_ok assms(2) unfolding hq_payloads_def by blast
  from submit_batch_loop_refines [OF r this] obtain outs where o: "length outs = length items"
      "shard_run (hq_view Q db s) (map2 (\<lambda>a. LSubmit (item_of_arg a) now) ?as outs) (hq_view Q db' s)"
      "q' = count_list outs Queued"
      "rej' = map to_hex (map (hi_url_id \<circ> fst) (filter (\<lambda>(x, out). out = Rejected) (zip items outs)))"
    using len mapM_zip_ids [of _ items ps] by (auto simp: hq_view_def)
  have ok: "\<forall>i \<in> set (map (hi_url_id \<circ> fst) (filter (\<lambda>(x, out). out = Rejected) (zip items outs))). url_id_ok i"
    using assms(3) by (auto dest: set_zip_leftD)
  have "hq_submit_batch Q s items now NoFault db =
      (Inr (int q', map (hi_url_id \<circ> fst) (filter (\<lambda>(x, out). out = Rejected) (zip items outs))), db')"
    using assms(1,2) r parse_batch_reply [OF ok, of "int q'"] o(4)
    by (simp add: hq_submit_batch_def submit_batch_lua_def)
  then show ?thesis using o by auto
qed

end

subsection \<open>Properties\<close>

text \<open>C1: on Redis, any sequence of calls with any faults keeps the shard invariant: every host
  with queued URLs is in the wake set or ready, no URL is pending twice or for two hosts, and
  every pending URL is in the seen filter.\<close>

theorem host_queue_invariant:
  assumes "live_host_queue Q" "shard_inv (hq_view Q db s)"
  shows "shard_inv (hq_view Q (hq_exec Q calls db) s)"
  using live_host_queue.exec_view_inv [OF assms] .

definition demo_entry :: url_entry where
  "demo_entry = seed_entry \<lparr>cu_str = ''https://e.test/a'', cu_scheme = ''https'', cu_host = Some ''e.test'', cu_path = ''/a''\<rparr>"

definition demo_id :: url_id where
  "demo_id = replicate 16 CHR ''a''"

definition demo_id2 :: url_id where
  "demo_id2 = replicate 16 CHR ''b''"

theorem host_queue_invariant_witness:
  "shard_inv (hq_view mem_hq (hq_exec mem_hq [(0, CSubmit demo_id demo_entry ''e.test'' 5 NoFault), (0, CPromote 6 10 ReplyLost),
     (0, CClaim 7 60000 NoFault)] empty_mem) 0)"
  using host_queue_invariant [OF mem_hq.live_host_queue_axioms] by (simp add: empty_mem_view empty_shard_inv)

text \<open>C2: the wake gate. Once \<open>advance_wake\<close> has set a host's wake time, no claim hands out a URL of
  that host until the promoter runs at that time or later, or the wake time is set again,
  whatever submissions, claims, reclaims, acknowledgements and faults happen in between.\<close>

theorem wake_gate:
  assumes "live_host_queue Q" "hq_advance_wake Q s h t NoFault db = (Inr (), db1)"
    and "\<forall>(s', c) \<in> set calls. quiet_call h t c"
    and "hq_claim Q s now lease f (hq_exec Q calls db1) = (Inr (RawClaimed i e g), db2)"
  shows "g \<noteq> h"
  using live_host_queue.gate_holds [OF assms] .

definition gate_db :: mem_db where
  "gate_db = hq_exec mem_hq [(0, CSubmit demo_id demo_entry ''e.test'' 5 NoFault),
     (0, CSubmit demo_id2 demo_entry ''f.test'' 5 NoFault)] empty_mem"

lemma gate_advance: "fst (hq_advance_wake mem_hq 0 ''e.test'' 100 NoFault gate_db) = Inr ()"
  by code_simp

lemma gate_claim:
  "fst (hq_claim mem_hq 0 50 60000 NoFault (hq_exec mem_hq [(0, CPromote 50 10 NoFault)]
     (snd (hq_advance_wake mem_hq 0 ''e.test'' 100 NoFault gate_db)))) = Inr (RawClaimed demo_id2 demo_entry ''f.test'')"
  by code_simp

theorem wake_gate_witness:
  "fst (hq_claim mem_hq 0 50 60000 NoFault (hq_exec mem_hq [(0, CPromote 50 10 NoFault)]
     (snd (hq_advance_wake mem_hq 0 ''e.test'' 100 NoFault gate_db)))) = Inr (RawClaimed demo_id2 demo_entry ''f.test'') \<and>
   ''f.test'' \<noteq> ''e.test''"
proof -
  let ?db1 = "snd (hq_advance_wake mem_hq 0 ''e.test'' 100 NoFault gate_db)"
  let ?r = "hq_claim mem_hq 0 50 60000 NoFault (hq_exec mem_hq [(0, CPromote 50 10 NoFault)] ?db1)"
  have 1: "hq_advance_wake mem_hq 0 ''e.test'' 100 NoFault gate_db = (Inr (), ?db1)"
    using gate_advance by (metis prod.collapse)
  have 2: "?r = (Inr (RawClaimed demo_id2 demo_entry ''f.test''), snd ?r)"
    using gate_claim by (metis prod.collapse)
  have "''f.test'' \<noteq> ''e.test''"
    by (rule wake_gate [OF mem_hq.live_host_queue_axioms 1 _ 2]) simp
  then show ?thesis using gate_claim by blast
qed

text \<open>C5: the quota. If every URL of a host is submitted in batches under one cap, the host's
  counter never exceeds the cap.\<close>

theorem quota_respected:
  assumes "live_host_queue Q" "0 \<le> c" "count_of (hq_view Q db s) h \<le> c"
    and "\<forall>(s', call) \<in> set calls. capped_call h c call"
  shows "count_of (hq_view Q (hq_exec Q calls db) s) h \<le> c"
  using live_host_queue.quota_holds [OF assms] .

definition demo_item :: hq_item where
  "demo_item = \<lparr>hi_url_id = demo_id, hi_entry = demo_entry, hi_host = ''e.test'', hi_max_urls = 1\<rparr>"

theorem quota_respected_witness:
  "count_of (hq_view mem_hq (hq_exec mem_hq [(0, CBatch [demo_item, demo_item\<lparr>hi_url_id := demo_id2\<rparr>] 5 NoFault)] empty_mem) 0) ''e.test'' \<le> 1"
  by (rule quota_respected [OF mem_hq.live_host_queue_axioms])
    (simp_all add: empty_mem_view count_of_def empty_shard_def demo_item_def)

text \<open>C3: no URL is lost. A URL that is queued or leased stays queued or leased through every
  sequence of calls, with any faults, that does not acknowledge it.\<close>

theorem pending_url_kept:
  assumes "live_host_queue Q" "shard_inv (hq_view Q db s)" "copies (hq_view Q db s) (to_hex i) h > 0"
    and "\<forall>(s', c) \<in> set calls. \<not> acks i h c"
  shows "copies (hq_view Q (hq_exec Q calls db) s) (to_hex i) h > 0"
  using live_host_queue.pending_kept [OF assms] .

lemma copies_demo:
  assumes "fst (hq_submit mem_hq 0 demo_id demo_entry ''e.test'' 5 NoFault empty_mem) = Inr SubmitQueued"
  shows "shard_inv (hq_view mem_hq gate_db 0)" "copies (hq_view mem_hq gate_db 0) (to_hex demo_id) ''e.test'' > 0"
proof -
  show "shard_inv (hq_view mem_hq gate_db 0)"
    unfolding gate_db_def by (rule mem_hq.exec_view_inv) (simp add: empty_mem_view empty_shard_inv)
  have "count_list (mem_lrange gate_db (host_queue_key ''r'' 0 ''e.test'')) (to_hex demo_id) = 1" by code_simp
  then show "copies (hq_view mem_hq gate_db 0) (to_hex demo_id) ''e.test'' > 0"
    by (simp add: copies_def hq_view_def mem_redis_def)
qed

lemma demo_submit: "fst (hq_submit mem_hq 0 demo_id demo_entry ''e.test'' 5 NoFault empty_mem) = Inr SubmitQueued"
  by code_simp

theorem pending_url_kept_witness:
  "copies (hq_view mem_hq (hq_exec mem_hq [(0, CPromote 9 5 NoFault), (0, CClaim 9 100 ReplyLost), (0, CReclaim 200 5 NoFault)]
     gate_db) 0) (to_hex demo_id) ''e.test'' > 0"
  by (rule pending_url_kept [OF mem_hq.live_host_queue_axioms copies_demo [OF demo_submit]]) simp



text \<open>an empty claim tells the truth: \<open>Empty\<close> means no URL is queued on the shard, and a hint
  is a lower bound of the wake times of all hosts with queued URLs.\<close>

theorem claim_hint_sound:
  assumes "live_host_queue Q" "shard_inv (hq_view Q db s)" "hq_claim Q s now lease f db = (Inr raw, db')"
  shows "(raw = RawEmpty \<longrightarrow> sh_queue (hq_view Q db s) h = []) \<and>
    (\<forall>t. raw = RawEmptyHint t \<longrightarrow> sh_queue (hq_view Q db s) h \<noteq> [] \<longrightarrow>
       (\<exists>t'. zscore (sh_wake (hq_view Q db s)) h = Some t' \<and> int t \<le> t'))"
  using live_host_queue.empty_reply [OF assms] by blast

theorem claim_hint_sound_witness:
  "fst (hq_claim mem_hq 0 1 100 NoFault gate_db) = Inr (RawEmptyHint 5) \<and>
   (\<exists>t'. zscore (sh_wake (hq_view mem_hq gate_db 0)) ''e.test'' = Some t' \<and> 5 \<le> t')"
proof -
  have c: "fst (hq_claim mem_hq 0 1 100 NoFault gate_db) = Inr (RawEmptyHint 5)" by code_simp
  then have "hq_claim mem_hq 0 1 100 NoFault gate_db = (Inr (RawEmptyHint 5), snd (hq_claim mem_hq 0 1 100 NoFault gate_db))"
    by (metis prod.collapse)
  from claim_hint_sound [OF mem_hq.live_host_queue_axioms copies_demo(1) [OF demo_submit] this, of "''e.test''"]
  have "sh_queue (hq_view mem_hq gate_db 0) ''e.test'' \<noteq> [] \<longrightarrow>
     (\<exists>t'. zscore (sh_wake (hq_view mem_hq gate_db 0)) ''e.test'' = Some t' \<and> 5 \<le> t')" by simp
  moreover have "mem_lrange gate_db (host_queue_key ''r'' 0 ''e.test'') = [to_hex demo_id]" by code_simp
  ultimately show ?thesis using c by (simp add: hq_view_def mem_redis_def)
qed



text \<open>a batch reports what the shard did: the number queued and exactly the ids the quota
  rejected, in order; the rest are duplicates. The shard took one submission step per URL.\<close>

theorem submit_batch_report:
  assumes "live_host_queue Q" "items \<noteq> []" "hq_payloads Q items = Inr ps" "\<forall>x \<in> set items. url_id_ok (hi_url_id x)"
  shows "\<exists>outs. length outs = length items \<and>
     fst (hq_submit_batch Q s items now NoFault db) =
       Inr (int (count_list outs Queued), map (hi_url_id \<circ> fst) (filter (\<lambda>(x, out). out = Rejected) (zip items outs))) \<and>
     shard_run (hq_view Q db s)
       (map2 (\<lambda>a. LSubmit (item_of_arg a) now) (map2 (hq_batch_arg (hq_run Q) s) items ps) outs)
       (hq_view Q (snd (hq_submit_batch Q s items now NoFault db)) s)"
  using live_host_queue.submit_batch_reply [OF assms] .

theorem submit_batch_report_witness:
  "\<exists>outs. length outs = 2 \<and>
     fst (hq_submit_batch mem_hq 0 [demo_item, demo_item\<lparr>hi_url_id := demo_id2\<rparr>] 5 NoFault empty_mem) =
       Inr (int (count_list outs Queued), map (hi_url_id \<circ> fst) (filter (\<lambda>(x, out). out = Rejected)
          (zip [demo_item, demo_item\<lparr>hi_url_id := demo_id2\<rparr>] outs)))"
proof -
  let ?items = "[demo_item, demo_item\<lparr>hi_url_id := demo_id2\<rparr>]"
  obtain ps where ps: "hq_payloads mem_hq ?items = Inr ps"
    by (simp add: hq_payloads_def codec_encode_def ref_codec_def ref_encode_def)
  have "\<forall>x \<in> set ?items. url_id_ok (hi_url_id x)"
    by (simp add: demo_item_def demo_id_def demo_id2_def url_id_ok_def)
  from submit_batch_report [OF mem_hq.live_host_queue_axioms _ ps this, of 0 5 empty_mem]
  obtain outs where "length outs = length ?items" "fst (hq_submit_batch mem_hq 0 ?items 5 NoFault empty_mem) =
       Inr (int (count_list outs Queued), map (hi_url_id \<circ> fst) (filter (\<lambda>(x, out). out = Rejected) (zip ?items outs)))"
    by blast
  then show ?thesis by (intro exI [of _ outs] conjI) simp_all
qed

text \<open>C4: every call on a shard, with any fault, is a run of the abstract shard machine with the
  call's own labels, and no other shard of the run changes; in particular the claim loop always
  ends, with the abstract claim's reply.\<close>

theorem calls_refine_machine:
  assumes "redis_server (hq_redis Q)"
  shows "call_runs Q s c db (hq_effect Q s c db) \<and>
    (\<exists>db'. claim_lua (hq_redis Q) (ready_key (hq_run Q) s) (wake_key (hq_run Q) s) (inflight_key (hq_run Q) s)
         (urls_key (hq_run Q) s) (host_queue_prefix (hq_run Q) s) now lease db =
       Some (claim_value (fst (sh_claim now lease (hq_view Q db s))), db'))"
  using hq_effect_runs [OF assms] redis_server.claim_lua_refines [OF assms, of "hq_run Q" s now lease db]
  by (auto simp: hq_view_def)

theorem calls_refine_machine_witness:
  "call_runs mem_hq 0 (CPromote 9 5 ReplyLost) gate_db (hq_effect mem_hq 0 (CPromote 9 5 ReplyLost) gate_db)"
  using calls_refine_machine [of mem_hq 0 "CPromote 9 5 ReplyLost" gate_db 0 0] mem_redis.redis_server_axioms
  unfolding mem_hq_sel by blast



definition twice_db :: mem_db where
  "twice_db = hq_exec mem_hq [(0, CSubmit demo_id demo_entry ''e.test'' 5 NoFault), (0, CPromote 5 10 NoFault),
     (0, CSubmit demo_id2 demo_entry ''e.test'' 5 NoFault), (0, CPromote 5 10 NoFault)] empty_mem"

lemma twice_first: "fst (hq_claim mem_hq 0 6 60000 NoFault twice_db) = Inr (RawClaimed demo_id demo_entry ''e.test'')"
  by code_simp

lemma twice_second:
  "fst (hq_claim mem_hq 0 6 60000 NoFault (snd (hq_claim mem_hq 0 6 60000 NoFault twice_db))) =
     Inr (RawClaimed demo_id2 demo_entry ''e.test'')"
  by code_simp


definition late_db :: mem_db where
  "late_db = hq_exec mem_hq [(0, CSubmit demo_id demo_entry ''e.test'' 5 NoFault), (0, CPromote 5 10 NoFault),
     (0, CClaim 6 60 NoFault), (0, CReclaim 66 10 NoFault), (0, CAck demo_id ''e.test'' NoFault NoFault),
     (0, CPromote 66 10 NoFault)] empty_mem"

lemma late_claim:
  "fst (hq_claim mem_hq 0 67 60 NoFault late_db) = Inl (Codec (EFrontier ''postcard decode: unexpected end''))"
  by code_simp

lemma late_claim_again:
  "fst (hq_claim mem_hq 0 130 60 NoFault (hq_exec mem_hq [(0, CClaim 67 60 NoFault), (0, CReclaim 127 10 NoFault),
      (0, CPromote 127 10 NoFault)] late_db)) = Inl (Codec (EFrontier ''postcard decode: unexpected end''))"
  by code_simp



end
