(* ===== verification/Redis_Frontier.thy ===== *)
theory Redis_Frontier
  imports Redis_Client
begin

text \<open>
  \<^verbatim>\<open>crawlrs-frontier/src/frontier.rs\<close>, \<^verbatim>\<open>promoter.rs\<close>, \<^verbatim>\<open>bloom.rs\<close> and the outcome types of
  \<^verbatim>\<open>crawlrs-core/src/traits/frontier.rs\<close>: the \<open>Frontier\<close> trait on top of the host queue. An
  operation takes the clock readings it makes and the faults its calls meet; the iteration order
  of a hash map, BLAKE3 and the text of a Redis error are parameters.
\<close>

subsection \<open>Outcomes and errors\<close>

text \<open>An \<open>Instant\<close> is a reading of the monotonic clock in milliseconds.\<close>

datatype claim_outcome = ClaimedUrl url_id url_entry attempt_id | ClaimEmptyHint nat | ClaimEmpty

record submit_batch_outcome =
  sb_queued :: nat
  sb_rejected_urls :: "url_entry list"

definition submit_batch_default :: submit_batch_outcome where
  "submit_batch_default = \<lparr>sb_queued = 0, sb_rejected_urls = []\<rparr>"

datatype bloom_error = BloomAlreadyExists | BloomModuleMissing string | BloomPool | BloomBackend string

datatype redis_frontier_error =
  RfRedis string | RfPool | RfShardNotOwned u32 "u32 list" | RfShardOutOfRange u32 u32 | RfNoHost string
| RfBloom bloom_error | RfHostQueue hq_error | RfMalformedAttempt string

definition show_debug_list :: "u32 list \<Rightarrow> string" where
  "show_debug_list ss = ''['' @ (case ss of [] \<Rightarrow> [] | s # ss \<Rightarrow> show_nat s @ concat (map (\<lambda>s. '', '' @ show_nat s) ss)) @ '']''"

text \<open>The text of an error of the host queue is a parameter: it holds messages of the redis crate.\<close>

definition show_frontier_error :: "(hq_error \<Rightarrow> string) \<Rightarrow> redis_frontier_error \<Rightarrow> string" where
  "show_frontier_error hq_text e =
     (case e of RfRedis m \<Rightarrow> ''redis error: '' @ m
      | RfPool \<Rightarrow> ''connection pool error''
      | RfShardNotOwned got owned \<Rightarrow>
          ''shard '' @ show_nat got @ '' is not owned by this frontier instance (owns '' @ show_debug_list owned @ '')''
      | RfShardOutOfRange got n \<Rightarrow>
          ''shard '' @ show_nat got @ '' is out of range for the policy's shard_count='' @ show_nat n
      | RfNoHost u \<Rightarrow> ''url has no host: '' @ u
      | RfBloom _ \<Rightarrow> ''bloom''
      | RfHostQueue h \<Rightarrow> ''host_queue: '' @ hq_text h
      | RfMalformedAttempt a \<Rightarrow> ''malformed AttemptId: '' @ a)"

definition rf_to_error :: "(hq_error \<Rightarrow> string) \<Rightarrow> redis_frontier_error \<Rightarrow> crawl_error" where
  "rf_to_error hq_text e = EFrontier (show_frontier_error hq_text e)"

subsection \<open>Construction\<close>

record 'db redis_frontier =
  rf_ops :: "'db host_queue_ops"
  rf_sharding :: sharding_policy
  rf_owned :: "u32 list"
  rf_lease_timeout :: duration
  rf_tick_batch_limit :: u64
  rf_scope :: crawl_scope
  rf_blake3 :: "string \<Rightarrow> string"

record 'db frontier_state =
  fs_db :: 'db
  fs_cursor :: nat

definition DEFAULT_LEASE_TIMEOUT :: duration where "DEFAULT_LEASE_TIMEOUT = 60 * 1000000000"
definition DEFAULT_TICK_BATCH_LIMIT :: u64 where "DEFAULT_TICK_BATCH_LIMIT = 1000"

text \<open>What \<^verbatim>\<open>BF.RESERVE\<close> answers: success, or an error with its text.\<close>

datatype reserve_reply = ReserveNoConn | ReserveOk | ReserveErr string

fun reserve :: "reserve_reply \<Rightarrow> bloom_error + unit" where
  "reserve ReserveNoConn = Inl BloomPool"
| "reserve ReserveOk = Inr ()"
| "reserve (ReserveErr msg) =
     (if contains msg ''item exists'' then Inl BloomAlreadyExists
      else if contains msg ''unknown command'' then Inl (BloomModuleMissing msg)
      else Inl (BloomBackend msg))"

fun reserve_all :: "(u32 \<Rightarrow> reserve_reply) \<Rightarrow> u32 list \<Rightarrow> redis_frontier_error + unit" where
  "reserve_all replies [] = Inr ()"
| "reserve_all replies (shard # shards) =
     (case reserve (replies shard) of
        Inr _ \<Rightarrow> reserve_all replies shards
      | Inl e \<Rightarrow> if e = BloomAlreadyExists then reserve_all replies shards else Inl (RfBloom e))"

definition rf_new ::
  "'db host_queue_ops \<Rightarrow> sharding_policy \<Rightarrow> u32 list \<Rightarrow> crawl_scope \<Rightarrow> (string \<Rightarrow> string) \<Rightarrow> (u32 \<Rightarrow> reserve_reply) \<Rightarrow>
   redis_frontier_error + 'db redis_frontier" where
  "rf_new ops p owned scope blake3 replies =
     (case List.find (\<lambda>shard. shard \<ge> shard_count p) owned of
        Some shard \<Rightarrow> Inl (RfShardOutOfRange shard (shard_count p))
      | None \<Rightarrow>
         (case reserve_all replies owned of Inl e \<Rightarrow> Inl e
          | Inr _ \<Rightarrow>
              Inr \<lparr>rf_ops = ops, rf_sharding = p, rf_owned = owned, rf_lease_timeout = DEFAULT_LEASE_TIMEOUT,
                   rf_tick_batch_limit = DEFAULT_TICK_BATCH_LIMIT, rf_scope = scope, rf_blake3 = blake3\<rparr>))"

definition with_lease_timeout :: "duration \<Rightarrow> 'db redis_frontier \<Rightarrow> 'db redis_frontier" where
  "with_lease_timeout lease F = F\<lparr>rf_lease_timeout := lease\<rparr>"

definition with_tick_batch_limit :: "u64 \<Rightarrow> 'db redis_frontier \<Rightarrow> 'db redis_frontier" where
  "with_tick_batch_limit limit F = F\<lparr>rf_tick_batch_limit := limit\<rparr>"

subsection \<open>The trait's operations\<close>

definition rf_shard_of :: "'db redis_frontier \<Rightarrow> url_entry \<Rightarrow> redis_frontier_error + (u32 \<times> string \<times> url_id)" where
  "rf_shard_of F entry =
     (let shard = shard_key (rf_sharding F) (ue_url entry) in
      if shard \<notin> set (rf_owned F) then Inl (RfShardNotOwned shard (rf_owned F))
      else case cu_host (ue_url entry) of None \<Rightarrow> Inl (RfNoHost (cu_str (ue_url entry)))
        | Some host \<Rightarrow> Inr (shard, host, from_canonical (rf_blake3 F) (ue_url entry)))"

definition rf_submit ::
  "'db redis_frontier \<Rightarrow> url_entry \<Rightarrow> int \<Rightarrow> fault \<Rightarrow> 'db \<Rightarrow> (redis_frontier_error + submit_outcome) \<times> 'db" where
  "rf_submit F entry now_ms flt db =
     (case rf_shard_of F entry of Inl e \<Rightarrow> (Inl e, db)
      | Inr (shard, host, url_id) \<Rightarrow>
         (case hq_submit (rf_ops F) shard url_id entry host now_ms flt db of
            (Inl e, db) \<Rightarrow> (Inl (RfHostQueue e), db)
          | (Inr outcome, db) \<Rightarrow> (Inr outcome, db)))"

text \<open>The entries of a batch with their shard, host and id, in input order.\<close>

record located =
  lo_entry :: url_entry
  lo_shard :: u32
  lo_host :: string
  lo_id :: url_id

definition rf_locate :: "'db redis_frontier \<Rightarrow> url_entry \<Rightarrow> redis_frontier_error + located" where
  "rf_locate F entry =
     (case rf_shard_of F entry of Inl e \<Rightarrow> Inl e
      | Inr (shard, host, i) \<Rightarrow> Inr \<lparr>lo_entry = entry, lo_shard = shard, lo_host = host, lo_id = i\<rparr>)"

definition rf_cap :: "crawl_scope \<Rightarrow> string \<Rightarrow> int" where
  "rf_cap sc host = (case max_urls_for sc host of Some cap \<Rightarrow> if cap \<le> I64_MAX then int cap else -1 | None \<Rightarrow> -1)"

definition rf_item :: "'db redis_frontier \<Rightarrow> located \<Rightarrow> hq_item" where
  "rf_item F l =
     \<lparr>hi_url_id = lo_id l, hi_entry = lo_entry l, hi_host = lo_host l, hi_max_urls = rf_cap (rf_scope F) (lo_host l)\<rparr>"

definition rejected_entries :: "hq_item list \<Rightarrow> url_id list \<Rightarrow> url_entry list" where
  "rejected_entries items ids =
     concat (map (\<lambda>i. case List.find (\<lambda>it. hi_url_id it = i) items of Some it \<Rightarrow> [hi_entry it] | None \<Rightarrow> []) ids)"

fun rf_batch_loop ::
  "'db redis_frontier \<Rightarrow> located list \<Rightarrow> int \<Rightarrow> (u32 \<Rightarrow> fault) \<Rightarrow> u32 list \<Rightarrow> submit_batch_outcome \<Rightarrow> 'db \<Rightarrow>
   (redis_frontier_error + submit_batch_outcome) \<times> 'db" where
  "rf_batch_loop F ls now_ms flt [] tot db = (Inr tot, db)"
| "rf_batch_loop F ls now_ms flt (shard # shards) tot db =
     (let items = map (rf_item F) (filter (\<lambda>l. lo_shard l = shard) ls) in
      case hq_submit_batch (rf_ops F) shard items now_ms (flt shard) db of
        (Inl e, db) \<Rightarrow> (Inl (RfHostQueue e), db)
      | (Inr (queued, rejected_ids), db) \<Rightarrow>
          rf_batch_loop F ls now_ms flt shards
            (tot\<lparr>sb_queued := sb_queued tot + nat queued,
                   sb_rejected_urls := sb_rejected_urls tot @ rejected_entries items rejected_ids\<rparr>) db)"

text \<open>\<open>order\<close> is the iteration order of the map from shards to entries.\<close>

definition rf_submit_batch ::
  "'db redis_frontier \<Rightarrow> (u32 list \<Rightarrow> u32 list) \<Rightarrow> url_entry list \<Rightarrow> int \<Rightarrow> (u32 \<Rightarrow> fault) \<Rightarrow> 'db \<Rightarrow>
   (redis_frontier_error + submit_batch_outcome) \<times> 'db" where
  "rf_submit_batch F order entries now_ms flt db =
     (if entries = [] then (Inr submit_batch_default, db)
      else case mapM_result (rf_locate F) entries of Inl e \<Rightarrow> (Inl e, db)
      | Inr ls \<Rightarrow> rf_batch_loop F ls now_ms flt (order (remdups (map lo_shard ls))) submit_batch_default db)"

text \<open>The readings of the two clocks, the monotonic one in nanoseconds.\<close>

record clock_reading =
  cr_instant :: nat
  cr_wall_ms :: u64

definition ms_to_instant :: "clock_reading \<Rightarrow> u64 \<Rightarrow> nat" where
  "ms_to_instant c target_wall_ms =
     (if target_wall_ms \<le> cr_wall_ms c then cr_instant c else cr_instant c + (target_wall_ms - cr_wall_ms c) * 1000000)"

fun rf_claim_sweep ::
  "'db redis_frontier \<Rightarrow> int \<Rightarrow> clock_reading \<Rightarrow> fault list \<Rightarrow> u32 list \<Rightarrow> u64 option \<Rightarrow> 'db \<Rightarrow>
   (redis_frontier_error + claim_outcome) \<times> 'db" where
  "rf_claim_sweep F now_ms clock flts [] hint db =
     (Inr (case hint of Some ms \<Rightarrow> ClaimEmptyHint (ms_to_instant clock ms) | None \<Rightarrow> ClaimEmpty), db)"
| "rf_claim_sweep F now_ms clock flts (shard # shards) hint db =
     (case hq_claim (rf_ops F) shard now_ms (u64_as_i64 (rf_lease_timeout F div 1000000))
             (case flts of [] \<Rightarrow> NoFault | f # _ \<Rightarrow> f) db of
        (Inr (RawClaimed i entry host), db) \<Rightarrow> (Inr (ClaimedUrl i entry (encode_attempt shard i host)), db)
      | (Inr (RawEmptyHint soonest_ms), db) \<Rightarrow>
          rf_claim_sweep F now_ms clock (tl flts) shards
            (Some (case hint of Some prev \<Rightarrow> min prev soonest_ms | None \<Rightarrow> soonest_ms)) db
      | (Inr RawEmpty, db) \<Rightarrow> rf_claim_sweep F now_ms clock (tl flts) shards hint db
      | (Inl e, db) \<Rightarrow> (Inl (RfHostQueue e), db))"

text \<open>The shards in the order one sweep visits them.\<close>

definition sweep_order :: "u32 list \<Rightarrow> nat \<Rightarrow> u32 list" where
  "sweep_order owned start = map (\<lambda>offset. owned ! ((start + offset) mod length owned)) [0..<length owned]"

definition rf_claim ::
  "'db redis_frontier \<Rightarrow> worker_identity \<Rightarrow> int \<Rightarrow> clock_reading \<Rightarrow> fault list \<Rightarrow> 'db frontier_state \<Rightarrow>
   (redis_frontier_error + claim_outcome) \<times> 'db frontier_state" where
  "rf_claim F identity now_ms clock flts st =
     (let n = length (rf_owned F) in
      if n = 0 then (Inr ClaimEmpty, st)
      else
        let start = fs_cursor st mod n;
            (r, db) = rf_claim_sweep F now_ms clock flts (sweep_order (rf_owned F) start) None (fs_db st)
        in (r, st\<lparr>fs_db := db, fs_cursor := (fs_cursor st + 1) mod 2 ^ 64\<rparr>))"

definition rf_advance_wake ::
  "'db redis_frontier \<Rightarrow> string \<Rightarrow> u64 \<Rightarrow> fault \<Rightarrow> 'db \<Rightarrow> (redis_frontier_error + unit) \<times> 'db" where
  "rf_advance_wake F host until_ms flt db =
     (let shard = shard_key_from_host (rf_sharding F) host in
      if shard \<notin> set (rf_owned F) then (Inr (), db)
      else case hq_advance_wake (rf_ops F) shard host (u64_as_i64 until_ms) flt db of
        (Inl e, db) \<Rightarrow> (Inl (RfHostQueue e), db)
      | (Inr _, db) \<Rightarrow> (Inr (), db))"

definition rf_ack ::
  "'db redis_frontier \<Rightarrow> attempt_id \<Rightarrow> fault \<Rightarrow> fault \<Rightarrow> 'db \<Rightarrow> (redis_frontier_error + unit) \<times> 'db" where
  "rf_ack F attempt flt1 flt2 db =
     (case decode_attempt attempt of None \<Rightarrow> (Inl (RfMalformedAttempt attempt), db)
      | Some (shard, i, host) \<Rightarrow>
          if shard \<notin> set (rf_owned F) then (Inr (), db)
          else (case hq_ack (rf_ops F) shard i host flt1 flt2 db of
             (Inl e, db) \<Rightarrow> (Inl (RfHostQueue e), db)
           | (Inr _, db) \<Rightarrow> (Inr (), db)))"

text \<open>One pass of the promoter; an error of one call is logged and the pass goes on.\<close>

fun tick_once ::
  "'db host_queue_ops \<Rightarrow> int \<Rightarrow> u64 \<Rightarrow> (fault \<times> fault) list \<Rightarrow> u32 list \<Rightarrow> int \<times> int \<Rightarrow> 'db \<Rightarrow> (int \<times> int) \<times> 'db" where
  "tick_once Q now_ms limit flts [] acc db = (acc, db)"
| "tick_once Q now_ms limit flts (shard # shards) (promoted, reclaimed) db =
     (let (f1, f2) = (case flts of [] \<Rightarrow> (NoFault, NoFault) | f # _ \<Rightarrow> f);
          (r1, db) = hq_promote Q shard now_ms limit f1 db;
          promoted = (case r1 of Inr n \<Rightarrow> promoted + n | Inl _ \<Rightarrow> promoted);
          (r2, db) = hq_reclaim Q shard now_ms limit f2 db;
          reclaimed = (case r2 of Inr n \<Rightarrow> reclaimed + n | Inl _ \<Rightarrow> reclaimed)
      in tick_once Q now_ms limit (tl flts) shards (promoted, reclaimed) db)"

definition rf_tick ::
  "'db redis_frontier \<Rightarrow> int \<Rightarrow> (fault \<times> fault) list \<Rightarrow> 'db \<Rightarrow> (redis_frontier_error + nat) \<times> 'db" where
  "rf_tick F now_ms flts db =
     (let ((promoted, reclaimed), db) = tick_once (rf_ops F) now_ms (rf_tick_batch_limit F) flts (rf_owned F) (0, 0) db
      in (Inr (nat (promoted + reclaimed)), db))"


subsection \<open>Every operation is a sequence of host-queue calls\<close>

text \<open>A use of the trait with what it meets.\<close>

datatype rf_use =
  UseSubmit url_entry int fault
| UseBatch "u32 list \<Rightarrow> u32 list" "url_entry list" int "u32 \<Rightarrow> fault"
| UseClaim worker_identity int clock_reading "fault list"
| UseAdvance string u64 fault
| UseAck attempt_id fault fault
| UseTick int "(fault \<times> fault) list"

fun rf_effect :: "'db redis_frontier \<Rightarrow> rf_use \<Rightarrow> 'db frontier_state \<Rightarrow> 'db frontier_state" where
  "rf_effect F (UseSubmit e now f) st = st\<lparr>fs_db := snd (rf_submit F e now f (fs_db st))\<rparr>"
| "rf_effect F (UseBatch ord es now f) st = st\<lparr>fs_db := snd (rf_submit_batch F ord es now f (fs_db st))\<rparr>"
| "rf_effect F (UseClaim w now c fs) st = snd (rf_claim F w now c fs st)"
| "rf_effect F (UseAdvance h t f) st = st\<lparr>fs_db := snd (rf_advance_wake F h t f (fs_db st))\<rparr>"
| "rf_effect F (UseAck a f1 f2) st = st\<lparr>fs_db := snd (rf_ack F a f1 f2 (fs_db st))\<rparr>"
| "rf_effect F (UseTick now fs) st = st\<lparr>fs_db := snd (rf_tick F now fs (fs_db st))\<rparr>"

text \<open>A hash map iterates over its keys.\<close>

fun use_ok :: "rf_use \<Rightarrow> bool" where
  "use_ok (UseBatch ord es now f) = (\<forall>ks. set (ord ks) \<subseteq> set ks)"
| "use_ok u = True"

definition via_calls :: "'db redis_frontier \<Rightarrow> 'db \<Rightarrow> 'db \<Rightarrow> bool" where
  "via_calls F db db' \<longleftrightarrow> (\<exists>calls. set (map fst calls) \<subseteq> set (rf_owned F) \<and> db' = hq_exec (rf_ops F) calls db)"

lemma via_refl [intro, simp]: "via_calls F db db"
  unfolding via_calls_def by (intro exI [of _ "[]"]) (simp add: hq_exec_def)

lemma via_step:
  "s \<in> set (rf_owned F) \<Longrightarrow> via_calls F (hq_effect (rf_ops F) s c db) db' \<Longrightarrow> via_calls F db db'"
  unfolding via_calls_def
proof (elim exE conjE)
  fix calls assume "s \<in> set (rf_owned F)" "set (map fst calls) \<subseteq> set (rf_owned F)"
    "db' = hq_exec (rf_ops F) calls (hq_effect (rf_ops F) s c db)"
  then show "\<exists>calls. set (map fst calls) \<subseteq> set (rf_owned F) \<and> db' = hq_exec (rf_ops F) calls db"
    by (intro exI [of _ "(s, c) # calls"]) (simp add: hq_exec_def)
qed

lemma via_one: "s \<in> set (rf_owned F) \<Longrightarrow> via_calls F db (hq_effect (rf_ops F) s c db)"
  by (rule via_step) auto

lemma rf_shard_of_owned: "rf_shard_of F e = Inr (s, h, i) \<Longrightarrow> s \<in> set (rf_owned F) \<and> cu_host (ue_url e) = Some h"
  by (auto simp: rf_shard_of_def Let_def split: if_splits option.splits)

lemma rf_locate_owned: "rf_locate F e = Inr l \<Longrightarrow> lo_shard l \<in> set (rf_owned F) \<and> lo_entry l = e"
  by (auto simp: rf_locate_def split: sum.splits dest: rf_shard_of_owned)

lemma submit_via: "via_calls F db (snd (rf_submit F e now f db))"
proof (cases "rf_shard_of F e")
  case (Inr l)
  obtain s h i where l: "l = (s, h, i)" by (metis prod.exhaust)
  have "snd (rf_submit F e now f db) = hq_effect (rf_ops F) s (CSubmit i e h now f) db"
    by (simp add: rf_submit_def Inr l split: prod.split sum.split)
  then show ?thesis using via_one rf_shard_of_owned [OF Inr [unfolded l]] by metis
qed (simp add: rf_submit_def)

lemma batch_loop_via: "set shards \<subseteq> set (rf_owned F) \<Longrightarrow> via_calls F db (snd (rf_batch_loop F ls now f shards tot db))"
proof (induction shards arbitrary: tot db)
  case (Cons s shards)
  let ?items = "map (rf_item F) (filter (\<lambda>l. lo_shard l = s) ls)"
  obtain r db' where r: "hq_submit_batch (rf_ops F) s ?items now (f s) db = (r, db')" by (metis surj_pair)
  then have "hq_effect (rf_ops F) s (CBatch ?items now (f s)) db = db'" by simp
  then have v: "via_calls F db' db'' \<Longrightarrow> via_calls F db db''" for db'' using Cons.prems via_step by fastforce
  show ?case using Cons r by (auto intro!: v split: sum.split)
qed simp

lemma mapM_locate_owned: "mapM_result (rf_locate F) es = Inr ls \<Longrightarrow> set (map lo_shard ls) \<subseteq> set (rf_owned F)"
proof (induction es arbitrary: ls)
  case (Cons e es)
  then show ?case by (force split: sum.splits dest!: rf_locate_owned)
qed simp

lemma submit_batch_via:
  assumes "\<forall>ks. set (ord ks) \<subseteq> set ks"
  shows "via_calls F db (snd (rf_submit_batch F ord es now f db))"
proof (cases "mapM_result (rf_locate F) es")
  case (Inr ls)
  have "set (ord (remdups (map lo_shard ls))) \<subseteq> set (rf_owned F)"
    using assms [rule_format, of "remdups (map lo_shard ls)"] mapM_locate_owned [OF Inr] by auto
  from batch_loop_via [OF this] Inr show ?thesis by (simp add: rf_submit_batch_def)
qed (simp add: rf_submit_batch_def)

lemma claim_sweep_via: "set shards \<subseteq> set (rf_owned F) \<Longrightarrow> via_calls F db (snd (rf_claim_sweep F now c fs shards hint db))"
proof (induction shards arbitrary: fs hint db)
  case (Cons s shards)
  let ?f = "case fs of [] \<Rightarrow> NoFault | f # _ \<Rightarrow> f" and ?l = "u64_as_i64 (rf_lease_timeout F div 1000000)"
  obtain r db' where r: "hq_claim (rf_ops F) s now ?l ?f db = (r, db')" by (metis surj_pair)
  then have "hq_effect (rf_ops F) s (CClaim now ?l ?f) db = db'" by simp
  then have v: "via_calls F db' db'' \<Longrightarrow> via_calls F db db''" for db'' using Cons.prems via_step by fastforce
  show ?case using Cons r by (auto intro!: v split: sum.split claim_raw.split)
qed simp

lemma sweep_order_rotate: "owned \<noteq> [] \<Longrightarrow> sweep_order owned k = rotate k owned"
  by (intro nth_equalityI) (auto simp: sweep_order_def nth_rotate)

lemma claim_via: "via_calls F (fs_db st) (fs_db (snd (rf_claim F w now c fs st)))"
proof (cases "rf_owned F = []")
  case False
  then have "set (sweep_order (rf_owned F) (fs_cursor st mod length (rf_owned F))) \<subseteq> set (rf_owned F)"
    by (simp add: sweep_order_rotate)
  from claim_sweep_via [OF this] False show ?thesis by (simp add: rf_claim_def Let_def split: prod.split) (metis snd_conv)
qed (simp add: rf_claim_def)

lemma advance_via: "via_calls F db (snd (rf_advance_wake F h t f db))"
proof (cases "shard_key_from_host (rf_sharding F) h \<in> set (rf_owned F)")
  case True
  have "snd (rf_advance_wake F h t f db) =
      hq_effect (rf_ops F) (shard_key_from_host (rf_sharding F) h) (CAdvance h (u64_as_i64 t) f) db"
    using True by (simp add: rf_advance_wake_def Let_def split: prod.split sum.split)
  then show ?thesis using via_one [OF True] by metis
qed (simp add: rf_advance_wake_def)

lemma ack_via: "via_calls F db (snd (rf_ack F a f1 f2 db))"
proof (cases "decode_attempt a")
  case (Some x)
  obtain s i h where x: "x = (s, i, h)" by (metis prod.exhaust)
  show ?thesis
  proof (cases "s \<in> set (rf_owned F)")
    case True
    have "snd (rf_ack F a f1 f2 db) = hq_effect (rf_ops F) s (CAck i h f1 f2) db"
      using True by (simp add: rf_ack_def Some x split: prod.split sum.split)
    then show ?thesis using via_one [OF True] by metis
  qed (simp add: rf_ack_def Some x)
qed (simp add: rf_ack_def)

lemma tick_once_via:
  "set shards \<subseteq> set (rf_owned F) \<Longrightarrow> via_calls F db (snd (tick_once (rf_ops F) now lim fs shards acc db))"
proof (induction shards arbitrary: fs acc db)
  case (Cons s shards)
  obtain p q where acc: "acc = (p, q)" by (metis surj_pair)
  obtain f1 f2 where f: "(case fs of [] \<Rightarrow> (NoFault, NoFault) | f # _ \<Rightarrow> f) = (f1, f2)" by (metis surj_pair)
  obtain r1 db1 where 1: "hq_promote (rf_ops F) s now lim f1 db = (r1, db1)" by (metis surj_pair)
  obtain r2 db2 where 2: "hq_reclaim (rf_ops F) s now lim f2 db1 = (r2, db2)" by (metis surj_pair)
  have e: "hq_effect (rf_ops F) s (CPromote now lim f1) db = db1" "hq_effect (rf_ops F) s (CReclaim now lim f2) db1 = db2"
    using 1 2 by simp_all
  have s: "s \<in> set (rf_owned F)" using Cons.prems by simp
  have "via_calls F db2 (snd (tick_once (rf_ops F) now lim (tl fs) shards acc' db2))" for acc' using Cons by simp
  then have "via_calls F db (snd (tick_once (rf_ops F) now lim (tl fs) shards acc' db2))" for acc'
    using via_step [OF s, of "CPromote now lim f1"] via_step [OF s, of "CReclaim now lim f2"] e by metis
  then show ?case by (simp add: acc f 1 2 Let_def)
qed simp

lemma tick_via: "via_calls F db (snd (rf_tick F now fs db))"
  using tick_once_via [OF order_refl, of F db now "rf_tick_batch_limit F" fs "(0, 0)"]
  by (auto simp: rf_tick_def Let_def split: prod.split)

lemma rf_effect_via: "use_ok u \<Longrightarrow> via_calls F (fs_db st) (fs_db (rf_effect F u st))"
  by (cases u) (simp_all add: submit_via submit_batch_via claim_via advance_via ack_via tick_via)


lemma via_trans: "via_calls F db db1 \<Longrightarrow> via_calls F db1 db2 \<Longrightarrow> via_calls F db db2"
  unfolding via_calls_def
proof (elim exE conjE)
  fix c1 c2 assume "set (map fst c1) \<subseteq> set (rf_owned F)" "set (map fst c2) \<subseteq> set (rf_owned F)"
    "db1 = hq_exec (rf_ops F) c1 db" "db2 = hq_exec (rf_ops F) c2 db1"
  then show "\<exists>calls. set (map fst calls) \<subseteq> set (rf_owned F) \<and> db2 = hq_exec (rf_ops F) calls db"
    by (intro exI [of _ "c1 @ c2"]) (simp add: hq_exec_def)
qed

lemma rf_effects_via: "\<forall>u \<in> set us. use_ok u \<Longrightarrow> via_calls F (fs_db st) (fs_db (fold (rf_effect F) us st))"
proof (induction us arbitrary: st)
  case (Cons u us)
  then show ?case using via_trans [OF rf_effect_via [of u F st]] by simp
qed simp

lemma exec_other:
  assumes "redis_server (hq_redis Q)" "s \<notin> set (map fst calls)"
  shows "hq_view Q (hq_exec Q calls db) s = hq_view Q db s"
  using assms(2)
proof (induction calls arbitrary: db)
  case (Cons call calls)
  obtain t c where call: "call = (t, c)" by (metis surj_pair)
  have "hq_view Q (hq_effect Q t c db) s = hq_view Q db s"
    using hq_effect_runs [OF assms(1)] Cons.prems call unfolding call_runs_def hq_view_def by auto
  with Cons show ?case by (simp add: hq_exec_def call)
qed (simp add: hq_exec_def)

context live_host_queue
begin

text \<open>A shard whose claim would deliver keeps a sweep from coming back empty.\<close>

lemma sweep_not_empty:
  assumes "rf_ops F = Q" "s \<in> set shards"
    and "fst (sh_claim now (u64_as_i64 (rf_lease_timeout F div 1000000)) (hq_view Q db s)) = Claimed i h p"
    and "rf_claim_sweep F now c [] shards hint db = (Inr out, db')"
  shows "\<exists>j e a. out = ClaimedUrl j e a"
  using assms(2-4)
proof (induction shards arbitrary: hint db)
  case (Cons t shards)
  let ?l = "u64_as_i64 (rf_lease_timeout F div 1000000)"
  obtain db1 where d: "hq_claim Q t now ?l NoFault db =
      (parse_claim_value (hq_conv Q) (hq_codec Q) (claim_value (fst (sh_claim now ?l (hq_view Q db t)))), db1)"
    using hq_claim_reply [OF redis_server_axioms, of t now ?l db] by blast
  have other: "hq_view Q db1 s = hq_view Q db s" if "t \<noteq> s"
    using exec_other [OF redis_server_axioms, of s "[(t, CClaim now ?l NoFault)]" db] that d by (simp add: hq_exec_def)
  show ?case
  proof (cases "parse_claim_value (hq_conv Q) (hq_codec Q) (claim_value (fst (sh_claim now ?l (hq_view Q db t))))")
    case (Inl e)
    then show ?thesis using Cons.prems(3) d assms(1) by simp
  next
    case (Inr raw)
    show ?thesis
    proof (cases "\<exists>j e g. raw = RawClaimed j e g")
      case True
      then show ?thesis using Cons.prems(3) d assms(1) Inr by auto
    next
      case False
      then have "t \<noteq> s" using parse_claim_sound [OF Inr] Cons.prems(2) by (auto split: claim_raw.splits)
      then have "s \<in> set shards" "fst (sh_claim now ?l (hq_view Q db1 s)) = Claimed i h p"
        using Cons.prems(1,2) other by auto
      then show ?thesis using Cons.IH Cons.prems(3) d assms(1) Inr False by (cases raw) auto
    qed
  qed
qed simp

lemma ready_claim:
  assumes "g \<in> set (sh_ready (hq_view Q db s))" "sh_queue (hq_view Q db s) g \<noteq> []"
  shows "\<exists>i h p. fst (sh_claim now lease (hq_view Q db s)) = Claimed i h p"
proof -
  have "dropWhile (\<lambda>h. sh_queue (hq_view Q db s) h = []) (sh_ready (hq_view Q db s)) \<noteq> []"
    using assms by (auto simp: dropWhile_eq_Nil_conv)
  then show ?thesis by (auto simp: sh_claim_def Let_def split: list.splits)
qed

lemma sweep_claimed:
  assumes "rf_ops F = Q" "rf_claim_sweep F now c fs shards hint db = (Inr (ClaimedUrl i e a), db')"
  shows "\<exists>t h. t \<in> set shards \<and> a = encode_attempt t i h \<and> url_id_ok i"
  using assms(2)
proof (induction shards arbitrary: fs hint db)
  case (Cons t shards)
  let ?l = "u64_as_i64 (rf_lease_timeout F div 1000000)" and ?f = "case fs of [] \<Rightarrow> NoFault | f # _ \<Rightarrow> f"
  obtain r db1 where r: "hq_claim Q t now ?l ?f db = (r, db1)" by (metis surj_pair)
  show ?case
  proof (cases r)
    case (Inl x)
    then show ?thesis using Cons.prems r assms(1) by simp
  next
    case (Inr raw)
    show ?thesis
    proof (cases "\<exists>j x g. raw = RawClaimed j x g")
      case True
      then obtain x g where "raw = RawClaimed i x g" "a = encode_attempt t i g"
        using Cons.prems r assms(1) Inr by auto
      moreover have "parse_claim_value (hq_conv Q) (hq_codec Q) (claim_value (fst (sh_claim now ?l (hq_view Q db t)))) = Inr raw"
        using hq_claim_reply [OF redis_server_axioms, of t now ?l db] hq_claim_Inr [OF r [unfolded Inr]] r Inr by auto
      ultimately obtain i' where "from_hex i' = Some i" using parse_claim_sound by fastforce
      then have "url_id_ok i" using from_hex_length by blast
      then show ?thesis using \<open>a = encode_attempt t i g\<close> by auto
    next
      case False
      then show ?thesis using Cons.IH Cons.prems r assms(1) Inr by (cases raw) fastforce+
    qed
  qed
qed (simp split: option.splits)

end

lemma hq_ack_ok:
  assumes "redis_server (hq_redis Q)"
  shows "\<exists>db'. hq_ack Q s i h NoFault NoFault db = (Inr (), db') \<and> hq_view Q db' s = sh_ack (to_hex i) h (hq_view Q db s)"
  using assms
  by (simp add: hq_ack_def hq_view_def lease_member_def [symmetric, of "to_hex i" h, simplified] redis_server.hdel_view
      redis_server.zrem_inflight_view)


subsection \<open>Accounts of a batch\<close>

lemma rejected_entries_length: "length (rejected_entries items ids) \<le> length ids"
  by (induction ids) (auto simp: rejected_entries_def split: option.split)

lemma rejected_entries_subset: "set (rejected_entries items ids) \<subseteq> hi_entry ` set items"
proof -
  have "it \<in> set items" if "List.find P items = Some it" for P it using that by (auto simp: find_Some_iff)
  then show ?thesis by (auto simp: rejected_entries_def split: option.splits)
qed

lemma count_two: "a \<noteq> b \<Longrightarrow> length (filter (\<lambda>x. x = a) xs) + length (filter (\<lambda>x. x = b) xs) \<le> length xs"
  by (induction xs) auto

lemma count_list_filter: "count_list xs a = length (filter (\<lambda>x. x = a) xs)"
  by (induction xs) auto

lemma filter_zip_length: "length outs = length items \<Longrightarrow> length (filter (\<lambda>(x, out). P out) (zip items outs)) = length (filter P outs)"
  by (induction items outs rule: list_induct2') auto

text \<open>What one shard's batch reports is within its size, and without a cap nothing is rejected.\<close>

definition batch_report_ok :: "'db host_queue_ops \<Rightarrow> bool" where
  "batch_report_ok Q \<longleftrightarrow> (\<forall>s items now f db q ids db'. hq_submit_batch Q s items now f db = (Inr (q, ids), db') \<longrightarrow>
     (\<forall>x \<in> set items. url_id_ok (hi_url_id x)) \<longrightarrow> nat q + length ids \<le> length items)"

lemma live_report_ok: "live_host_queue Q \<Longrightarrow> batch_report_ok Q"
  unfolding batch_report_ok_def
proof (intro allI impI)
  fix s items now f db q ids db'
  assume L: "live_host_queue Q" and c: "hq_submit_batch Q s items now f db = (Inr (q, ids), db')"
    and ok: "\<forall>x \<in> set items. url_id_ok (hi_url_id x)"
  show "nat q + length ids \<le> length items"
  proof (cases "items = []")
    case False
    then obtain ps where ps: "hq_payloads Q items = Inr ps"
      using c by (auto simp: hq_submit_batch_def split: sum.splits)
    have f: "f = NoFault" using c False ps by (cases f) (auto simp: hq_submit_batch_def)
    from live_host_queue.submit_batch_reply [OF L False ps ok, of s now db] c f obtain outs
      where o: "length outs = length items" "q = int (count_list outs Queued)"
        "ids = map (hi_url_id \<circ> fst) (filter (\<lambda>(x, out). out = Rejected) (zip items outs))"
      by auto
    then show ?thesis
      using count_two [of Queued Rejected outs] filter_zip_length [OF o(1), of "\<lambda>out. out = Rejected"]
      by (simp add: count_list_filter)
  qed (use c in \<open>simp add: hq_submit_batch_def\<close>)
qed

lemma sum_filter_le:
  "distinct shards \<Longrightarrow> sum_list (map (\<lambda>s. length (filter (\<lambda>l. f l = s) ls)) shards) \<le> length ls"
proof (induction ls)
  case (Cons x ls)
  have "sum_list (map (\<lambda>s. length (filter (\<lambda>l. f l = s) (x # ls))) shards) =
      count_list shards (f x) + sum_list (map (\<lambda>s. length (filter (\<lambda>l. f l = s) ls)) shards)"
    by (induction shards) auto
  moreover have "count_list shards (f x) \<le> 1"
    using Cons.prems(1) by (induction shards) (auto simp: count_list_0_iff)
  ultimately show ?case using Cons by simp
qed simp

lemma batch_loop_account:
  assumes "batch_report_ok (rf_ops F)" "\<forall>l \<in> set ls. url_id_ok (lo_id l)"
    and "rf_batch_loop F ls now f shards tot db = (Inr out, db')"
  shows "sb_queued out + length (sb_rejected_urls out) \<le>
     sb_queued tot + length (sb_rejected_urls tot) + sum_list (map (\<lambda>s. length (filter (\<lambda>l. lo_shard l = s) ls)) shards)
   \<and> set (sb_rejected_urls out) \<subseteq> set (sb_rejected_urls tot) \<union> lo_entry ` set ls"
  using assms(3)
proof (induction shards arbitrary: tot db)
  case (Cons s shards)
  let ?items = "map (rf_item F) (filter (\<lambda>l. lo_shard l = s) ls)"
  obtain q ids db1 where c: "hq_submit_batch (rf_ops F) s ?items now (f s) db = (Inr (q, ids), db1)"
    using Cons.prems by (auto simp: Let_def split: prod.splits sum.splits)
  let ?tot = "tot\<lparr>sb_queued := sb_queued tot + nat q, sb_rejected_urls := sb_rejected_urls tot @ rejected_entries ?items ids\<rparr>"
  have "\<forall>x \<in> set ?items. url_id_ok (hi_url_id x)" using assms(2) by (auto simp: rf_item_def)
  then have q: "nat q + length (rejected_entries ?items ids) \<le> length (filter (\<lambda>l. lo_shard l = s) ls)"
    using assms(1) c rejected_entries_length [of ?items ids] unfolding batch_report_ok_def
    by (metis (no_types, lifting) add_left_mono length_map order_trans)
  have e: "set (rejected_entries ?items ids) \<subseteq> lo_entry ` set ls"
    using rejected_entries_subset [of ?items ids] by (force simp: rf_item_def)
  have "rf_batch_loop F ls now f shards ?tot db1 = (Inr out, db')" using Cons.prems c by (simp add: Let_def)
  from Cons.IH [OF this] q e show ?case by auto
qed simp

subsection \<open>Properties\<close>

definition demo_frontier :: "mem_db redis_frontier" where
  "demo_frontier =
     \<lparr>rf_ops = mem_hq, rf_sharding = SingleShardPolicy, rf_owned = [0], rf_lease_timeout = 60000000000, rf_tick_batch_limit = 10,
      rf_scope = \<lparr>cs_max_depth = None, cs_max_urls = None, cs_per_domain = (\<lambda>_. None)\<rparr>,
      rf_blake3 = (\<lambda>s. replicate 32 CHR ''a'')\<rparr>"

lemma demo_frontier_sel [simp]:
  "rf_ops demo_frontier = mem_hq" "rf_sharding demo_frontier = SingleShardPolicy" "rf_owned demo_frontier = [0]"
  "rf_lease_timeout demo_frontier = 60000000000" "rf_blake3 demo_frontier = (\<lambda>s. replicate 32 CHR ''a'')"
  by (simp_all add: demo_frontier_def)

definition demo_clock :: clock_reading where
  "demo_clock = \<lparr>cr_instant = 0, cr_wall_ms = 6\<rparr>"

definition demo_worker :: worker_identity where
  "demo_worker = \<lparr>pod_ordinal = 0, worker_index = 0\<rparr>"

lemma demo_claim:
  "\<exists>st'. rf_claim demo_frontier demo_worker 6 demo_clock [] \<lparr>fs_db = twice_db, fs_cursor = 5\<rparr> =
     (Inr (ClaimedUrl demo_id demo_entry (encode_attempt 0 demo_id ''e.test'')), st')"
proof -
  obtain db where "hq_claim mem_hq 0 6 60000 NoFault twice_db = (Inr (RawClaimed demo_id demo_entry ''e.test''), db)"
    using twice_first by (cases "hq_claim mem_hq 0 6 60000 NoFault twice_db") auto
  then show ?thesis by (simp add: rf_claim_def sweep_order_def Let_def)
qed

text \<open>C22: the \<open>Frontier\<close> trait on Redis is a client of the host queue that stays within its shards.
  Any sequence of trait calls, whatever faults it meets, keeps the invariant of every shard, and
  leaves the shards the instance does not own exactly as they were.\<close>

theorem frontier_keeps_shards:
  assumes "live_host_queue (rf_ops F)" "\<forall>u \<in> set us. use_ok u" "shard_inv (hq_view (rf_ops F) (fs_db st) s)"
  shows "shard_inv (hq_view (rf_ops F) (fs_db (fold (rf_effect F) us st)) s) \<and>
     (s \<notin> set (rf_owned F) \<longrightarrow>
        hq_view (rf_ops F) (fs_db (fold (rf_effect F) us st)) s = hq_view (rf_ops F) (fs_db st) s)"
proof -
  obtain calls where c: "set (map fst calls) \<subseteq> set (rf_owned F)"
      "fs_db (fold (rf_effect F) us st) = hq_exec (rf_ops F) calls (fs_db st)"
    using rf_effects_via [OF assms(2), of F st] unfolding via_calls_def by blast
  have "redis_server (hq_redis (rf_ops F))"
    using assms(1) by (simp add: live_host_queue_def redis_host_queue_def)
  then show ?thesis
    using live_host_queue.exec_view_inv [OF assms(1,3)] exec_other [of "rf_ops F" s calls "fs_db st"] c by auto
qed

theorem frontier_keeps_shards_witness:
  "shard_inv (hq_view mem_hq (fs_db (fold (rf_effect demo_frontier)
     [UseBatch (\<lambda>ks. ks) [demo_entry] 5 (\<lambda>_. NoFault), UseTick 6 [(ReplyLost, NoFault)], UseClaim demo_worker 7 demo_clock []]
     \<lparr>fs_db = empty_mem, fs_cursor = 0\<rparr>)) 0)"
  using frontier_keeps_shards [of demo_frontier "[UseBatch (\<lambda>ks. ks) [demo_entry] 5 (\<lambda>_. NoFault), UseTick 6 [(ReplyLost, NoFault)],
      UseClaim demo_worker 7 demo_clock []]" "\<lparr>fs_db = empty_mem, fs_cursor = 0\<rparr>" 0] mem_hq.live_host_queue_axioms
  by (simp add: empty_mem_view empty_shard_inv del: fold_simps)

text \<open>C23: a claim that meets no fault does not come back empty while a host with queued URLs is
  ready on some owned shard, wherever the round-robin cursor stands and whatever the other shards
  hold.\<close>

theorem claim_finds_work:
  assumes "live_host_queue (rf_ops F)" "s \<in> set (rf_owned F)"
    and "g \<in> set (sh_ready (hq_view (rf_ops F) (fs_db st) s))" "sh_queue (hq_view (rf_ops F) (fs_db st) s) g \<noteq> []"
    and "rf_claim F w now c [] st = (Inr out, st')"
  shows "\<exists>i e a. out = ClaimedUrl i e a"
proof -
  obtain i h p where cl: "fst (sh_claim now (u64_as_i64 (rf_lease_timeout F div 1000000)) (hq_view (rf_ops F) (fs_db st) s)) = Claimed i h p"
    using live_host_queue.ready_claim [OF assms(1,3,4)] by blast
  have ne: "rf_owned F \<noteq> []" using assms(2) by auto
  then have s: "s \<in> set (sweep_order (rf_owned F) (fs_cursor st mod length (rf_owned F)))"
    using assms(2) by (simp add: sweep_order_rotate)
  obtain db' where "rf_claim_sweep F now c [] (sweep_order (rf_owned F) (fs_cursor st mod length (rf_owned F))) None (fs_db st) = (Inr out, db')"
    using assms(5) ne by (auto simp: rf_claim_def Let_def split: prod.splits)
  from live_host_queue.sweep_not_empty [OF assms(1) refl s cl this] show ?thesis .
qed

lemma twice_ready: "sh_ready (hq_view mem_hq twice_db 0) = [''e.test'', ''e.test'']" "sh_queue (hq_view mem_hq twice_db 0) ''e.test'' \<noteq> []"
  by code_simp+

theorem claim_finds_work_witness:
  "\<exists>i e a st'. rf_claim demo_frontier demo_worker 6 demo_clock [] \<lparr>fs_db = twice_db, fs_cursor = 5\<rparr> = (Inr (ClaimedUrl i e a), st')"
proof -
  obtain out st' where o: "rf_claim demo_frontier demo_worker 6 demo_clock [] \<lparr>fs_db = twice_db, fs_cursor = 5\<rparr> = (Inr out, st')"
    using demo_claim by blast
  have "\<exists>i e a. out = ClaimedUrl i e a"
    by (rule claim_finds_work [OF _ _ _ _ o, of 0 "''e.test''"])
      (use mem_hq.live_host_queue_axioms twice_ready in simp_all)
  then show ?thesis using o by blast
qed



lemma batch_accounts:
  assumes "live_host_queue (rf_ops F)" "\<forall>ks. distinct ks \<longrightarrow> distinct (ord ks)"
    and "\<forall>e \<in> set es. url_id_ok (from_canonical (rf_blake3 F) (ue_url e))"
    and "rf_submit_batch F ord es now f db = (r, db')"
  shows "(\<forall>e \<in> set es. \<forall>x. rf_shard_of F e = Inl x \<longrightarrow> db' = db \<and> (\<exists>y. r = Inl y)) \<and>
     (\<forall>out. r = Inr out \<longrightarrow> sb_queued out + length (sb_rejected_urls out) \<le> length es \<and>
        set (sb_rejected_urls out) \<subseteq> set es)"
proof (cases "mapM_result (rf_locate F) es")
  case (Inl x)
  then show ?thesis using assms(4) by (auto simp: rf_submit_batch_def split: if_splits)
next
  case (Inr ls)
  then have l2: "list_all2 (\<lambda>e l. rf_locate F e = Inr l) es ls" by (simp add: mapM_result_Inr_iff)
  have loc: "lo_entry l = e \<and> lo_id l = from_canonical (rf_blake3 F) (ue_url e) \<and> \<not> isl (rf_shard_of F e)"
    if "rf_locate F e = Inr l" for e l
    using that by (auto simp: rf_locate_def rf_shard_of_def Let_def split: sum.splits if_splits option.splits)
  have entries: "map lo_entry ls = es" using l2 by (induction rule: list_all2_induct) (auto dest: loc)
  have ids: "\<forall>l \<in> set ls. url_id_ok (lo_id l)" using l2 assms(3) by (induction rule: list_all2_induct) (auto dest: loc)
  have good: "\<forall>e \<in> set es. \<not> isl (rf_shard_of F e)" using l2 by (induction rule: list_all2_induct) (auto dest: loc)
  have "sb_queued out + length (sb_rejected_urls out) \<le> length es \<and> set (sb_rejected_urls out) \<subseteq> set es" if "r = Inr out" for out
  proof (cases "es = []")
    case True
    then show ?thesis using assms(4) that by (auto simp: rf_submit_batch_def submit_batch_default_def)
  next
    case False
    then have "rf_batch_loop F ls now f (ord (remdups (map lo_shard ls))) submit_batch_default db = (Inr out, db')"
      using assms(4) Inr that by (simp add: rf_submit_batch_def)
    from batch_loop_account [OF live_report_ok [OF assms(1)] ids this]
    show ?thesis
      using sum_filter_le [of "ord (remdups (map lo_shard ls))" lo_shard ls] assms(2) entries
      by (auto simp: submit_batch_default_def)
  qed
  then show ?thesis using good by auto
qed

text \<open>a batch is checked before it is sent and accounted for afterwards. If one entry has no
  host or belongs to a shard of another instance, the batch fails and Redis is untouched; when the
  batch succeeds, the queued and the rejected entries are at most the entries given, and every
  rejected entry is one of them.\<close>

theorem submit_batch_accounts:
  assumes "live_host_queue (rf_ops F)" "\<forall>ks. distinct ks \<longrightarrow> distinct (ord ks)"
    and "\<forall>e \<in> set es. url_id_ok (from_canonical (rf_blake3 F) (ue_url e))"
    and "rf_submit_batch F ord es now f db = (r, db')"
  shows "(\<forall>e \<in> set es. \<forall>x. rf_shard_of F e = Inl x \<longrightarrow> db' = db \<and> (\<exists>y. r = Inl y)) \<and>
     (\<forall>out. r = Inr out \<longrightarrow> sb_queued out + length (sb_rejected_urls out) \<le> length es \<and>
        set (sb_rejected_urls out) \<subseteq> set es)"
  using batch_accounts [OF assms] by blast

theorem submit_batch_accounts_witness:
  "\<exists>r db'. rf_submit_batch demo_frontier (\<lambda>ks. ks) [demo_entry] 5 (\<lambda>_. NoFault) empty_mem = (r, db') \<and>
     (\<forall>out. r = Inr out \<longrightarrow> sb_queued out + length (sb_rejected_urls out) \<le> 1)"
proof -
  obtain r db' where r: "rf_submit_batch demo_frontier (\<lambda>ks. ks) [demo_entry] 5 (\<lambda>_. NoFault) empty_mem = (r, db')"
    by (metis surj_pair)
  show ?thesis
    using submit_batch_accounts [OF _ _ _ r] mem_hq.live_host_queue_axioms r
    by (auto simp: from_canonical_def url_id_ok_def)
qed

end
