(* ===== verification/Failure_Classes.thy ===== *)
theory Failure_Classes
  imports Core_Types
begin

text \<open>
  \<^verbatim>\<open>crawlrs-runtime/src/failure.rs\<close>: from a fetch outcome to a failure category, and the
  \<^verbatim>\<open>Retry-After\<close> header. The text of an error is its \<open>Display\<close> form followed by that of its
  sources; the HTTP-date parser of the httpdate crate and the current time are parameters.
  Times are nanoseconds since the epoch.
\<close>

definition classify_status :: "nat \<Rightarrow> failure_kind option" where
  "classify_status status =
     (if 200 \<le> status \<and> status \<le> 399 then None
      else if status = 404 \<or> status = 410 then Some NotFound
      else if status = 429 then Some TooManyRequests
      else if 400 \<le> status \<and> status \<le> 499 then Some ClientError
      else if status = 503 then Some ServiceUnavailable
      else if 500 \<le> status \<and> status \<le> 599 then Some ServerError
      else Some FkOther)"

definition show_url_error :: "url_error \<Rightarrow> string" where
  "show_url_error e =
     (case e of TooLong len cap \<Rightarrow> ''url length '' @ show_nat len @ '' exceeds cap of '' @ show_nat cap @ '' bytes''
      | ParseError m \<Rightarrow> ''invalid url: '' @ m)"

definition show_error :: "crawl_error \<Rightarrow> string" where
  "show_error e =
     (case e of EInvalidUrl u \<Rightarrow> ''invalid url: '' @ show_url_error u
      | EFetch m \<Rightarrow> ''fetch error: '' @ m
      | ETransport k m \<Rightarrow> ''transport error: '' @ m
      | EParse m \<Rightarrow> ''parse error: '' @ m
      | EStore m \<Rightarrow> ''store error: '' @ m
      | EFrontier m \<Rightarrow> ''frontier error: '' @ m
      | EPoliteness m \<Rightarrow> ''politeness error: '' @ m
      | EMetadata m \<Rightarrow> ''metadata error: '' @ m
      | EIo m \<Rightarrow> ''io error: '' @ m
      | EOther m \<Rightarrow> m)"

definition error_sources :: "crawl_error \<Rightarrow> string list" where
  "error_sources e =
     (case e of EInvalidUrl u \<Rightarrow> show_url_error u # (case u of ParseError m \<Rightarrow> [m] | _ \<Rightarrow> [])
      | EIo m \<Rightarrow> [m] | _ \<Rightarrow> [])"

definition error_text :: "crawl_error \<Rightarrow> string" where
  "error_text e = ascii_lower (show_error e) @ concat (map (\<lambda>s. '' '' @ ascii_lower s) (error_sources e))"

definition contains_any :: "string \<Rightarrow> string list \<Rightarrow> bool" where
  "contains_any text ps = list_ex (contains text) ps"

definition classify_transport_error :: "crawl_error \<Rightarrow> failure_kind" where
  "classify_transport_error err =
     (let text = error_text err in
      if contains_any text [''too many open files'', ''emfile''] then ResourceExhausted
      else if contains_any text [''tls'', ''ssl'', ''handshake'', ''certificate''] then TlsError
      else if contains_any text [''dns error'', ''name resolution'', ''failed to lookup''] then DnsFailure
      else if contains_any text [''network is unreachable'', ''network unreachable'', ''no route to host'',
                 ''host is unreachable'', ''host unreachable''] then Unreachable
      else if contains_any text [''timeout'', ''timed out''] then FkTimeout
      else if contains_any text [''connection reset'', ''connection aborted'', ''broken pipe'', ''connection refused'']
        then ConnectReset
      else if contains_any text [''address not available'', ''cannot assign requested address'', ''eaddrnotavail'']
        then ResourceExhausted
      else FkOther)"

definition NANOS :: nat where
  "NANOS = 1000000000"

definition parse_retry_after :: "(string \<Rightarrow> nat option) \<Rightarrow> nat \<Rightarrow> string \<Rightarrow> duration option" where
  "parse_retry_after http_date now value =
     (let trimmed = trim value in
      if trimmed = [] then None
      else case parse_uint U64_MAX trimmed of
        Some secs \<Rightarrow> Some (secs * NANOS)
      | None \<Rightarrow> (case http_date trimmed of None \<Rightarrow> None | Some t \<Rightarrow> Some (t - now)))"

definition extract_retry_after ::
  "(string \<Rightarrow> nat option) \<Rightarrow> nat \<Rightarrow> (string \<times> string) list \<Rightarrow> duration option" where
  "extract_retry_after http_date now headers =
     (case List.find (\<lambda>(name, _). eq_ignore_ascii_case name ''retry-after'') headers of
        None \<Rightarrow> None | Some (_, value) \<Rightarrow> parse_retry_after http_date now value)"

subsection \<open>Lemmas\<close>

lemma trim_show_nat: "trim (show_nat n) = show_nat n"
proof -
  have d: "\<not> is_ws c" if "c \<in> set (show_nat n)" for c
    using show_nat_digits [OF that] by (auto simp: digit_val_def is_ws_def Let_def split: if_splits)
  have "dropWhile is_ws s = s" if "\<forall>c \<in> set s. \<not> is_ws c" for s
    using that by (cases s) auto
  from this [of "show_nat n"] this [of "rev (show_nat n)"] show ?thesis
    using d by (simp add: trim_def trim_start_def trim_end_def)
qed

lemma find_first_match:
  "P x \<Longrightarrow> \<forall>y \<in> set xs. \<not> P y \<Longrightarrow> List.find P (xs @ x # ys) = Some x"
  by (induction xs) auto

subsection \<open>Properties\<close>

text \<open>A numeric \<^verbatim>\<open>Retry-After\<close> header is honoured to the second under any spelling of its
  name, wherever the header stands among the others.\<close>

theorem retry_after_seconds:
  assumes "n \<le> U64_MAX" "eq_ignore_ascii_case name ''retry-after''"
    and "\<forall>(k, v) \<in> set before. \<not> eq_ignore_ascii_case k ''retry-after''"
  shows "extract_retry_after http_date now (before @ (name, show_nat n) # rest) = Some (n * NANOS)"
proof -
  have "List.find (\<lambda>(k, _). eq_ignore_ascii_case k ''retry-after'') (before @ (name, show_nat n) # rest) = Some (name, show_nat n)"
    by (rule find_first_match) (use assms in auto)
  then show ?thesis
    using assms(1) by (simp add: extract_retry_after_def parse_retry_after_def trim_show_nat)
qed

theorem retry_after_seconds_witness:
  "extract_retry_after (\<lambda>_. None) 0 [(''date'', ''x''), (''Retry-After'', show_nat 120)] = Some (120 * NANOS)"
proof -
  have "eq_ignore_ascii_case ''Retry-After'' ''retry-after''" "\<not> eq_ignore_ascii_case ''date'' ''retry-after''"
    by code_simp+
  then show ?thesis
    using retry_after_seconds [of 120 "''Retry-After''" "[(''date'', ''x'')]" "\<lambda>_. None" 0 "[]"] by simp
qed

text \<open>The categories agree with the status classes: exactly the 2xx and 3xx statuses are not
  failures, full-strength pushback comes only from 429 and 503, and no status is read as a
  transport failure.\<close>

theorem classify_status_classes:
  "(classify_status s = None \<longleftrightarrow> s div 100 = 2 \<or> s div 100 = 3) \<and>
   (classify_status s = Some TooManyRequests \<longleftrightarrow> s = 429) \<and>
   (classify_status s = Some ServiceUnavailable \<longleftrightarrow> s = 503) \<and>
   (classify_status s = Some NotFound \<or> classify_status s = Some ClientError \<or> classify_status s = Some TooManyRequests
      \<longleftrightarrow> s div 100 = 4) \<and>
   classify_status s \<notin> Some ` {ConnectReset, FkTimeout, DnsFailure, TlsError, Unreachable, ResourceExhausted}"
  by (auto simp: classify_status_def)

end
