(* ===== verification/Politeness_Backoff.thy ===== *)
theory Politeness_Backoff
  imports Failure_Classes Complex_Main
begin

text \<open>
  \<^verbatim>\<open>crawlrs-politeness/src/failure.rs\<close>, \<^verbatim>\<open>config.rs\<close>, \<^verbatim>\<open>keys.rs\<close>, \<^verbatim>\<open>error.rs\<close> and
  \<^verbatim>\<open>backoff_tracker.rs\<close>: the backoff arithmetic and the per-host circuit breaker. The breaker
  keeps its state in a Redis hash per host and remembers in a bounded in-process cache which
  hosts have one; the hash commands and the cache are parameters.

  Floating-point numbers are modelled by exact rationals. For the default policy every
  intermediate value is a small multiple of a power of two, on which the 64-bit arithmetic is
  exact; a conversion to a duration fails from \<open>2 ^ 64\<close> seconds on, infinities included.
\<close>

subsection \<open>Configuration\<close>

record politeness_override =
  po_host_delay :: "duration option"
  po_obey_robots_txt :: "bool option"
  po_robots_ttl :: "duration option"

record backoff_policy =
  bp_initial_backoff :: duration
  bp_max_backoff :: duration
  bp_multiplier :: rat
  bp_failure_threshold :: u32

record politeness_config =
  pc_enabled :: bool
  pc_host_delay :: duration
  pc_obey_robots_txt :: bool
  pc_robots_ttl :: duration
  pc_user_agent :: string
  pc_backoff :: backoff_policy
  pc_per_domain :: "(string \<times> politeness_override) list"

definition backoff_policy_default :: backoff_policy where
  "backoff_policy_default =
     \<lparr>bp_initial_backoff = 30 * NANOS, bp_max_backoff = 600 * NANOS, bp_multiplier = 2, bp_failure_threshold = 10\<rparr>"

definition politeness_config_default :: politeness_config where
  "politeness_config_default =
     \<lparr>pc_enabled = True, pc_host_delay = 1 * NANOS, pc_obey_robots_txt = True,
      pc_robots_ttl = 24 * 60 * 60 * NANOS, pc_user_agent = ''crawlrs/0.0.1 (+https://github.com/p4r4xor/crawlrs)'',
      pc_backoff = backoff_policy_default, pc_per_domain = []\<rparr>"

definition has_host_delay :: "politeness_config \<Rightarrow> bool" where
  "has_host_delay c =
     (if pc_host_delay c \<noteq> 0 then True
      else list_ex (\<lambda>(_, ov). case po_host_delay ov of None \<Rightarrow> False | Some d \<Rightarrow> d \<noteq> 0) (pc_per_domain c))"

subsection \<open>Backoff arithmetic\<close>

definition secs_of_duration :: "duration \<Rightarrow> rat" where
  "secs_of_duration d = of_nat d / of_nat NANOS"

text \<open>\<open>Duration::try_from_secs_f64\<close>, to the nearest nanosecond, ties to even.\<close>

definition round_half_even :: "rat \<Rightarrow> int" where
  "round_half_even x =
     (let f = \<lfloor>x\<rfloor>; r = x - of_int f
      in if r < 1 / 2 then f else if r > 1 / 2 then f + 1 else if even f then f else f + 1)"

definition try_from_secs :: "rat \<Rightarrow> duration option" where
  "try_from_secs x = (if x < 0 \<or> x \<ge> 2 ^ 64 then None else Some (nat (round_half_even (x * of_nat NANOS))))"

definition u32_as_i32 :: "u32 \<Rightarrow> int" where
  "u32_as_i32 n = (if n < 2 ^ 31 then int n else int n - 2 ^ 32)"

definition f64_powi :: "rat \<Rightarrow> int \<Rightarrow> rat" where
  "f64_powi m e = (if e \<ge> 0 then m ^ nat e else 1 / m ^ nat (- e))"

definition backoff_scale :: "failure_kind \<Rightarrow> rat" where
  "backoff_scale kind =
     (case kind of TooManyRequests \<Rightarrow> 1 | ServiceUnavailable \<Rightarrow> 1 | ConnectReset \<Rightarrow> 1 | _ \<Rightarrow> 1 / 2)"

definition compute_backoff :: "u32 \<Rightarrow> failure_kind \<Rightarrow> duration option \<Rightarrow> backoff_policy \<Rightarrow> duration" where
  "compute_backoff consecutive_failures kind server_hint policy =
     (let computed =
        (if consecutive_failures = 0 then 0
         else
           let base = secs_of_duration (bp_initial_backoff policy);
               scale = backoff_scale kind;
               exponent = u32_as_i32 (consecutive_failures - 1);
               backoff_secs = base * scale * f64_powi (bp_multiplier policy) exponent
           in min (case try_from_secs (max backoff_secs 0) of Some d \<Rightarrow> d | None \<Rightarrow> 0) (bp_max_backoff policy))
      in case server_hint of
           Some hint \<Rightarrow> max computed (min hint (bp_max_backoff policy))
         | None \<Rightarrow> computed)"

text \<open>\<open>SystemTime::now().checked_add(d)\<close> in epoch milliseconds as the code stores it: a time past
  the clock's range gives 0.\<close>

definition ms_after :: "nat \<Rightarrow> duration \<Rightarrow> u64" where
  "ms_after now d =
     (let t = now + d in if t div NANOS > I64_MAX then 0 else (t div 1000000) mod 2 ^ 64)"

subsection \<open>Errors and keys\<close>

datatype politeness_error =
  PRedis string | PPool string | ShardNotOwned u32 "u32 list" | ShardOutOfRange u32 u32 | PRobots string | NoHost string

definition show_shards :: "u32 list \<Rightarrow> string" where
  "show_shards ss = ''['' @ (case ss of [] \<Rightarrow> [] | s # ss \<Rightarrow> show_nat s @ concat (map (\<lambda>s. '', '' @ show_nat s) ss)) @ '']''"

definition show_politeness_error :: "politeness_error \<Rightarrow> string" where
  "show_politeness_error e =
     (case e of PRedis m \<Rightarrow> ''redis error: '' @ m
      | PPool m \<Rightarrow> ''connection pool error: '' @ m
      | ShardNotOwned got owned \<Rightarrow>
          ''shard '' @ show_nat got @ '' is not owned by this politeness instance (owns '' @ show_shards owned @ '')''
      | ShardOutOfRange got n \<Rightarrow>
          ''shard '' @ show_nat got @ '' is out of range for the policy's shard_count='' @ show_nat n
      | PRobots m \<Rightarrow> ''robots: '' @ m
      | NoHost m \<Rightarrow> ''url has no host: '' @ m)"

definition to_error :: "politeness_error \<Rightarrow> crawl_error" where
  "to_error e = EPoliteness (show_politeness_error e)"

definition hoststate_key :: "run_id \<Rightarrow> u32 \<Rightarrow> string \<Rightarrow> string" where
  "hoststate_key run shard host = ''crawlrs:'' @ run @ '':s'' @ show_nat shard @ '':hoststate:'' @ host"

definition robots_key :: "run_id \<Rightarrow> u32 \<Rightarrow> string \<Rightarrow> string" where
  "robots_key run shard host = ''crawlrs:'' @ run @ '':s'' @ show_nat shard @ '':robots:'' @ host"

subsection \<open>Hashes and caches\<close>

record 'db hash_store =
  hs_hget :: "'db \<Rightarrow> string \<Rightarrow> string \<Rightarrow> string option"
  hs_hset :: "'db \<Rightarrow> string \<Rightarrow> string \<Rightarrow> string \<Rightarrow> 'db"
  hs_hdel :: "'db \<Rightarrow> string \<Rightarrow> string \<Rightarrow> 'db"
  hs_hincr :: "'db \<Rightarrow> string \<Rightarrow> string \<Rightarrow> 'db"
  hs_expire :: "'db \<Rightarrow> string \<Rightarrow> int \<Rightarrow> 'db"

record ('c, 'v) cache =
  ca_get :: "'c \<Rightarrow> string \<Rightarrow> 'v option"
  ca_insert :: "'c \<Rightarrow> string \<Rightarrow> 'v \<Rightarrow> 'c"
  ca_invalidate :: "'c \<Rightarrow> string \<Rightarrow> 'c"

text \<open>What one Redis round trip of the politeness layer meets.\<close>

datatype trip = TripOk | TripPool string | TripFail string | TripLost string

text \<open>A round trip with effect \<open>f\<close> on the store; the reply is read from the new store.\<close>

fun round_trip :: "trip \<Rightarrow> ('db \<Rightarrow> 'db) \<Rightarrow> 'db \<Rightarrow> (politeness_error + unit) \<times> 'db" where
  "round_trip TripOk f db = (Inr (), f db)"
| "round_trip (TripPool m) f db = (Inl (PPool m), db)"
| "round_trip (TripFail m) f db = (Inl (PRedis m), db)"
| "round_trip (TripLost m) f db = (Inl (PRedis m), f db)"

subsection \<open>The circuit breaker\<close>

definition FIELD_FAILURES :: string where "FIELD_FAILURES = ''consecutive_failures''"
definition FIELD_BACKOFF_UNTIL :: string where "FIELD_BACKOFF_UNTIL = ''backoff_until_ms''"
definition FIELD_LAST_KIND :: string where "FIELD_LAST_KIND = ''last_kind''"

record ('db, 'c) backoff_tracker =
  bt_store :: "'db hash_store"
  bt_cache :: "('c, unit) cache"
  bt_run :: run_id
  bt_sharding :: sharding_policy
  bt_owned :: "u32 list"
  bt_backoff :: backoff_policy

record ('db, 'c) tracker_state =
  ts_db :: 'db
  ts_failing :: 'c

definition assert_owned :: "u32 list \<Rightarrow> u32 \<Rightarrow> politeness_error + unit" where
  "assert_owned owned shard = (if shard \<notin> set owned then Inl (ShardNotOwned shard owned) else Inr ())"

text \<open>An optional integer field of a reply.\<close>

definition read_num :: "nat \<Rightarrow> string option \<Rightarrow> politeness_error + nat option" where
  "read_num mx v =
     (case v of None \<Rightarrow> Inr None
      | Some s \<Rightarrow> (case parse_uint mx s of None \<Rightarrow> Inl (PRedis ''not an integer'') | Some n \<Rightarrow> Inr (Some n)))"

definition note_failing :: "('db, 'c) backoff_tracker \<Rightarrow> string \<Rightarrow> nat \<Rightarrow> 'c \<Rightarrow> 'c" where
  "note_failing T host observed c =
     (if observed = 0 then ca_invalidate (bt_cache T) c host else ca_insert (bt_cache T) c host ())"

definition bt_is_open ::
  "('db, 'c) backoff_tracker \<Rightarrow> string \<Rightarrow> nat \<Rightarrow> trip \<Rightarrow> ('db, 'c) tracker_state \<Rightarrow>
   (crawl_error + bool) \<times> ('db, 'c) tracker_state" where
  "bt_is_open T host now tr st =
     (let shard = shard_key_from_host (bt_sharding T) host in
      case assert_owned (bt_owned T) shard of Inl e \<Rightarrow> (Inl (to_error e), st)
      | Inr _ \<Rightarrow>
         (let key = hoststate_key (bt_run T) shard host in
          case round_trip tr (\<lambda>db. db) (ts_db st) of (Inl e, _) \<Rightarrow> (Inl (to_error e), st)
          | (Inr _, db) \<Rightarrow>
             (case read_num U32_MAX (hs_hget (bt_store T) db key FIELD_FAILURES) of Inl e \<Rightarrow> (Inl (to_error e), st)
              | Inr failures \<Rightarrow>
                 (case read_num U64_MAX (hs_hget (bt_store T) db key FIELD_BACKOFF_UNTIL) of
                    Inl e \<Rightarrow> (Inl (to_error e), st)
                  | Inr backoff_until_ms \<Rightarrow>
                     (let observed_failures = (case failures of None \<Rightarrow> 0 | Some n \<Rightarrow> n);
                          st = st\<lparr>ts_failing := note_failing T host observed_failures (ts_failing st)\<rparr>
                      in if observed_failures < bp_failure_threshold (bt_backoff T) then (Inr False, st)
                         else (Inr (case backoff_until_ms of None \<Rightarrow> False | Some until \<Rightarrow> now div 1000000 < until), st))))))"

definition bt_record_failure ::
  "('db, 'c) backoff_tracker \<Rightarrow> canonical_url \<Rightarrow> failure_kind \<Rightarrow> duration option \<Rightarrow> nat \<Rightarrow> trip \<Rightarrow> trip \<Rightarrow>
   ('db, 'c) tracker_state \<Rightarrow> (crawl_error + next_wake) \<times> ('db, 'c) tracker_state" where
  "bt_record_failure T url kind server_hint now tr1 tr2 st =
     (case cu_host url of None \<Rightarrow> (Inl (to_error (NoHost (cu_str url))), st)
      | Some host \<Rightarrow>
         (let shard = shard_key (bt_sharding T) url in
          case assert_owned (bt_owned T) shard of Inl e \<Rightarrow> (Inl (to_error e), st)
          | Inr _ \<Rightarrow>
             (let key = hoststate_key (bt_run T) shard host in
              case round_trip tr1 (\<lambda>db. hs_hincr (bt_store T) db key FIELD_FAILURES) (ts_db st) of
                (Inl e, db) \<Rightarrow> (Inl (to_error e), st\<lparr>ts_db := db\<rparr>)
              | (Inr _, db) \<Rightarrow>
                 (case read_num U32_MAX (hs_hget (bt_store T) db key FIELD_FAILURES) of
                    Inl e \<Rightarrow> (Inl (to_error e), st\<lparr>ts_db := db\<rparr>)
                  | Inr n \<Rightarrow>
                     (let new_failures = (case n of None \<Rightarrow> 0 | Some n \<Rightarrow> n);
                          failing = ca_insert (bt_cache T) (ts_failing st) host ();
                          backoff = compute_backoff new_failures kind server_hint (bt_backoff T);
                          until_score = ms_after now backoff
                      in case round_trip tr2
                             (\<lambda>db. hs_hset (bt_store T)
                                (hs_hset (bt_store T) db key FIELD_BACKOFF_UNTIL (show_nat until_score))
                                key FIELD_LAST_KIND (failure_kind_str kind)) db of
                           (Inl e, db) \<Rightarrow> (Inl (to_error e), st\<lparr>ts_db := db, ts_failing := failing\<rparr>)
                         | (Inr _, db) \<Rightarrow>
                             (Inr \<lparr>nw_host = host, nw_until_ms = until_score\<rparr>, st\<lparr>ts_db := db, ts_failing := failing\<rparr>))))))"

definition bt_reset_on_success ::
  "('db, 'c) backoff_tracker \<Rightarrow> string \<Rightarrow> trip \<Rightarrow> ('db, 'c) tracker_state \<Rightarrow>
   (crawl_error + unit) \<times> ('db, 'c) tracker_state" where
  "bt_reset_on_success T host tr st =
     (if ca_get (bt_cache T) (ts_failing st) host = None then (Inr (), st)
      else
        let shard = shard_key_from_host (bt_sharding T) host in
        case assert_owned (bt_owned T) shard of Inl e \<Rightarrow> (Inl (to_error e), st)
        | Inr _ \<Rightarrow>
           (let key = hoststate_key (bt_run T) shard host in
            case round_trip tr (\<lambda>db. hs_hdel (bt_store T) (hs_hdel (bt_store T) (hs_hdel (bt_store T) db
                     key FIELD_FAILURES) key FIELD_BACKOFF_UNTIL) key FIELD_LAST_KIND) (ts_db st) of
              (Inl e, db) \<Rightarrow> (Inl (to_error e), st\<lparr>ts_db := db\<rparr>)
            | (Inr _, db) \<Rightarrow>
                (Inr (), st\<lparr>ts_db := db, ts_failing := ca_invalidate (bt_cache T) (ts_failing st) host\<rparr>)))"

subsection \<open>Contracts of the hash commands and of the cache\<close>

locale hash_server =
  fixes H :: "'db hash_store"
  assumes hget_hset: "hs_hget H (hs_hset H db k f v) = (hs_hget H db)(k := (hs_hget H db k)(f := Some v))"
    and hget_hdel: "hs_hget H (hs_hdel H db k f) = (hs_hget H db)(k := (hs_hget H db k)(f := None))"
    and hget_expire: "hs_hget H (hs_expire H db k ttl) = hs_hget H db"
    and hget_hincr: "hs_hget H db k f = None \<and> n = 0 \<or> hs_hget H db k f = Some (show_nat n) \<Longrightarrow>
      hs_hget H (hs_hincr H db k f) = (hs_hget H db)(k := (hs_hget H db k)(f := Some (show_nat (Suc n))))"

text \<open>A bounded cache may drop entries at any time; what it returns was put in and not removed.\<close>

locale bounded_cache =
  fixes C :: "('c, 'v) cache"
  assumes get_insert: "ca_get C (ca_insert C c k v) x = Some w \<Longrightarrow> (x = k \<and> w = v) \<or> (x \<noteq> k \<and> ca_get C c x = Some w)"
    and get_invalidate: "ca_get C (ca_invalidate C c k) x = Some w \<Longrightarrow> x \<noteq> k \<and> ca_get C c x = Some w"

record mem_hash =
  mh_fields :: "((string \<times> string) \<times> string option) list"

definition mem_hget2 :: "mem_hash \<Rightarrow> string \<Rightarrow> string \<Rightarrow> string option" where
  "mem_hget2 db k f = (case map_of (mh_fields db) (k, f) of None \<Rightarrow> None | Some v \<Rightarrow> v)"

definition mem_hput2 :: "mem_hash \<Rightarrow> string \<Rightarrow> string \<Rightarrow> string option \<Rightarrow> mem_hash" where
  "mem_hput2 db k f v = db\<lparr>mh_fields := ((k, f), v) # mh_fields db\<rparr>"

definition mem_hincr2 :: "mem_hash \<Rightarrow> string \<Rightarrow> string \<Rightarrow> mem_hash" where
  "mem_hincr2 db k f =
     mem_hput2 db k f (Some (show_nat (Suc (case mem_hget2 db k f of None \<Rightarrow> 0
       | Some s \<Rightarrow> (case read_digits 0 s of None \<Rightarrow> 0 | Some n \<Rightarrow> n)))))"

definition mem_hash_store :: "mem_hash hash_store" where
  "mem_hash_store =
     \<lparr>hs_hget = mem_hget2, hs_hset = (\<lambda>db k f v. mem_hput2 db k f (Some v)),
      hs_hdel = (\<lambda>db k f. mem_hput2 db k f None), hs_hincr = mem_hincr2, hs_expire = (\<lambda>db k ttl. db)\<rparr>"

definition list_cache :: "((string \<times> 'v) list, 'v) cache" where
  "list_cache = \<lparr>ca_get = map_of, ca_insert = (\<lambda>c k v. (k, v) # c), ca_invalidate = (\<lambda>c k. filter (\<lambda>(x, _). x \<noteq> k) c)\<rparr>"

lemma mem_hget2_put: "mem_hget2 (mem_hput2 db k f v) = (mem_hget2 db)(k := (mem_hget2 db k)(f := v))"
  by (auto simp: mem_hget2_def mem_hput2_def fun_eq_iff)

interpretation mem_hash: hash_server mem_hash_store
  by unfold_locales
    (auto simp: mem_hash_store_def mem_hget2_put mem_hincr2_def read_digits_show)

lemma map_of_filter_neq: "map_of (filter (\<lambda>(x, _). x \<noteq> k) c) x = (if x = k then None else map_of c x)"
  by (induction c) auto

interpretation list_cache: bounded_cache list_cache
  by unfold_locales (auto simp: list_cache_def map_of_filter_neq split: if_splits)

subsection \<open>Lemmas\<close>

lemma compute_backoff_le: "compute_backoff n kind hint p \<le> bp_max_backoff p"
  by (auto simp: compute_backoff_def Let_def split: option.splits)

lemma compute_backoff_hint: "min h (bp_max_backoff p) \<le> compute_backoff n kind (Some h) p"
  by (simp add: compute_backoff_def Let_def)

lemma read_num_show [simp]: "n \<le> mx \<Longrightarrow> read_num mx (Some (show_nat n)) = Inr (Some n)"
  by (simp add: read_num_def)

lemma read_num_None [simp]: "read_num mx None = Inr None"
  by (simp add: read_num_def)

lemma ms_after_bound: "ms_after now d \<le> U64_MAX"
proof -
  have "(now + d) div 1000000 mod 2 ^ 64 < (2 ^ 64 :: nat)" by (rule mod_less_divisor) simp
  then have "(now + d) div 1000000 mod 2 ^ 64 \<le> U64_MAX" by simp
  then show ?thesis by (auto simp only: ms_after_def Let_def split: if_split)
qed

lemma fields_distinct [simp]:
  "FIELD_FAILURES \<noteq> FIELD_BACKOFF_UNTIL" "FIELD_FAILURES \<noteq> FIELD_LAST_KIND" "FIELD_BACKOFF_UNTIL \<noteq> FIELD_LAST_KIND"
  "FIELD_BACKOFF_UNTIL \<noteq> FIELD_FAILURES" "FIELD_LAST_KIND \<noteq> FIELD_FAILURES" "FIELD_LAST_KIND \<noteq> FIELD_BACKOFF_UNTIL"
  by (simp_all add: FIELD_FAILURES_def FIELD_BACKOFF_UNTIL_def FIELD_LAST_KIND_def)

lemma round_of_nat_rat: "round_half_even (of_nat n) = int n"
  by (simp add: round_half_even_def)

lemma try_from_secs_nat: "k < 2 ^ 64 \<Longrightarrow> try_from_secs (of_nat k) = Some (k * NANOS)"
proof -
  assume k: "k < 2 ^ 64"
  have "(of_nat k :: rat) < of_nat (2 ^ 64)" using k of_nat_less_iff by blast
  moreover have "(of_nat k * of_nat NANOS :: rat) = of_nat (k * NANOS)" by simp
  ultimately show ?thesis
    using round_of_nat_rat [of "k * NANOS"] by (simp add: try_from_secs_def nat_mult_distrib)
qed

lemma try_from_secs_over: "2 ^ 64 \<le> k \<Longrightarrow> try_from_secs (of_nat k) = None"
proof -
  assume "2 ^ 64 \<le> k"
  then have "(of_nat (2 ^ 64) :: rat) \<le> of_nat k" using of_nat_le_iff by blast
  then show ?thesis by (simp add: try_from_secs_def)
qed

lemma default_secs:
  assumes "1 \<le> n" "n \<le> 2 ^ 31"
  shows "secs_of_duration (bp_initial_backoff backoff_policy_default) * backoff_scale TooManyRequests *
     f64_powi (bp_multiplier backoff_policy_default) (u32_as_i32 (n - 1)) = of_nat (30 * 2 ^ (n - 1))"
proof -
  have "u32_as_i32 (n - 1) = int (n - 1)"
    unfolding u32_as_i32_def using assms by (intro if_P) arith
  then show ?thesis
    by (simp add: secs_of_duration_def backoff_policy_default_def backoff_scale_def f64_powi_def NANOS_def)
qed

lemma default_backoff:
  assumes "1 \<le> n" "n \<le> 2 ^ 31"
  shows "compute_backoff n TooManyRequests None backoff_policy_default =
     (if n \<le> 60 then min (30 * 2 ^ (n - 1)) 600 * NANOS else 0)"
proof -
  let ?k = "30 * 2 ^ (n - 1) :: nat"
  have c: "compute_backoff n TooManyRequests None backoff_policy_default =
      min (case try_from_secs (of_nat ?k) of Some d \<Rightarrow> d | None \<Rightarrow> 0) (600 * NANOS)"
    using assms default_secs [OF assms]
    by (simp add: compute_backoff_def Let_def) (simp add: backoff_policy_default_def)
  show ?thesis
  proof (cases "n \<le> 60")
    case True
    then have "(2::nat) ^ (n - 1) \<le> 2 ^ 59" by (intro power_increasing) auto
    then have "?k < 2 ^ 64" by simp
    then have "compute_backoff n TooManyRequests None backoff_policy_default = min (?k * NANOS) (600 * NANOS)"
      unfolding c by (simp only: try_from_secs_nat option.case)
    then show ?thesis using True by (simp add: nat_mult_min_left)
  next
    case False
    then have "(2::nat) ^ 60 \<le> 2 ^ (n - 1)" by (intro power_increasing) auto
    then have "2 ^ 64 \<le> ?k" by simp
    then have "compute_backoff n TooManyRequests None backoff_policy_default = 0"
      unfolding c by (simp only: try_from_secs_over option.case)
    then show ?thesis using False by simp
  qed
qed


subsection \<open>The breaker's life cycle\<close>

definition host_field :: "('db, 'c) backoff_tracker \<Rightarrow> 'db \<Rightarrow> string \<Rightarrow> string \<Rightarrow> string option" where
  "host_field T db host f =
     hs_hget (bt_store T) db (hoststate_key (bt_run T) (shard_key_from_host (bt_sharding T) host) host) f"

text \<open>The failure count stored for a host; an absent field counts as zero.\<close>

definition failures_are :: "('db, 'c) backoff_tracker \<Rightarrow> 'db \<Rightarrow> string \<Rightarrow> nat \<Rightarrow> bool" where
  "failures_are T db host n \<longleftrightarrow>
     host_field T db host FIELD_FAILURES = None \<and> n = 0 \<or> host_field T db host FIELD_FAILURES = Some (show_nat n)"

lemma shard_key_of_host: "cu_host url = Some host \<Longrightarrow> shard_key P url = shard_key_from_host P host"
  by (simp add: shard_key_def)


context hash_server
begin

lemmas hget_upd = hget_hset hget_hdel hget_expire

lemma bt_record_failure_ok:
  assumes T: "bt_store T = H" and url: "cu_host url = Some host"
    and owned: "shard_key_from_host (bt_sharding T) host \<in> set (bt_owned T)"
    and n: "failures_are T (ts_db st) host n" "n < U32_MAX"
    and until: "until = ms_after now (compute_backoff (Suc n) kind hint (bt_backoff T))"
  shows "\<exists>st'. bt_record_failure T url kind hint now TripOk TripOk st = (Inr \<lparr>nw_host = host, nw_until_ms = until\<rparr>, st') \<and>
     host_field T (ts_db st') host FIELD_FAILURES = Some (show_nat (Suc n)) \<and>
     host_field T (ts_db st') host FIELD_BACKOFF_UNTIL = Some (show_nat until) \<and>
     ts_failing st' = ca_insert (bt_cache T) (ts_failing st) host ()"
proof -
  let ?k = "hoststate_key (bt_run T) (shard_key_from_host (bt_sharding T) host) host"
  have i: "hs_hget H (hs_hincr H (ts_db st) ?k FIELD_FAILURES) =
      (hs_hget H (ts_db st))(?k := (hs_hget H (ts_db st) ?k)(FIELD_FAILURES := Some (show_nat (Suc n))))"
    using n(1) T by (intro hget_hincr) (simp add: failures_are_def host_field_def)
  have "Suc n \<le> U32_MAX" using n(2) by simp
  then show ?thesis
    using assms(1-3) i
    by (simp add: bt_record_failure_def shard_key_of_host assert_owned_def Let_def host_field_def hget_upd until)
qed

lemma bt_is_open_ok:
  assumes T: "bt_store T = H" and owned: "shard_key_from_host (bt_sharding T) host \<in> set (bt_owned T)"
    and n: "host_field T (ts_db st) host FIELD_FAILURES = Some (show_nat n)" "n \<le> U32_MAX"
    and until: "host_field T (ts_db st) host FIELD_BACKOFF_UNTIL = Some (show_nat u)" "u \<le> U64_MAX"
  shows "fst (bt_is_open T host now TripOk st) = Inr (bp_failure_threshold (bt_backoff T) \<le> n \<and> now div 1000000 < u)"
  using assms by (auto simp: bt_is_open_def assert_owned_def Let_def host_field_def)

lemma bt_reset_ok:
  assumes T: "bt_store T = H" and owned: "shard_key_from_host (bt_sharding T) host \<in> set (bt_owned T)"
    and c: "ca_get (bt_cache T) (ts_failing st) host \<noteq> None"
  shows "\<exists>st'. bt_reset_on_success T host TripOk st = (Inr (), st') \<and>
     (\<forall>f \<in> {FIELD_FAILURES, FIELD_BACKOFF_UNTIL, FIELD_LAST_KIND}. host_field T (ts_db st') host f = None)"
  using assms by (auto simp: bt_reset_on_success_def assert_owned_def Let_def host_field_def hget_upd)

end

subsection \<open>Properties\<close>

text \<open>the backoff is never above the configured maximum, and a server's \<^verbatim>\<open>Retry-After\<close> is a
  floor as far as that maximum allows.\<close>

theorem backoff_bounds:
  "compute_backoff n kind hint p \<le> bp_max_backoff p \<and>
   (case hint of None \<Rightarrow> True | Some h \<Rightarrow> min h (bp_max_backoff p) \<le> compute_backoff n kind hint p)"
  by (auto simp: compute_backoff_le compute_backoff_hint split: option.split)

text \<open>C28: the default schedule against pushback: 30 s, 60 s, 120 s, 240 s, 480 s, then the cap of
  600 s up to the sixtieth failure in a row, and no delay at all from the sixty-first on, where
  the product no longer fits a duration and the conversion's error is read as zero.\<close>

theorem default_schedule:
  assumes "1 \<le> n" "n \<le> 2 ^ 31"
  shows "compute_backoff n TooManyRequests None backoff_policy_default =
     (if n \<le> 60 then min (30 * 2 ^ (n - 1)) 600 * NANOS else 0)"
  using assms by (rule default_backoff)

theorem default_schedule_witness:
  "compute_backoff 60 TooManyRequests None backoff_policy_default = 600 * NANOS \<and>
   compute_backoff 61 TooManyRequests None backoff_policy_default = 0"
  using default_schedule [of 60] default_schedule [of 61] by simp

text \<open>C26: the breaker's life cycle on an owned host with \<open>n\<close> recorded failures. Recording one more
  plans the host's wake-up at the end of the computed backoff; the breaker then is open exactly
  while the count has reached the threshold and that time has not come; and clearing the host on
  a later success, while the process remembers it as failing, closes the breaker.\<close>

theorem breaker_life_cycle:
  assumes "hash_server (bt_store T)" "cu_host url = Some host"
    and "shard_key_from_host (bt_sharding T) host \<in> set (bt_owned T)"
    and "failures_are T (ts_db st) host n" "n < U32_MAX"
    and "until = ms_after now (compute_backoff (Suc n) kind hint (bt_backoff T))"
    and "bt_record_failure T url kind hint now TripOk TripOk st = (r, st1)"
    and "bt_reset_on_success T host TripOk st1 = (r', st2)"
  shows "r = Inr \<lparr>nw_host = host, nw_until_ms = until\<rparr> \<and>
     failures_are T (ts_db st1) host (Suc n) \<and>
     fst (bt_is_open T host now1 TripOk st1) =
       Inr (bp_failure_threshold (bt_backoff T) \<le> Suc n \<and> now1 div 1000000 < until) \<and>
     (ca_get (bt_cache T) (ts_failing st1) host \<noteq> None \<longrightarrow>
       r' = Inr () \<and> failures_are T (ts_db st2) host 0 \<and> fst (bt_is_open T host now1 TripOk st2) = Inr False)"
proof (intro conjI impI)
  obtain st' where st': "bt_record_failure T url kind hint now TripOk TripOk st = (Inr \<lparr>nw_host = host, nw_until_ms = until\<rparr>, st')"
      "host_field T (ts_db st') host FIELD_FAILURES = Some (show_nat (Suc n))"
      "host_field T (ts_db st') host FIELD_BACKOFF_UNTIL = Some (show_nat until)"
    using hash_server.bt_record_failure_ok [OF assms(1) refl assms(2-6)] by blast
  with assms(7) have st1: "st' = st1" and r: "r = Inr \<lparr>nw_host = host, nw_until_ms = until\<rparr>" by auto
  show "r = Inr \<lparr>nw_host = host, nw_until_ms = until\<rparr>" by (rule r)
  show "failures_are T (ts_db st1) host (Suc n)" using st' st1 by (simp add: failures_are_def)
  show "fst (bt_is_open T host now1 TripOk st1) = Inr (bp_failure_threshold (bt_backoff T) \<le> Suc n \<and> now1 div 1000000 < until)"
    by (rule hash_server.bt_is_open_ok [OF assms(1) refl assms(3)])
      (use st' st1 assms(5) ms_after_bound [of now] assms(6) in auto)
  assume c: "ca_get (bt_cache T) (ts_failing st1) host \<noteq> None"
  from hash_server.bt_reset_ok [OF assms(1) refl assms(3) c] assms(8)
  have r': "r' = Inr ()" and
    f: "host_field T (ts_db st2) host FIELD_FAILURES = None" "host_field T (ts_db st2) host FIELD_BACKOFF_UNTIL = None"
    by auto
  show "r' = Inr ()" by (rule r')
  show "failures_are T (ts_db st2) host 0" using f by (simp add: failures_are_def)
  show "fst (bt_is_open T host now1 TripOk st2) = Inr False"
    using assms(3) f by (simp add: bt_is_open_def assert_owned_def Let_def host_field_def)
qed

text \<open>A breaker on the reference store, with a threshold of one failure.\<close>

definition demo_tracker :: "(mem_hash, (string \<times> unit) list) backoff_tracker" where
  "demo_tracker =
     \<lparr>bt_store = mem_hash_store, bt_cache = list_cache, bt_run = ''r'', bt_sharding = SingleShardPolicy, bt_owned = [0],
      bt_backoff = backoff_policy_default\<lparr>bp_failure_threshold := 1\<rparr>\<rparr>"

definition demo_url :: canonical_url where
  "demo_url = \<lparr>cu_str = ''http://a/'', cu_scheme = ''http'', cu_host = Some ''a'', cu_path = ''/''\<rparr>"

theorem breaker_life_cycle_witness:
  "\<exists>r st1 r' st2. bt_record_failure demo_tracker demo_url TooManyRequests None 0 TripOk TripOk
       \<lparr>ts_db = \<lparr>mh_fields = []\<rparr>, ts_failing = []\<rparr> = (r, st1) \<and>
     bt_reset_on_success demo_tracker ''a'' TripOk st1 = (r', st2) \<and>
     failures_are demo_tracker (ts_db st1) ''a'' 1 \<and> fst (bt_is_open demo_tracker ''a'' 0 TripOk st2) = Inr False"
proof -
  let ?st = "\<lparr>ts_db = \<lparr>mh_fields = []\<rparr>, ts_failing = []\<rparr> :: (mem_hash, (string \<times> unit) list) tracker_state"
  obtain r st1 where 1: "bt_record_failure demo_tracker demo_url TooManyRequests None 0 TripOk TripOk ?st = (r, st1)"
    by (metis surj_pair)
  obtain r' st2 where 2: "bt_reset_on_success demo_tracker ''a'' TripOk st1 = (r', st2)"
    by (metis surj_pair)
  have h: "hash_server (bt_store demo_tracker)" "cu_host demo_url = Some ''a''"
      "shard_key_from_host (bt_sharding demo_tracker) ''a'' \<in> set (bt_owned demo_tracker)"
      "failures_are demo_tracker (ts_db ?st) ''a'' 0" "0 < U32_MAX"
    using mem_hash.hash_server_axioms
    by (simp_all add: demo_tracker_def demo_url_def failures_are_def host_field_def mem_hash_store_def mem_hget2_def)
  from hash_server.bt_record_failure_ok [OF h(1) refl h(2-5) refl, where now=0 and kind=TooManyRequests and hint=None] 1
  have "ca_get (bt_cache demo_tracker) (ts_failing st1) ''a'' \<noteq> None"
    by (auto simp: demo_tracker_def list_cache_def)
  then show ?thesis
    using breaker_life_cycle [OF h refl 1 2, of 0] 1 2 by auto
qed

end
