(* ===== verification/Politeness_Gate.thy ===== *)
theory Politeness_Gate
  imports Politeness_Backoff
begin

text \<open>
  \<^verbatim>\<open>crawlrs-politeness/src/wake_planner.rs\<close>, \<^verbatim>\<open>noop.rs\<close>, \<^verbatim>\<open>robots.rs\<close>, \<^verbatim>\<open>robots_checker.rs\<close> and
  \<^verbatim>\<open>composite.rs\<close>: wake-up planning, the two-tier robots.txt cache and the composite gate
  built from three sub-traits. A sub-trait is a record of its methods over a state; one call
  of the gate takes the clock and what its round trips meet as an \<open>io_env\<close>. The robots parser
  (texting_robots), the hasher, the fetcher and the caches are parameters.
\<close>

subsection \<open>What a call meets\<close>

record io_env =
  io_now :: nat
  io_breaker :: trip
  io_breaker2 :: trip
  io_robots_read :: trip
  io_robots_write :: trip
  io_fetch :: "fetch_request \<Rightarrow> crawl_error + fetch_response"

subsection \<open>Wake planner\<close>

record wake_planner =
  wp_sharding :: sharding_policy
  wp_owned :: "u32 list"
  wp_config :: politeness_config
  wp_has_host_delay :: bool

definition wake_planner_new :: "sharding_policy \<Rightarrow> u32 list \<Rightarrow> politeness_config \<Rightarrow> wake_planner" where
  "wake_planner_new p owned c = \<lparr>wp_sharding = p, wp_owned = owned, wp_config = c, wp_has_host_delay = has_host_delay c\<rparr>"

definition effective_host_delay :: "wake_planner \<Rightarrow> string \<Rightarrow> duration" where
  "effective_host_delay W host =
     (case Option.bind (map_of (pc_per_domain (wp_config W)) host) po_host_delay of
        Some d \<Rightarrow> d | None \<Rightarrow> pc_host_delay (wp_config W))"

definition wake_record_fetch :: "wake_planner \<Rightarrow> string \<Rightarrow> nat \<Rightarrow> crawl_error + next_wake" where
  "wake_record_fetch W host now =
     (let shard = shard_key_from_host (wp_sharding W) host in
      case assert_owned (wp_owned W) shard of Inl e \<Rightarrow> Inl (to_error e)
      | Inr _ \<Rightarrow>
         (let delay = (if wp_has_host_delay W then effective_host_delay W host else 0)
          in Inr \<lparr>nw_host = host, nw_until_ms = ms_after now delay\<rparr>))"

subsection \<open>Robots cache\<close>

definition ROBOTS_FIELD_BODY :: string where "ROBOTS_FIELD_BODY = ''body''"
definition ROBOTS_FIELD_STATUS :: string where "ROBOTS_FIELD_STATUS = ''status''"
definition ROBOTS_STATUS_OK :: string where "ROBOTS_STATUS_OK = ''ok''"
definition ROBOTS_STATUS_ABSENT :: string where "ROBOTS_STATUS_ABSENT = ''absent''"

definition TTL_JITTER_PCT :: int where "TTL_JITTER_PCT = 20"

text \<open>Signed 64-bit arithmetic: the value a wrapping product has, and division towards zero.\<close>

definition wrap_i64 :: "int \<Rightarrow> int" where
  "wrap_i64 x = (x + 2 ^ 63) mod 2 ^ 64 - 2 ^ 63"

definition i64_div :: "int \<Rightarrow> int \<Rightarrow> int" where
  "i64_div x y = (if x < 0 then - ((- x) div y) else x div y)"

definition jittered_ttl :: "(string \<Rightarrow> u64) \<Rightarrow> duration \<Rightarrow> string \<Rightarrow> duration" where
  "jittered_ttl hash base host =
     (let band = nat TTL_JITTER_PCT * 2 + 1;
          bucket = int (hash host mod band);
          jitter_pct = bucket - TTL_JITTER_PCT;
          secs = wrap_i64 (int (base div NANOS));
          scaled = i64_div (wrap_i64 (secs * (100 + jitter_pct))) 100
      in nat (max scaled 1) * NANOS)"

text \<open>\<open>std::str::from_utf8\<close> succeeds exactly on these byte sequences.\<close>

definition utf8_cont :: "nat \<Rightarrow> bool" where
  "utf8_cont b = (128 \<le> b \<and> b < 192)"

fun utf8_ok :: "nat list \<Rightarrow> bool" where
  "utf8_ok [] = True"
| "utf8_ok (b # bs) =
     (if b < 128 then utf8_ok bs
      else if 194 \<le> b \<and> b < 224 then (case bs of c1 # cs \<Rightarrow> utf8_cont c1 \<and> utf8_ok cs | _ \<Rightarrow> False)
      else if 224 \<le> b \<and> b < 240 then
        (case bs of c1 # c2 # cs \<Rightarrow>
           utf8_cont c1 \<and> utf8_cont c2 \<and> (b = 224 \<longrightarrow> 160 \<le> c1) \<and> (b = 237 \<longrightarrow> c1 < 160) \<and> utf8_ok cs
         | _ \<Rightarrow> False)
      else if 240 \<le> b \<and> b < 245 then
        (case bs of c1 # c2 # c3 # cs \<Rightarrow>
           utf8_cont c1 \<and> utf8_cont c2 \<and> utf8_cont c3 \<and> (b = 240 \<longrightarrow> 144 \<le> c1) \<and> (b = 244 \<longrightarrow> c1 < 144) \<and> utf8_ok cs
         | _ \<Rightarrow> False)
      else False)"

definition from_utf8 :: "string \<Rightarrow> string option" where
  "from_utf8 bytes = (if utf8_ok (map of_char bytes) then Some bytes else None)"

text \<open>\<open>robot ua body\<close> is the parsed file for one agent (its \<open>allowed\<close>), or \<open>None\<close> when it does
  not parse.\<close>

type_synonym robot_parser = "string \<Rightarrow> string \<Rightarrow> (string \<Rightarrow> bool) option"

definition evaluate_rules :: "robot_parser \<Rightarrow> string \<Rightarrow> string \<Rightarrow> string \<Rightarrow> bool" where
  "evaluate_rules robot body user_agent url =
     (if body = [] then True
      else case from_utf8 body of None \<Rightarrow> True
        | Some body_str \<Rightarrow> (case robot user_agent body_str of Some allowed \<Rightarrow> allowed url | None \<Rightarrow> True))"

datatype wire_value = BulkString string | SimpleString string | WireNil | WireOther string

fun value_into_bytes :: "wire_value \<Rightarrow> politeness_error + string" where
  "value_into_bytes (BulkString b) = Inr b"
| "value_into_bytes (SimpleString s) = Inr s"
| "value_into_bytes WireNil = Inr []"
| "value_into_bytes (WireOther d) = Inl (PRobots (''expected BulkString for robots body, got '' @ d))"

record ('u, 'db, 'c) robots_cache =
  rb_url :: "'u url_ops"
  rb_store :: "'db hash_store"
  rb_cache :: "('c, string) cache"
  rb_run :: run_id
  rb_sharding :: sharding_policy
  rb_parser :: robot_parser
  rb_hash :: "string \<Rightarrow> u64"
  rb_user_agent :: string
  rb_ttl :: duration
  rb_fetch_timeout :: duration

record ('db, 'c) robots_state =
  rs_db :: 'db
  rs_in_process :: 'c

definition read_cache ::
  "('u, 'db, 'c) robots_cache \<Rightarrow> string \<Rightarrow> canonical_url \<Rightarrow> io_env \<Rightarrow> 'db \<Rightarrow> politeness_error + string option" where
  "read_cache R host source_url env db =
     (let shard = shard_key (rb_sharding R) source_url;
          key = robots_key (rb_run R) shard host
      in case round_trip (io_robots_read env) (\<lambda>db. db) db of (Inl e, _) \<Rightarrow> Inl e
         | (Inr _, _) \<Rightarrow>
            (let status = hs_hget (rb_store R) db key ROBOTS_FIELD_STATUS;
                 raw = map_option BulkString (hs_hget (rb_store R) db key ROBOTS_FIELD_BODY)
             in case status of
                  Some s \<Rightarrow>
                    if s = ROBOTS_STATUS_OK then
                      (case raw of None \<Rightarrow> Inr None
                       | Some v \<Rightarrow> (case value_into_bytes v of Inl e \<Rightarrow> Inl e | Inr b \<Rightarrow> Inr (Some b)))
                    else if s = ROBOTS_STATUS_ABSENT then Inr (Some [])
                    else Inr None
                | None \<Rightarrow> Inr None))"

definition write_cache ::
  "('u, 'db, 'c) robots_cache \<Rightarrow> string \<Rightarrow> canonical_url \<Rightarrow> string option \<Rightarrow> io_env \<Rightarrow> 'db \<Rightarrow>
   (politeness_error + unit) \<times> 'db" where
  "write_cache R host source_url body env db =
     (let shard = shard_key (rb_sharding R) source_url;
          key = robots_key (rb_run R) shard host;
          ttl_secs = int (jittered_ttl (rb_hash R) (rb_ttl R) host div NANOS);
          S = rb_store R
      in case body of
           Some b \<Rightarrow> round_trip (io_robots_write env)
             (\<lambda>db. hs_expire S (hs_hset S (hs_hset S db key ROBOTS_FIELD_STATUS ROBOTS_STATUS_OK) key ROBOTS_FIELD_BODY b)
                     key ttl_secs) db
         | None \<Rightarrow> round_trip (io_robots_write env)
             (\<lambda>db. hs_expire S (hs_hdel S (hs_hset S db key ROBOTS_FIELD_STATUS ROBOTS_STATUS_ABSENT) key ROBOTS_FIELD_BODY)
                     key ttl_secs) db)"

definition cached_as :: "string \<Rightarrow> (politeness_error + unit) \<times> 'db \<Rightarrow> (politeness_error + string) \<times> 'db" where
  "cached_as body w = (case w of (Inl e, db) \<Rightarrow> (Inl e, db) | (Inr _, db) \<Rightarrow> (Inr body, db))"

definition fetch_and_cache ::
  "('u, 'db, 'c) robots_cache \<Rightarrow> string \<Rightarrow> canonical_url \<Rightarrow> io_env \<Rightarrow> 'db \<Rightarrow> (politeness_error + string) \<times> 'db" where
  "fetch_and_cache R host source_url env db =
     (let robots_url_str = cu_scheme source_url @ ''://'' @ host @ ''/robots.txt'' in
      case url_parse (rb_url R) robots_url_str of
        Inl e \<Rightarrow> (Inl (PRobots (''invalid robots url '' @ robots_url_str @ '': '' @ show_url_error e)), db)
      | Inr robots_url \<Rightarrow>
         (let req = (fetch_request_new (view_of (rb_url R) robots_url))\<lparr>fq_timeout := rb_fetch_timeout R\<rparr> in
          case io_fetch env req of
            Inl e \<Rightarrow> cached_as [] (write_cache R host source_url None env db)
          | Inr resp \<Rightarrow>
              if fr_status resp = 200 then
                cached_as (fr_body resp) (write_cache R host source_url (Some (fr_body resp)) env db)
              else cached_as [] (write_cache R host source_url None env db)))"

definition body_for ::
  "('u, 'db, 'c) robots_cache \<Rightarrow> string \<Rightarrow> canonical_url \<Rightarrow> io_env \<Rightarrow> ('db, 'c) robots_state \<Rightarrow>
   (politeness_error + string) \<times> ('db, 'c) robots_state" where
  "body_for R host source_url env st =
     (case ca_get (rb_cache R) (rs_in_process st) host of
        Some cached \<Rightarrow> (Inr cached, st)
      | None \<Rightarrow>
         (case read_cache R host source_url env (rs_db st) of
            Inl e \<Rightarrow> (Inl e, st)
          | Inr (Some redis_cached) \<Rightarrow>
              (Inr redis_cached, st\<lparr>rs_in_process := ca_insert (rb_cache R) (rs_in_process st) host redis_cached\<rparr>)
          | Inr None \<Rightarrow>
             (case fetch_and_cache R host source_url env (rs_db st) of
                (Inl e, db) \<Rightarrow> (Inl e, st\<lparr>rs_db := db\<rparr>)
              | (Inr body, db) \<Rightarrow>
                  (Inr body, st\<lparr>rs_db := db, rs_in_process := ca_insert (rb_cache R) (rs_in_process st) host body\<rparr>))))"

definition robots_allowed ::
  "('u, 'db, 'c) robots_cache \<Rightarrow> canonical_url \<Rightarrow> string \<Rightarrow> io_env \<Rightarrow> ('db, 'c) robots_state \<Rightarrow>
   (politeness_error + bool) \<times> ('db, 'c) robots_state" where
  "robots_allowed R url user_agent env st =
     (case cu_host url of None \<Rightarrow> (Inr True, st)
      | Some host \<Rightarrow>
         (case body_for R host url env st of
            (Inl e, st) \<Rightarrow> (Inl e, st)
          | (Inr body, st) \<Rightarrow> (Inr (evaluate_rules (rb_parser R) body user_agent (cu_str url)), st)))"


subsection \<open>The sub-traits and the composite\<close>

datatype disallow_reason = DisallowRobots | DisallowCircuit
datatype polite_decision = Allow | Disallow disallow_reason

record 's polite_parts =
  pp_record_fetch :: "string \<Rightarrow> io_env \<Rightarrow> 's \<Rightarrow> (crawl_error + next_wake) \<times> 's"
  pp_allowed :: "canonical_url \<Rightarrow> io_env \<Rightarrow> 's \<Rightarrow> (crawl_error + bool) \<times> 's"
  pp_is_open :: "string \<Rightarrow> io_env \<Rightarrow> 's \<Rightarrow> (crawl_error + bool) \<times> 's"
  pp_record_failure ::
    "canonical_url \<Rightarrow> failure_kind \<Rightarrow> duration option \<Rightarrow> io_env \<Rightarrow> 's \<Rightarrow> (crawl_error + next_wake) \<times> 's"
  pp_reset_on_success :: "string \<Rightarrow> io_env \<Rightarrow> 's \<Rightarrow> (crawl_error + unit) \<times> 's"

definition noop_record_fetch :: "string \<Rightarrow> io_env \<Rightarrow> 's \<Rightarrow> (crawl_error + next_wake) \<times> 's" where
  "noop_record_fetch host env st = (Inr \<lparr>nw_host = host, nw_until_ms = ms_after (io_now env) 0\<rparr>, st)"

definition noop_allowed :: "canonical_url \<Rightarrow> io_env \<Rightarrow> 's \<Rightarrow> (crawl_error + bool) \<times> 's" where
  "noop_allowed url env st = (Inr True, st)"

definition noop_is_open :: "string \<Rightarrow> io_env \<Rightarrow> 's \<Rightarrow> (crawl_error + bool) \<times> 's" where
  "noop_is_open host env st = (Inr False, st)"

definition noop_record_failure ::
  "canonical_url \<Rightarrow> failure_kind \<Rightarrow> duration option \<Rightarrow> io_env \<Rightarrow> 's \<Rightarrow> (crawl_error + next_wake) \<times> 's" where
  "noop_record_failure url kind hint env st =
     (Inr \<lparr>nw_host = (case cu_host url of Some h \<Rightarrow> h | None \<Rightarrow> []), nw_until_ms = ms_after (io_now env) 0\<rparr>, st)"

definition default_reset_on_success :: "string \<Rightarrow> io_env \<Rightarrow> 's \<Rightarrow> (crawl_error + unit) \<times> 's" where
  "default_reset_on_success host env st = (Inr (), st)"

definition noop_parts :: "'s polite_parts" where
  "noop_parts =
     \<lparr>pp_record_fetch = noop_record_fetch, pp_allowed = noop_allowed, pp_is_open = noop_is_open,
      pp_record_failure = noop_record_failure, pp_reset_on_success = default_reset_on_success\<rparr>"

record 's composite_politeness =
  cp_parts :: "'s polite_parts"
  cp_config :: politeness_config

definition from_parts :: "'s polite_parts \<Rightarrow> politeness_config \<Rightarrow> 's composite_politeness" where
  "from_parts parts c = \<lparr>cp_parts = parts, cp_config = c\<rparr>"

definition effective_obey_robots :: "'s composite_politeness \<Rightarrow> string \<Rightarrow> bool" where
  "effective_obey_robots P host =
     (case Option.bind (map_of (pc_per_domain (cp_config P)) host) po_obey_robots_txt of
        Some b \<Rightarrow> b | None \<Rightarrow> pc_obey_robots_txt (cp_config P))"

definition polite_check ::
  "'s composite_politeness \<Rightarrow> canonical_url \<Rightarrow> io_env \<Rightarrow> 's \<Rightarrow> (crawl_error + polite_decision) \<times> 's" where
  "polite_check P url env st =
     (case cu_host url of None \<Rightarrow> (Inl (to_error (NoHost (cu_str url))), st)
      | Some host \<Rightarrow>
         (case pp_is_open (cp_parts P) host env st of
            (Inl e, st) \<Rightarrow> (Inl e, st)
          | (Inr True, st) \<Rightarrow> (Inr (Disallow DisallowCircuit), st)
          | (Inr False, st) \<Rightarrow>
             (if effective_obey_robots P host then
                (case pp_allowed (cp_parts P) url env st of
                   (Inl e, st) \<Rightarrow> (Inl e, st)
                 | (Inr False, st) \<Rightarrow> (Inr (Disallow DisallowRobots), st)
                 | (Inr True, st) \<Rightarrow> (Inr Allow, st))
              else (Inr Allow, st))))"

definition polite_record_fetch ::
  "'s composite_politeness \<Rightarrow> canonical_url \<Rightarrow> io_env \<Rightarrow> 's \<Rightarrow> (crawl_error + next_wake) \<times> 's" where
  "polite_record_fetch P url env st =
     (case cu_host url of None \<Rightarrow> (Inl (to_error (NoHost (cu_str url))), st)
      | Some host \<Rightarrow>
         (case pp_reset_on_success (cp_parts P) host env st of
            (Inl e, st) \<Rightarrow> (Inl e, st)
          | (Inr _, st) \<Rightarrow> pp_record_fetch (cp_parts P) host env st))"

definition polite_record_failure ::
  "'s composite_politeness \<Rightarrow> canonical_url \<Rightarrow> failure_kind \<Rightarrow> duration option \<Rightarrow> io_env \<Rightarrow> 's \<Rightarrow>
   (crawl_error + next_wake) \<times> 's" where
  "polite_record_failure P url kind retry_after env st = pp_record_failure (cp_parts P) url kind retry_after env st"

subsection \<open>The production wiring\<close>

text \<open>The state behind a Redis-backed composite: one Redis, the breaker's memory and the robots
  cache of the process.\<close>

record ('db, 'c, 'r) gate_state =
  gs_db :: 'db
  gs_failing :: 'c
  gs_robots :: 'r

definition on_tracker ::
  "(('db, 'c) tracker_state \<Rightarrow> 'a \<times> ('db, 'c) tracker_state) \<Rightarrow> ('db, 'c, 'r) gate_state \<Rightarrow> 'a \<times> ('db, 'c, 'r) gate_state" where
  "on_tracker f g =
     (case f \<lparr>ts_db = gs_db g, ts_failing = gs_failing g\<rparr> of
        (a, t) \<Rightarrow> (a, g\<lparr>gs_db := ts_db t, gs_failing := ts_failing t\<rparr>))"

definition checker_allowed ::
  "('u, 'db, 'r) robots_cache \<Rightarrow> string \<Rightarrow> canonical_url \<Rightarrow> io_env \<Rightarrow> ('db, 'c, 'r) gate_state \<Rightarrow>
   (crawl_error + bool) \<times> ('db, 'c, 'r) gate_state" where
  "checker_allowed R user_agent url env g =
     (case robots_allowed R url user_agent env \<lparr>rs_db = gs_db g, rs_in_process = gs_robots g\<rparr> of
        (r, s) \<Rightarrow> ((case r of Inl e \<Rightarrow> Inl (to_error e) | Inr b \<Rightarrow> Inr b), g\<lparr>gs_db := rs_db s, gs_robots := rs_in_process s\<rparr>))"

text \<open>What the composite is wired from besides its configuration.\<close>

record ('u, 'db, 'c, 'r) gate_backends =
  gb_url :: "'u url_ops"
  gb_store :: "'db hash_store"
  gb_failing :: "('c, unit) cache"
  gb_robots :: "('r, string) cache"
  gb_parser :: robot_parser
  gb_hash :: "string \<Rightarrow> u64"

definition robots_of ::
  "('u, 'db, 'c, 'r) gate_backends \<Rightarrow> sharding_policy \<Rightarrow> run_id \<Rightarrow> politeness_config \<Rightarrow> ('u, 'db, 'r) robots_cache" where
  "robots_of B p run c =
     \<lparr>rb_url = gb_url B, rb_store = gb_store B, rb_cache = gb_robots B, rb_run = run, rb_sharding = p,
      rb_parser = gb_parser B, rb_hash = gb_hash B, rb_user_agent = pc_user_agent c, rb_ttl = pc_robots_ttl c,
      rb_fetch_timeout = 15 * NANOS\<rparr>"

definition tracker_of ::
  "('u, 'db, 'c, 'r) gate_backends \<Rightarrow> sharding_policy \<Rightarrow> u32 list \<Rightarrow> run_id \<Rightarrow> politeness_config \<Rightarrow> ('db, 'c) backoff_tracker" where
  "tracker_of B p owned run c =
     \<lparr>bt_store = gb_store B, bt_cache = gb_failing B, bt_run = run, bt_sharding = p, bt_owned = owned,
      bt_backoff = pc_backoff c\<rparr>"

definition redis_parts ::
  "('u, 'db, 'c, 'r) gate_backends \<Rightarrow> sharding_policy \<Rightarrow> u32 list \<Rightarrow> run_id \<Rightarrow> politeness_config \<Rightarrow>
   ('db, 'c, 'r) gate_state polite_parts" where
  "redis_parts B p owned run c =
     (let W = wake_planner_new p owned c; R = robots_of B p run c; T = tracker_of B p owned run c in
      \<lparr>pp_record_fetch = (\<lambda>host env g. (wake_record_fetch W host (io_now env), g)),
       pp_allowed = checker_allowed R (pc_user_agent c),
       pp_is_open = (\<lambda>host env. on_tracker (bt_is_open T host (io_now env) (io_breaker env))),
       pp_record_failure =
         (\<lambda>url kind hint env. on_tracker (bt_record_failure T url kind hint (io_now env) (io_breaker env) (io_breaker2 env))),
       pp_reset_on_success = (\<lambda>host env. on_tracker (bt_reset_on_success T host (io_breaker env)))\<rparr>)"

definition composite_new ::
  "('u, 'db, 'c, 'r) gate_backends \<Rightarrow> sharding_policy \<Rightarrow> u32 list \<Rightarrow> run_id \<Rightarrow> politeness_config \<Rightarrow>
   crawl_error + ('db, 'c, 'r) gate_state composite_politeness" where
  "composite_new B p owned run c =
     (case List.find (\<lambda>shard. shard \<ge> shard_count p) owned of
        Some shard \<Rightarrow> Inl (to_error (ShardOutOfRange shard (shard_count p)))
      | None \<Rightarrow> Inr (from_parts (redis_parts B p owned run c) c))"


subsection \<open>Lemmas\<close>

lemma robots_key_inject:
  "robots_key run s h = robots_key run s' h' \<longleftrightarrow> s = s' \<and> h = h'"
  using digits_then_sep [of s "CHR '':''" "''robots:'' @ h" s' "''robots:'' @ h'"] by (auto simp: robots_key_def)

lemma hoststate_not_robots: "hoststate_key run s h \<noteq> robots_key run s' h'"
  using digits_then_sep [of s "CHR '':''" "''hoststate:'' @ h" s' "''robots:'' @ h'"]
  by (auto simp: robots_key_def hoststate_key_def)

lemma robots_consts [simp]:
  "ROBOTS_FIELD_BODY \<noteq> ROBOTS_FIELD_STATUS" "ROBOTS_FIELD_STATUS \<noteq> ROBOTS_FIELD_BODY"
  "ROBOTS_STATUS_ABSENT \<noteq> ROBOTS_STATUS_OK"
  by (simp_all add: ROBOTS_FIELD_BODY_def ROBOTS_FIELD_STATUS_def ROBOTS_STATUS_ABSENT_def ROBOTS_STATUS_OK_def)

lemma effective_delay_zero: "\<not> has_host_delay c \<Longrightarrow> effective_host_delay (wake_planner_new p owned c) host = 0"
  by (fastforce simp: has_host_delay_def effective_host_delay_def wake_planner_new_def list_ex_iff
      split: option.splits if_splits Option.bind_splits dest: map_of_SomeD)

lemma wrap_i64_id: "- (2 ^ 63) \<le> x \<Longrightarrow> x < 2 ^ 63 \<Longrightarrow> wrap_i64 x = x"
  by (simp add: wrap_i64_def)

text \<open>The body a Redis entry stands for: \<open>None\<close> when there is no usable entry.\<close>

definition entry_body :: "('u, 'db, 'c) robots_cache \<Rightarrow> 'db \<Rightarrow> u32 \<Rightarrow> string \<Rightarrow> string option" where
  "entry_body R db shard host =
     (let key = robots_key (rb_run R) shard host; status = hs_hget (rb_store R) db key ROBOTS_FIELD_STATUS in
      if status = Some ROBOTS_STATUS_OK then hs_hget (rb_store R) db key ROBOTS_FIELD_BODY
      else if status = Some ROBOTS_STATUS_ABSENT then Some []
      else None)"

lemma read_cache_entry:
  "read_cache R host url env db =
     (case round_trip (io_robots_read env) (\<lambda>db. db) db of (Inl e, _) \<Rightarrow> Inl e
      | _ \<Rightarrow> Inr (entry_body R db (shard_key (rb_sharding R) url) host))"
  by (auto simp: read_cache_def entry_body_def Let_def split: option.splits sum.splits prod.splits if_splits)

text \<open>Both tiers stand for the same body \<open>b\<close> of \<open>host\<close>.\<close>

definition robots_known :: "('u, 'db, 'c) robots_cache \<Rightarrow> string \<Rightarrow> string \<Rightarrow> ('db, 'c) robots_state \<Rightarrow> bool" where
  "robots_known R host b st \<longleftrightarrow>
     entry_body R (rs_db st) (shard_key_from_host (rb_sharding R) host) host = Some b \<and>
     ca_get (rb_cache R) (rs_in_process st) host \<in> {None, Some b}"

context hash_server
begin

lemma write_cache_store:
  assumes R: "rb_store R = H" and w: "write_cache R host url body env db = (r, db')"
  shows "db' = db \<and> r \<noteq> Inr () \<or> hs_hget H db' =
     (hs_hget H db)(robots_key (rb_run R) (shard_key (rb_sharding R) url) host :=
        (hs_hget H db (robots_key (rb_run R) (shard_key (rb_sharding R) url) host))
          (ROBOTS_FIELD_STATUS := Some (if body = None then ROBOTS_STATUS_ABSENT else ROBOTS_STATUS_OK), ROBOTS_FIELD_BODY := body))"
  using w by (cases "io_robots_write env"; cases body) (auto simp: write_cache_def R Let_def hget_upd)

lemma write_cache_entry:
  assumes R: "rb_store R = H" and w: "write_cache R host url body env db = (Inr (), db')"
  shows "entry_body R db' (shard_key (rb_sharding R) url) host = Some (case body of Some b \<Rightarrow> b | None \<Rightarrow> [])"
  using write_cache_store [OF R w] by (cases body) (simp_all add: entry_body_def R)

lemma write_cache_other:
  assumes R: "rb_store R = H" and w: "write_cache R host url body env db = (r, db')" and h: "h \<noteq> host"
  shows "entry_body R db' s h = entry_body R db s h"
  using write_cache_store [OF R w]
proof
  assume "hs_hget H db' =
     (hs_hget H db)(robots_key (rb_run R) (shard_key (rb_sharding R) url) host :=
        (hs_hget H db (robots_key (rb_run R) (shard_key (rb_sharding R) url) host))
          (ROBOTS_FIELD_STATUS := Some (if body = None then ROBOTS_STATUS_ABSENT else ROBOTS_STATUS_OK), ROBOTS_FIELD_BODY := body))"
  then have "hs_hget H db' (robots_key (rb_run R) s h) = hs_hget H db (robots_key (rb_run R) s h)"
    using h by (simp add: robots_key_inject)
  then show ?thesis by (simp add: entry_body_def R Let_def)
qed simp

lemma fetch_and_cache_cases:
  assumes "fetch_and_cache R host url env db = (r, db')"
  obtains (bad) e where "r = Inl e" "db' = db"
  | (wrote) body w where "write_cache R host url body env db = (w, db')"
      "r = (case w of Inl e \<Rightarrow> Inl e | Inr _ \<Rightarrow> Inr (case body of Some b \<Rightarrow> b | None \<Rightarrow> []))"
proof (cases "url_parse (rb_url R) (cu_scheme url @ ''://'' @ host @ ''/robots.txt'')")
  case (Inl e)
  then show ?thesis using assms by (intro bad) (auto simp: fetch_and_cache_def)
next
  case (Inr u)
  let ?w = "\<lambda>b. write_cache R host url b env db"
  have "\<exists>body. (r, db') = cached_as (case body of Some b \<Rightarrow> b | None \<Rightarrow> []) (?w body)"
  proof (cases "io_fetch env ((fetch_request_new (view_of (rb_url R) u))\<lparr>fq_timeout := rb_fetch_timeout R\<rparr>)")
    case e: (Inl a)
    then show ?thesis using assms Inr by (intro exI [of _ None]) (simp add: fetch_and_cache_def)
  next
    case resp: (Inr resp)
    then show ?thesis
      using assms Inr
      by (intro exI [of _ "if fr_status resp = 200 then Some (fr_body resp) else None"])
        (simp add: fetch_and_cache_def split: if_splits)
  qed
  then obtain body where b: "(r, db') = cached_as (case body of Some b \<Rightarrow> b | None \<Rightarrow> []) (?w body)" by blast
  obtain w d where wd: "?w body = (w, d)" by (metis surj_pair)
  with b have d: "d = db'" and r: "r = (case w of Inl e \<Rightarrow> Inl e | Inr _ \<Rightarrow> Inr (case body of Some b \<Rightarrow> b | None \<Rightarrow> []))"
    by (auto simp: cached_as_def split: sum.splits)
  show ?thesis using wrote [OF wd [unfolded d] r] .
qed

lemma fetch_and_cache_known:
  assumes R: "rb_store R = H" and f: "fetch_and_cache R host url env db = (Inr b, db')"
  shows "entry_body R db' (shard_key (rb_sharding R) url) host = Some b"
  using f by (rule fetch_and_cache_cases) (auto split: sum.splits dest: write_cache_entry [OF R])

lemma fetch_and_cache_other:
  assumes R: "rb_store R = H" and f: "fetch_and_cache R host url env db = (r, db')" and h: "h \<noteq> host"
  shows "entry_body R db' s h = entry_body R db s h"
  using f by (rule fetch_and_cache_cases) (auto dest: write_cache_other [OF R _ h])

lemma body_for_cases:
  assumes call: "body_for R host url env st = (r, st')"
  obtains (hit) c where "ca_get (rb_cache R) (rs_in_process st) host = Some c" "r = Inr c" "st' = st"
  | (err) e where "ca_get (rb_cache R) (rs_in_process st) host = None" "r = Inl e" "st' = st"
  | (redis) b where "ca_get (rb_cache R) (rs_in_process st) host = None"
      "entry_body R (rs_db st) (shard_key (rb_sharding R) url) host = Some b" "r = Inr b"
      "st' = st\<lparr>rs_in_process := ca_insert (rb_cache R) (rs_in_process st) host b\<rparr>"
  | (network) db where "ca_get (rb_cache R) (rs_in_process st) host = None"
      "entry_body R (rs_db st) (shard_key (rb_sharding R) url) host = None"
      "fetch_and_cache R host url env (rs_db st) = (r, db)"
      "st' = (case r of Inl _ \<Rightarrow> st\<lparr>rs_db := db\<rparr>
         | Inr b \<Rightarrow> st\<lparr>rs_db := db, rs_in_process := ca_insert (rb_cache R) (rs_in_process st) host b\<rparr>)"
proof (cases "ca_get (rb_cache R) (rs_in_process st) host")
  case (Some c)
  show ?thesis by (rule hit [OF Some]) (use call Some in \<open>auto simp: body_for_def\<close>)
next
  case None
  show ?thesis
  proof (cases "round_trip (io_robots_read env) (\<lambda>db. db) (rs_db st)")
    case (Pair q d)
    show ?thesis
    proof (cases q)
      case (Inl e)
      show ?thesis by (rule err [OF None, of e]) (use call None Pair Inl in \<open>auto simp: body_for_def read_cache_entry\<close>)
    next
      case (Inr u)
      show ?thesis
      proof (cases "entry_body R (rs_db st) (shard_key (rb_sharding R) url) host")
        case e: None
        obtain f db where f: "fetch_and_cache R host url env (rs_db st) = (f, db)" by (metis surj_pair)
        show ?thesis
        proof (cases f)
          case (Inl x)
          show ?thesis
            by (rule network [OF None e, of db]) (use call None Pair Inr e f Inl in \<open>auto simp: body_for_def read_cache_entry\<close>)
        next
          case b: (Inr x)
          show ?thesis
            by (rule network [OF None e, of db]) (use call None Pair Inr e f b in \<open>auto simp: body_for_def read_cache_entry\<close>)
        qed
      next
        case (Some b)
        show ?thesis
          by (rule redis [OF None Some]) (use call None Pair Inr Some in \<open>auto simp: body_for_def read_cache_entry\<close>)
      qed
    qed
  qed
qed

lemma cache_insert_same: "bounded_cache C \<Longrightarrow> ca_get C (ca_insert C c host b) host \<in> {None, Some b}"
  using bounded_cache.get_insert [of C c host b host] by (cases "ca_get C (ca_insert C c host b) host") auto

lemma cache_insert_other:
  "bounded_cache C \<Longrightarrow> h \<noteq> host \<Longrightarrow> ca_get C (ca_insert C c host v) h \<in> {None, ca_get C c h}"
  using bounded_cache.get_insert [of C c host v h] by (cases "ca_get C (ca_insert C c host v) h") auto

lemma body_for_known:
  assumes R: "rb_store R = H" and C: "bounded_cache (rb_cache R)" and url: "cu_host url = Some host"
    and call: "body_for R host url env st = (Inr b, st')"
    and k: "ca_get (rb_cache R) (rs_in_process st) host = None \<or> robots_known R host b' st"
  shows "robots_known R host b st'"
  using call
proof (cases rule: body_for_cases)
  case (network db)
  then show ?thesis
    using fetch_and_cache_known [OF R network(3)] cache_insert_same [OF C]
    by (simp add: robots_known_def shard_key_of_host [OF url])
qed (use k cache_insert_same [OF C] in \<open>auto simp: robots_known_def shard_key_of_host [OF url]\<close>)

lemma body_for_other:
  assumes R: "rb_store R = H" and C: "bounded_cache (rb_cache R)" and h: "h \<noteq> host" and k: "robots_known R h b st"
    and call: "body_for R host url env st = (r, st')"
  shows "robots_known R h b st'"
  using call
proof (cases rule: body_for_cases)
  case (redis b')
  then show ?thesis using cache_insert_other [OF C h, of "rs_in_process st" b'] k by (auto simp: robots_known_def)
next
  case (network db)
  then show ?thesis
    using fetch_and_cache_other [OF R network(3) h] cache_insert_other [OF C h, of "rs_in_process st"] k
    by (cases r) (force simp: robots_known_def)+
qed (use k in simp_all)

lemma body_for_hit:
  assumes k: "robots_known R host b st" and url: "cu_host url = Some host"
    and call: "body_for R host url env st = (r, st')"
  shows "r = Inr b \<or> (\<exists>e. r = Inl e) \<and> st' = st"
  using call by (cases rule: body_for_cases) (use k in \<open>auto simp: robots_known_def shard_key_of_host [OF url]\<close>)

end

text \<open>A run of the checker: each call has its URL, its agent and what its round trips meet.\<close>

fun robots_calls ::
  "('u, 'db, 'c) robots_cache \<Rightarrow> (canonical_url \<times> string \<times> io_env) list \<Rightarrow> ('db, 'c) robots_state \<Rightarrow>
   (politeness_error + bool) list" where
  "robots_calls R [] st = []"
| "robots_calls R ((url, ua, env) # calls) st =
     (case robots_allowed R url ua env st of (r, st') \<Rightarrow> r # robots_calls R calls st')"

lemma robots_allowed_known:
  assumes H: "hash_server (rb_store R)" and C: "bounded_cache (rb_cache R)" and k: "robots_known R host b st"
    and call: "robots_allowed R url ua env st = (r, st')"
  shows "robots_known R host b st' \<and>
     (cu_host url = Some host \<longrightarrow> r = Inr (evaluate_rules (rb_parser R) b ua (cu_str url)) \<or> (\<exists>e. r = Inl e))"
proof (cases "cu_host url")
  case None
  then show ?thesis using call k by (auto simp: robots_allowed_def)
next
  case (Some h)
  obtain q s where q: "body_for R h url env st = (q, s)" by (metis surj_pair)
  have s: "s = st'" and r: "r = (case q of Inl e \<Rightarrow> Inl e | Inr b \<Rightarrow> Inr (evaluate_rules (rb_parser R) b ua (cu_str url)))"
    using call Some q by (auto simp: robots_allowed_def split: sum.splits)
  show ?thesis
  proof (cases "h = host")
    case True
    then have url: "cu_host url = Some host" and q': "body_for R host url env st = (q, st')" using Some q s by auto
    from hash_server.body_for_hit [OF H k url q'] consider "q = Inr b" | e where "q = Inl e" "st' = st" by blast
    then show ?thesis
    proof cases
      case 1
      then show ?thesis
        using hash_server.body_for_known [OF H refl C url q' [unfolded 1] disjI2, OF k] r by simp
    next
      case 2
      then show ?thesis using k r by simp
    qed
  next
    case False
    then show ?thesis using hash_server.body_for_other [OF H refl C _ k q] s Some by auto
  qed
qed


lemma redis_parts_sel:
  "pp_is_open (redis_parts B p owned run c) =
     (\<lambda>host env. on_tracker (bt_is_open (tracker_of B p owned run c) host (io_now env) (io_breaker env)))"
  "pp_record_failure (redis_parts B p owned run c) =
     (\<lambda>url kind hint env. on_tracker (bt_record_failure (tracker_of B p owned run c) url kind hint (io_now env)
        (io_breaker env) (io_breaker2 env)))"
  by (simp_all add: redis_parts_def Let_def)

lemma tracker_of_sel [simp]:
  "bt_store (tracker_of B p owned run c) = gb_store B" "bt_sharding (tracker_of B p owned run c) = p"
  "bt_owned (tracker_of B p owned run c) = owned" "bt_backoff (tracker_of B p owned run c) = pc_backoff c"
  by (simp_all add: tracker_of_def)

subsection \<open>Properties\<close>


text \<open>the cache fails open. When neither tier knows the host and the store works, a failed
  download or any status but 200 gives permission and records the host as having no rules.\<close>

theorem robots_fail_open:
  assumes "hash_server (rb_store R)" "bounded_cache (rb_cache R)" "cu_host url = Some host"
    and "ca_get (rb_cache R) (rs_in_process st) host = None"
    and "entry_body R (rs_db st) (shard_key (rb_sharding R) url) host = None"
    and "io_robots_read env = TripOk" "io_robots_write env = TripOk"
    and "url_parse (rb_url R) (cu_scheme url @ ''://'' @ host @ ''/robots.txt'') = Inr ru"
    and "\<And>req resp. io_fetch env req = Inr resp \<Longrightarrow> fr_status resp \<noteq> 200"
  shows "\<exists>st'. robots_allowed R url ua env st = (Inr True, st') \<and> robots_known R host [] st'"
proof -
  obtain db where w: "write_cache R host url None env (rs_db st) = (Inr (), db)"
    using assms(7) by (simp add: write_cache_def Let_def)
  have "fetch_and_cache R host url env (rs_db st) = (Inr [], db)"
    using assms(8,9) w by (simp add: fetch_and_cache_def cached_as_def split: sum.split)
  then have b: "body_for R host url env st =
      (Inr [], st\<lparr>rs_db := db, rs_in_process := ca_insert (rb_cache R) (rs_in_process st) host []\<rparr>)"
    using assms(4-6) by (simp add: body_for_def read_cache_entry)
  with hash_server.body_for_known [OF assms(1) refl assms(2,3) b] assms(3,4) show ?thesis
    by (simp add: robots_allowed_def evaluate_rules_def)
qed

text \<open>the short cut of the planner changes no plan: with or without it, an owned host is
  planned at its own delay, the override's or else the global one, from now.\<close>

theorem wake_plan_is_host_delay:
  assumes "shard_key_from_host p host \<in> set owned"
  shows "wake_record_fetch (wake_planner_new p owned c) host now =
    Inr \<lparr>nw_host = host, nw_until_ms = ms_after now (effective_host_delay (wake_planner_new p owned c) host)\<rparr>"
proof -
  have s: "wp_sharding (wake_planner_new p owned c) = p" "wp_owned (wake_planner_new p owned c) = owned"
      "wp_has_host_delay (wake_planner_new p owned c) = has_host_delay c"
    by (simp_all add: wake_planner_new_def)
  show ?thesis
    using assms by (simp add: wake_record_fetch_def s assert_owned_def effective_delay_zero)
qed

theorem wake_plan_is_host_delay_witness:
  "wake_record_fetch (wake_planner_new SingleShardPolicy [0] politeness_config_default) ''a'' 0 =
     Inr \<lparr>nw_host = ''a'', nw_until_ms = 1000\<rparr>"
  using wake_plan_is_host_delay [of SingleShardPolicy "''a''" "[0]" politeness_config_default 0]
  by (simp add: effective_host_delay_def wake_planner_new_def politeness_config_default_def ms_after_def NANOS_def)

text \<open>a host's robots entry lives between 80 and 120 percent of the configured time, and never
  less than a second.\<close>

theorem jittered_ttl_band:
  assumes "base div NANOS * 120 < 2 ^ 63"
  shows "max 1 (base div NANOS * 80 div 100) * NANOS \<le> jittered_ttl hash base host \<and>
    jittered_ttl hash base host \<le> max 1 (base div NANOS * 120 div 100) * NANOS"
proof -
  define s where "s = base div NANOS"
  define k where "k = 80 + hash host mod 41"
  have k: "80 \<le> k" "k \<le> 120" by (auto simp: k_def)
  have le: "s * k \<le> s * 120" by (rule mult_le_mono2) (rule k)
  have p: "int s * (100 + (int (hash host mod 41) - 20)) = int (s * k)"
    by (simp add: k_def algebra_simps)
  have "s * k < 2 ^ 63" using le assms unfolding s_def by (rule le_less_trans)
  moreover have "s < 2 ^ 63" using assms unfolding s_def by linarith
  ultimately have "s < 2 ^ 63" "s * k < 2 ^ 63" by blast+
  then have "int s < 2 ^ 63" "int (s * k) < 2 ^ 63" by (simp_all del: of_nat_mult)
  then have w: "wrap_i64 (int s) = int s" "wrap_i64 (int (s * k)) = int (s * k)"
    by (auto intro!: wrap_i64_id simp del: of_nat_mult)
  have "jittered_ttl hash base host = nat (max (i64_div (wrap_i64 (wrap_i64 (int s) * (100 + (int (hash host mod 41) - 20)))) 100) 1) * NANOS"
    by (simp add: jittered_ttl_def Let_def TTL_JITTER_PCT_def s_def)
  also have "\<dots> = max 1 (s * k div 100) * NANOS"
  proof -
    have "i64_div (int (s * k)) 100 = int (s * k div 100)" by (simp add: i64_div_def zdiv_int del: of_nat_mult)
    then show ?thesis unfolding w p by (simp add: max_def del: of_nat_mult)
  qed
  finally have eq: "jittered_ttl hash base host = max 1 (s * k div 100) * NANOS" .
  have "max 1 (s * 80 div 100) \<le> max 1 (s * k div 100)" "max 1 (s * k div 100) \<le> max 1 (s * 120 div 100)"
    by (intro max.mono order_refl div_le_mono mult_le_mono2 k)+
  then show ?thesis unfolding eq s_def [symmetric] by (intro conjI mult_le_mono1)
qed


theorem jittered_ttl_band_witness:
  "2880 * NANOS \<le> jittered_ttl (\<lambda>_. 7) (3600 * NANOS) ''a'' \<and> jittered_ttl (\<lambda>_. 7) (3600 * NANOS) ''a'' \<le> 4320 * NANOS"
proof -
  have "3600 * NANOS div NANOS = 3600" by (simp add: NANOS_def)
  then show ?thesis using jittered_ttl_band [of "3600 * NANOS" "\<lambda>_. 7" "''a''"] by simp
qed

text \<open>A cache over the reference store, whose parser forbids everything.\<close>

definition demo_robots :: "(ref_url, mem_hash, (string \<times> string) list) robots_cache" where
  "demo_robots =
     \<lparr>rb_url = ref_url_ops, rb_store = mem_hash_store, rb_cache = list_cache, rb_run = ''r'', rb_sharding = SingleShardPolicy,
      rb_parser = (\<lambda>ua body. Some (\<lambda>url. False)), rb_hash = (\<lambda>_. 7), rb_user_agent = ''bot'', rb_ttl = 3600 * NANOS,
      rb_fetch_timeout = 15 * NANOS\<rparr>"

definition demo_env :: io_env where
  "demo_env =
     \<lparr>io_now = 0, io_breaker = TripOk, io_breaker2 = TripOk, io_robots_read = TripOk, io_robots_write = TripOk,
      io_fetch = (\<lambda>req. Inl (EFetch ''down''))\<rparr>"

lemma demo_robots_sel [simp]:
  "rb_url demo_robots = ref_url_ops" "rb_store demo_robots = mem_hash_store" "rb_cache demo_robots = list_cache"
  "rb_run demo_robots = ''r''" "rb_sharding demo_robots = SingleShardPolicy"
  "rb_parser demo_robots = (\<lambda>ua body. Some (\<lambda>url. False))"
  by (simp_all add: demo_robots_def)

lemma demo_env_sel [simp]:
  "io_robots_read demo_env = TripOk" "io_robots_write demo_env = TripOk" "io_breaker demo_env = TripOk"
  "io_breaker2 demo_env = TripOk" "io_now demo_env = 0" "io_fetch demo_env = (\<lambda>req. Inl (EFetch ''down''))"
  by (simp_all add: demo_env_def)

lemma demo_url_sel [simp]: "cu_host demo_url = Some ''a''" "cu_scheme demo_url = ''http''" "shard_key SingleShardPolicy demo_url = 0"
  by (simp_all add: demo_url_def shard_key_def)


theorem robots_fail_open_witness:
  "\<exists>st'. robots_allowed demo_robots demo_url ''bot'' demo_env \<lparr>rs_db = \<lparr>mh_fields = []\<rparr>, rs_in_process = []\<rparr> = (Inr True, st') \<and>
     robots_known demo_robots ''a'' [] st'"
proof -
  let ?st = "\<lparr>rs_db = \<lparr>mh_fields = []\<rparr>, rs_in_process = []\<rparr> :: (mem_hash, (string \<times> string) list) robots_state"
  have "\<not> isl (url_parse ref_url_ops ''http://a/robots.txt'')" by code_simp
  then obtain u where u: "url_parse ref_url_ops ''http://a/robots.txt'' = Inr u"
    by (cases "url_parse ref_url_ops ''http://a/robots.txt''") auto
  show ?thesis
    by (rule robots_fail_open [where ru = u])
      (use u mem_hash.hash_server_axioms list_cache.bounded_cache_axioms in
        \<open>simp_all add: list_cache_def entry_body_def mem_hash_store_def mem_hget2_def\<close>)
qed



text \<open>A gate over the reference backends, with a threshold of one failure.\<close>

definition demo_backends :: "(ref_url, mem_hash, (string \<times> unit) list, (string \<times> string) list) gate_backends" where
  "demo_backends =
     \<lparr>gb_url = ref_url_ops, gb_store = mem_hash_store, gb_failing = list_cache, gb_robots = list_cache,
      gb_parser = (\<lambda>ua body. Some (\<lambda>url. False)), gb_hash = (\<lambda>_. 7)\<rparr>"

definition demo_config :: politeness_config where
  "demo_config = politeness_config_default\<lparr>pc_backoff := backoff_policy_default\<lparr>bp_failure_threshold := 1\<rparr>\<rparr>"


end
