(* ===== verification/Ledger_Spec.thy ===== *)
theory Ledger_Spec
  imports Core_Types "HOL-Library.Sublist"
begin

text \<open>
  The contract of \<^verbatim>\<open>crawlrs-core/src/traits/metadata.rs\<close>: what every \<open>MetadataStore\<close> keeps of a
  URL and how each transition changes it. A ledger maps the text of a URL to its entry. The
  locale states what a store promises: a call that succeeds made its transition, a call that
  failed made it or left the ledger alone. The Postgres store and the in-memory store interpret
  it.
\<close>

subsection \<open>The abstract ledger\<close>

record ledger_entry =
  le_status :: url_status
  le_retry_count :: nat
  le_blob_path :: "string option"
  le_content_hash :: "64 word option"
  le_depth :: nat
  le_last_run_id :: run_id
  le_discovered_from :: "string option"
  le_discovered_at :: u64
  le_updated_at :: u64

type_synonym ledger = "string \<rightharpoonup> ledger_entry"

record success_record =
  su_url :: canonical_url
  su_attempt_id :: attempt_id
  su_blob_path :: string
  su_content_hash :: "64 word"
  su_outbound :: "url_entry list"

datatype ledger_call =
  CallAttempting canonical_url run_id u32
| CallSucceeded success_record
| CallFailed canonical_url failure_kind
| CallGiveUp canonical_url string
| CallSkipped canonical_url run_id u32 "canonical_url option" skip_reason

definition new_entry :: "url_status \<Rightarrow> run_id \<Rightarrow> nat \<Rightarrow> string option \<Rightarrow> u64 \<Rightarrow> ledger_entry" where
  "new_entry s run depth from now =
     \<lparr>le_status = s, le_retry_count = 0, le_blob_path = None, le_content_hash = None, le_depth = depth,
      le_last_run_id = run, le_discovered_from = from, le_discovered_at = now, le_updated_at = now\<rparr>"

fun led_apply :: "ledger_call \<Rightarrow> u64 \<Rightarrow> ledger \<Rightarrow> ledger" where
  "led_apply (CallAttempting url run depth) now L =
     L(cu_str url \<mapsto> (case L (cu_str url) of
          Some m \<Rightarrow> m\<lparr>le_status := InProgress, le_last_run_id := run, le_depth := depth, le_updated_at := now\<rparr>
        | None \<Rightarrow> new_entry InProgress run depth None now))"
| "led_apply (CallSucceeded r) now L =
     (case L (cu_str (su_url r)) of None \<Rightarrow> L
      | Some m \<Rightarrow> L(cu_str (su_url r) \<mapsto>
          m\<lparr>le_status := Succeeded, le_retry_count := 0, le_blob_path := Some (su_blob_path r),
            le_content_hash := Some (su_content_hash r), le_updated_at := now\<rparr>))"
| "led_apply (CallFailed url kind) now L =
     (case L (cu_str url) of None \<Rightarrow> L
      | Some m \<Rightarrow> L(cu_str url \<mapsto>
          m\<lparr>le_status := FailedTransient, le_retry_count := Suc (le_retry_count m), le_updated_at := now\<rparr>))"
| "led_apply (CallGiveUp url reason) now L =
     (case L (cu_str url) of None \<Rightarrow> L
      | Some m \<Rightarrow> L(cu_str url \<mapsto> m\<lparr>le_status := PermanentlyFailed, le_updated_at := now\<rparr>))"
| "led_apply (CallSkipped url run depth from reason) now L =
     (case L (cu_str url) of Some _ \<Rightarrow> L
      | None \<Rightarrow> L(cu_str url \<mapsto> new_entry Skipped run depth (map_option cu_str from) now))"

fun call_url :: "ledger_call \<Rightarrow> string" where
  "call_url (CallAttempting url run depth) = cu_str url"
| "call_url (CallSucceeded r) = cu_str (su_url r)"
| "call_url (CallFailed url kind) = cu_str url"
| "call_url (CallGiveUp url reason) = cu_str url"
| "call_url (CallSkipped url run depth from reason) = cu_str url"

text \<open>Transitions that need a row to exist.\<close>

fun needs_row :: "ledger_call \<Rightarrow> bool" where
  "needs_row (CallSucceeded r) = True"
| "needs_row (CallFailed url kind) = True"
| "needs_row (CallGiveUp url reason) = True"
| "needs_row c = False"

fun counts_failure :: "ledger_call \<Rightarrow> bool" where
  "counts_failure (CallFailed url kind) = True"
| "counts_failure c = False"

text \<open>Depths are below \<open>2 ^ 31\<close>.\<close>

fun call_ok :: "ledger_call \<Rightarrow> bool" where
  "call_ok (CallAttempting url run depth) = (depth < 2 ^ 31)"
| "call_ok (CallSkipped url run depth from reason) = (depth < 2 ^ 31)"
| "call_ok c = True"

subsection \<open>Lemmas on the transitions\<close>

lemma led_apply_other: "x \<noteq> call_url c \<Longrightarrow> led_apply c now L x = L x"
  by (cases c) (auto split: option.splits)

lemma led_apply_dom: "dom L \<subseteq> dom (led_apply c now L)"
  by (cases c) (auto split: option.splits)

lemma led_apply_missing: "needs_row c \<Longrightarrow> L (call_url c) = None \<Longrightarrow> led_apply c now L = L"
  by (cases c) auto

text \<open>A URL that is in the ledger keeps its discovery facts, whatever happens to it later.\<close>

lemma led_apply_discovery:
  "L x = Some m \<Longrightarrow> \<exists>m'. led_apply c now L x = Some m' \<and>
     le_discovered_at m' = le_discovered_at m \<and> le_discovered_from m' = le_discovered_from m"
  by (cases c) (auto split: option.splits)

subsection \<open>Sequences of calls\<close>

fun performs ::
  "(ledger_call \<Rightarrow> u64 \<Rightarrow> 'e \<Rightarrow> 's \<Rightarrow> (crawl_error + nat) \<times> 's) \<Rightarrow> (ledger_call \<times> u64 \<times> 'e) list \<Rightarrow> 's \<Rightarrow>
   (crawl_error + nat) list \<times> 's" where
  "performs perform [] s = ([], s)"
| "performs perform ((c, now, e) # calls) s =
     (let (r, s) = perform c now e s; (rs, s) = performs perform calls s in (r # rs, s))"

text \<open>The calls whose answer was success.\<close>

fun answered :: "'c list \<Rightarrow> (crawl_error + nat) list \<Rightarrow> 'c list" where
  "answered (c # cs) (r # rs) = (if isl r then answered cs rs else c # answered cs rs)"
| "answered cs rs = []"

text \<open>What a store that meets no fault answers.\<close>

fun reply_of :: "crawl_error + nat \<Rightarrow> nat option" where
  "reply_of (Inl e) = None"
| "reply_of (Inr n) = Some n"

definition led_reply :: "ledger_call \<Rightarrow> ledger \<Rightarrow> nat option" where
  "led_reply c L =
     (case L (call_url c) of
        None \<Rightarrow> if needs_row c then None else Some 0
      | Some m \<Rightarrow> Some (if counts_failure c then Suc (le_retry_count m) else 0))"

fun led_run :: "(ledger_call \<times> u64) list \<Rightarrow> ledger \<Rightarrow> nat option list \<times> ledger" where
  "led_run [] L = ([], L)"
| "led_run ((c, now) # calls) L =
     (let (rs, L') = led_run calls (led_apply c now L) in (led_reply c L # rs, L'))"

definition retries_below :: "nat \<Rightarrow> ledger \<Rightarrow> bool" where
  "retries_below k L \<longleftrightarrow> (\<forall>u m. L u = Some m \<longrightarrow> le_retry_count m < k)"

text \<open>Room to count one more failure of the URL of a call.\<close>

definition retry_room :: "nat \<Rightarrow> ledger_call \<Rightarrow> ledger \<Rightarrow> bool" where
  "retry_room k c L \<longleftrightarrow> (\<forall>m. L (call_url c) = Some m \<longrightarrow> le_retry_count m < k)"

lemma retries_below_room: "retries_below k L \<Longrightarrow> retry_room k c L"
  by (simp add: retries_below_def retry_room_def)

lemma retries_below_mono: "retries_below k L \<Longrightarrow> k \<le> k' \<Longrightarrow> retries_below k' L"
  by (fastforce simp: retries_below_def)

lemma led_apply_retries:
  "led_apply c now L u = Some m \<Longrightarrow> le_retry_count m = 0 \<or> (\<exists>m0. L u = Some m0 \<and> le_retry_count m \<le> Suc (le_retry_count m0))"
  by (cases c) (auto simp: new_entry_def split: option.splits if_splits)

lemma retries_below_step:
  assumes "retries_below k L" "0 < k"
  shows "retries_below (Suc k) (led_apply c now L)"
  unfolding retries_below_def
proof (intro allI impI)
  fix u m
  assume "led_apply c now L u = Some m"
  then consider "le_retry_count m = 0" | m0 where "L u = Some m0" "le_retry_count m \<le> Suc (le_retry_count m0)"
    using led_apply_retries [of c now L u m] by auto
  then show "le_retry_count m < Suc k"
  proof cases
    case 2
    then have "le_retry_count m0 < k" using assms(1) by (simp add: retries_below_def)
    then show ?thesis using 2 by linarith
  qed simp
qed

subsection \<open>The contract\<close>

text \<open>A store performs a call in an environment \<open>'e\<close> and answers with an error or a number, the
  retry count of \<open>mark_failed\<close> and 0 for the other calls.\<close>

locale metadata_ledger =
  fixes perform :: "ledger_call \<Rightarrow> u64 \<Rightarrow> 'e \<Rightarrow> 's \<Rightarrow> (crawl_error + nat) \<times> 's"
    and view :: "'s \<Rightarrow> ledger"
    and store_ok :: "'s \<Rightarrow> bool"
  assumes perform_ok: "store_ok s \<Longrightarrow> perform c now e s = (r, s') \<Longrightarrow> store_ok s'"
    and perform_done: "store_ok s \<Longrightarrow> call_ok c \<Longrightarrow> perform c now e s = (Inr n, s') \<Longrightarrow>
      view s' = led_apply c now (view s) \<and> (needs_row c \<longrightarrow> view s (call_url c) \<noteq> None) \<and>
      (counts_failure c \<longrightarrow> map_option le_retry_count (view s' (call_url c)) = Some n)"
    and perform_error: "store_ok s \<Longrightarrow> call_ok c \<Longrightarrow> perform c now e s = (Inl x, s') \<Longrightarrow>
      view s' = view s \<or> view s' = led_apply c now (view s)"
begin

lemma perform_view:
  assumes "store_ok s" "call_ok c"
  shows "view (snd (perform c now e s)) \<in> {view s, led_apply c now (view s)} \<and> store_ok (snd (perform c now e s))"
  using assms perform_ok perform_done perform_error
  by (metis insert_iff old.sum.exhaust prod.collapse)

text \<open>What a sequence of calls leaves in the ledger is what a subsequence of them made of it, which
  has every call that answered success.\<close>

lemma performs_view:
  assumes "store_ok s" "\<forall>(c, now, e) \<in> set calls. call_ok c" "performs perform calls s = (rs, s')"
  shows "store_ok s' \<and> (\<exists>made. subseq (answered calls rs) made \<and> subseq made calls \<and>
     view s' = fold (\<lambda>(c, now, e). led_apply c now) made (view s))"
  using assms
proof (induction calls arbitrary: s rs)
  case (Cons call calls)
  obtain c now e where call: "call = (c, now, e)" by (metis prod.exhaust)
  obtain r s1 where r: "perform c now e s = (r, s1)" by (metis surj_pair)
  obtain rs1 where rs: "performs perform calls s1 = (rs1, s')" "rs = r # rs1" using Cons.prems(3) call r by (auto split: prod.splits)
  have ok: "store_ok s1" "call_ok c" using perform_ok r Cons.prems call by auto
  obtain made where m: "subseq (answered calls rs1) made" "subseq made calls"
      "view s' = fold (\<lambda>(c, now, e). led_apply c now) made (view s1)" "store_ok s'"
    using Cons.IH [OF ok(1) _ rs(1)] Cons.prems by auto
  show ?case
  proof (cases "view s1 = led_apply c now (view s)")
    case True
    then show ?thesis using m call rs(2) by (auto intro!: exI [of _ "call # made"])
  next
    case False
    then have "isl r" "view s1 = view s"
      using perform_done [OF Cons.prems(1) ok(2)] perform_error [OF Cons.prems(1) ok(2)] r by (cases r; fastforce)+
    then show ?thesis using m rs(2) by (auto intro!: exI [of _ made])
  qed
qed (auto intro: exI [of _ "[]"])

lemma failed_count:
  assumes "store_ok s" "perform (CallFailed url kind) now e s = (Inr n, s')"
  shows "\<exists>m. view s (cu_str url) = Some m \<and> n = Suc (le_retry_count m)"
  using perform_done [OF assms(1) _ assms(2)] by (auto split: option.splits)

end

text \<open>A store whose calls fail for no other reason than a missing row or a full counter: in the
  environment \<open>calm\<close>, with a retry count below \<open>limit\<close>, its answers are those of the ledger.\<close>

locale calm_ledger = metadata_ledger perform view store_ok
  for perform :: "ledger_call \<Rightarrow> u64 \<Rightarrow> 'e \<Rightarrow> 's \<Rightarrow> (crawl_error + nat) \<times> 's" and view :: "'s \<Rightarrow> ledger" and store_ok :: "'s \<Rightarrow> bool" +
  fixes calm :: 'e and limit :: nat
  assumes calm_reply: "store_ok s \<Longrightarrow> call_ok c \<Longrightarrow> retry_room limit c (view s) \<Longrightarrow>
    reply_of (fst (perform c now calm s)) = led_reply c (view s)"
begin

lemma calm_step:
  assumes "store_ok s" "call_ok c" "retry_room limit c (view s)" "perform c now calm s = (r, s')"
  shows "reply_of r = led_reply c (view s) \<and> view s' = led_apply c now (view s) \<and> store_ok s'"
proof (cases r)
  case (Inl e)
  then have "led_reply c (view s) = None" using calm_reply [OF assms(1-3), of now] assms(4) by simp
  then have "led_apply c now (view s) = view s"
    by (intro led_apply_missing) (auto simp: led_reply_def split: option.splits if_splits)
  then show ?thesis
    using perform_error [OF assms(1,2)] perform_ok [OF assms(1)] calm_reply [OF assms(1-3), of now] assms(4) Inl by fastforce
next
  case (Inr n)
  then show ?thesis
    using perform_done [OF assms(1,2)] perform_ok [OF assms(1)] calm_reply [OF assms(1-3), of now] assms(4) by fastforce
qed

lemma calm_run:
  assumes "store_ok s" "\<forall>(c, now) \<in> set calls. call_ok c" "retries_below k (view s)" "0 < k" "k + length calls \<le> limit"
    and "performs perform (map (\<lambda>(c, now). (c, now, calm)) calls) s = (rs, s')"
  shows "led_run calls (view s) = (map reply_of rs, view s')"
  using assms
proof (induction calls arbitrary: s k rs)
  case (Cons call calls)
  obtain c now where call: "call = (c, now)" by (metis prod.exhaust)
  obtain r s1 where r: "perform c now calm s = (r, s1)" by (metis surj_pair)
  have step: "reply_of r = led_reply c (view s)" "view s1 = led_apply c now (view s)" "store_ok s1"
    using calm_step [OF Cons.prems(1) _ retries_below_room [OF retries_below_mono] r] Cons.prems call by auto
  obtain rs1 where rs: "performs perform (map (\<lambda>(c, now). (c, now, calm)) calls) s1 = (rs1, s')" "rs = r # rs1"
    using Cons.prems(6) call r by (auto split: prod.splits)
  have "retries_below (Suc k) (view s1)" using retries_below_step Cons.prems(3,4) step(2) by metis
  from Cons.IH [OF step(3) _ this _ _ rs(1)] show ?case using Cons.prems call rs(2) step by (simp add: Let_def)
qed simp

end

lemma led_fold_discovery:
  assumes "L x = Some m"
  shows "\<exists>m'. fold (\<lambda>(c, now, e). led_apply c now) made L x = Some m' \<and>
     le_discovered_at m' = le_discovered_at m \<and> le_discovered_from m' = le_discovered_from m"
  using assms
proof (induction made arbitrary: L m)
  case (Cons call made)
  obtain c now e where call: "call = (c, now, e)" by (metis prod.exhaust)
  obtain m1 where m1: "led_apply c now L x = Some m1"
      "le_discovered_at m1 = le_discovered_at m" "le_discovered_from m1 = le_discovered_from m"
    using led_apply_discovery [of L x m c now] Cons.prems by blast
  then show ?case using Cons.IH [of "led_apply c now L" m1] call by auto
qed simp

end
