(* ===== verification/Supervisor.thy ===== *)
theory Supervisor
  imports Failure_Classes
begin

text \<open>
  \<^verbatim>\<open>crawlrs-runtime/src/supervisor.rs\<close>: the bounded restart of one worker. The loop is driven by
  the rounds the supervisor meets: for each spawned worker, how its task ended, the clock at
  that moment and where the shutdown signal was seen. A list of rounds that is used up means
  that the present worker is still running.
\<close>

record restart_policy =
  rp_max_restarts :: u32
  rp_base_backoff :: duration
  rp_max_backoff :: duration
  rp_reset_window :: duration

definition restart_policy_default :: restart_policy where
  "restart_policy_default =
     \<lparr>rp_max_restarts = 5, rp_base_backoff = 100 * 1000000, rp_max_backoff = 30 * NANOS, rp_reset_window = 300 * NANOS\<rparr>"

record restart_state =
  rs_policy :: restart_policy
  rs_restart_count :: u32
  rs_last_restart_ms :: "u64 option"

definition restart_state_new :: "restart_policy \<Rightarrow> restart_state" where
  "restart_state_new p = \<lparr>rs_policy = p, rs_restart_count = 0, rs_last_restart_ms = None\<rparr>"

datatype restart_decision = Restart duration | GiveUp

text \<open>The largest \<open>Duration\<close>, in nanoseconds.\<close>

definition DURATION_MAX :: duration where
  "DURATION_MAX = U64_MAX * NANOS + (NANOS - 1)"

definition checked_shl_one :: "u32 \<Rightarrow> u32 option" where
  "checked_shl_one n = (if n < 32 then Some (2 ^ n) else None)"

definition restart_backoff :: "restart_policy \<Rightarrow> u32 \<Rightarrow> duration" where
  "restart_backoff p n =
     (let exponent = n - 1;
          scale = (case checked_shl_one exponent of Some s \<Rightarrow> s | None \<Rightarrow> U32_MAX);
          scaled = min (rp_base_backoff p * scale) DURATION_MAX
      in min scaled (rp_max_backoff p))"

definition decide_restart :: "u64 \<Rightarrow> restart_state \<Rightarrow> restart_decision \<times> restart_state" where
  "decide_restart now_ms st =
     (let reset_window_ms = (rp_reset_window (rs_policy st) div 1000000) mod 2 ^ 64;
          st = (case rs_last_restart_ms st of
                  Some last_ms \<Rightarrow> if now_ms - last_ms > reset_window_ms then st\<lparr>rs_restart_count := 0\<rparr> else st
                | None \<Rightarrow> st)
      in if rs_restart_count st \<ge> rp_max_restarts (rs_policy st) then (GiveUp, st)
         else
           let st = st\<lparr>rs_restart_count := rs_restart_count st + 1, rs_last_restart_ms := Some now_ms\<rparr>
           in (Restart (restart_backoff (rs_policy st) (rs_restart_count st)), st))"

text \<open>How a task ended, as \<open>JoinHandle\<close> reports it.\<close>

datatype task_exit = ExitOk | ExitPanic | ExitCancelled | ExitJoinError

fun classify_exit :: "task_exit \<Rightarrow> string" where
  "classify_exit ExitOk = ''exit_unexpected''"
| "classify_exit ExitPanic = ''panic''"
| "classify_exit ExitCancelled = ''cancelled''"
| "classify_exit ExitJoinError = ''join_error''"

record supervised_round =
  sr_shutdown_before :: bool
  sr_exit :: task_exit
  sr_shutdown_after :: bool
  sr_now_ms :: u64
  sr_shutdown_in_sleep :: bool

datatype supervised = SupShutdown | SupGaveUp | SupRunning

text \<open>The loop returns how it ended and the restarts it made, each with its reason and backoff.\<close>

fun supervise_loop ::
  "restart_state \<Rightarrow> supervised_round list \<Rightarrow> (string \<times> duration) list \<Rightarrow> supervised \<times> (string \<times> duration) list" where
  "supervise_loop st [] log = (SupRunning, log)"
| "supervise_loop st (r # rounds) log =
     (if sr_shutdown_before r then (SupShutdown, log)
      else if sr_shutdown_after r then (SupShutdown, log)
      else
        let reason = classify_exit (sr_exit r) in
        case decide_restart (sr_now_ms r) st of
          (Restart backoff, st) \<Rightarrow>
            if sr_shutdown_in_sleep r then (SupShutdown, log @ [(reason, backoff)])
            else supervise_loop st rounds (log @ [(reason, backoff)])
        | (GiveUp, st) \<Rightarrow> (SupGaveUp, log))"

definition supervise_worker :: "restart_policy \<Rightarrow> supervised_round list \<Rightarrow> supervised \<times> (string \<times> duration) list" where
  "supervise_worker policy rounds = supervise_loop (restart_state_new policy) rounds []"

subsection \<open>Lemmas\<close>

definition window_ms :: "restart_policy \<Rightarrow> nat" where
  "window_ms p = (rp_reset_window p div 1000000) mod 2 ^ 64"

text \<open>Rounds without a shutdown.\<close>

definition undisturbed :: "supervised_round \<Rightarrow> bool" where
  "undisturbed r \<longleftrightarrow> \<not> sr_shutdown_before r \<and> \<not> sr_shutdown_after r \<and> \<not> sr_shutdown_in_sleep r"

text \<open>Every exit comes within the window of the one before, starting from \<open>prev\<close>.\<close>

fun crash_loop :: "nat \<Rightarrow> u64 option \<Rightarrow> supervised_round list \<Rightarrow> bool" where
  "crash_loop w prev [] = True"
| "crash_loop w prev (r # rs) =
     ((case prev of None \<Rightarrow> True | Some t \<Rightarrow> sr_now_ms r - t \<le> w) \<and> crash_loop w (Some (sr_now_ms r)) rs)"

text \<open>Every exit comes after the window of the one before.\<close>

fun stable_between :: "nat \<Rightarrow> u64 option \<Rightarrow> supervised_round list \<Rightarrow> bool" where
  "stable_between w prev [] = True"
| "stable_between w prev (r # rs) =
     ((case prev of None \<Rightarrow> True | Some t \<Rightarrow> sr_now_ms r - t > w) \<and> stable_between w (Some (sr_now_ms r)) rs)"

lemma restart_backoff_le: "restart_backoff p n \<le> rp_max_backoff p"
  by (simp add: restart_backoff_def Let_def)

definition after_window :: "u64 \<Rightarrow> restart_state \<Rightarrow> restart_state" where
  "after_window now_ms st =
     (case rs_last_restart_ms st of
        Some l \<Rightarrow> if now_ms - l > window_ms (rs_policy st) then st\<lparr>rs_restart_count := 0\<rparr> else st
      | None \<Rightarrow> st)"

lemma decide_restart_window:
  "decide_restart now_ms st =
     (let st = after_window now_ms st in
      if rs_restart_count st \<ge> rp_max_restarts (rs_policy st) then (GiveUp, st)
      else (Restart (restart_backoff (rs_policy st) (rs_restart_count st + 1)),
            st\<lparr>rs_restart_count := rs_restart_count st + 1, rs_last_restart_ms := Some now_ms\<rparr>))"
  unfolding decide_restart_def after_window_def window_ms_def Let_def by (rule if_cong) simp_all

lemma supervise_crash_loop:
  assumes "\<forall>r \<in> set rounds. undisturbed r" "crash_loop (window_ms (rs_policy st)) (rs_last_restart_ms st) rounds"
    and "rs_restart_count st \<le> rp_max_restarts (rs_policy st)"
    and "rp_max_restarts (rs_policy st) - rs_restart_count st < length rounds"
  shows "\<exists>new. supervise_loop st rounds log = (SupGaveUp, log @ new) \<and>
     map snd new = map (restart_backoff (rs_policy st)) [Suc (rs_restart_count st) ..< Suc (rp_max_restarts (rs_policy st))]"
  using assms
proof (induction rounds arbitrary: st log)
  case (Cons r rounds)
  have u: "\<not> sr_shutdown_before r" "\<not> sr_shutdown_after r" "\<not> sr_shutdown_in_sleep r"
    using Cons.prems(1) by (auto simp: undisturbed_def)
  have no_reset: "after_window (sr_now_ms r) st = st"
    using Cons.prems(2) by (auto simp: after_window_def split: option.splits)
  show ?case
  proof (cases "rs_restart_count st = rp_max_restarts (rs_policy st)")
    case True
    then have "decide_restart (sr_now_ms r) st = (GiveUp, st)"
      using no_reset by (simp add: decide_restart_window)
    then show ?thesis using u True by simp
  next
    case False
    let ?st = "st\<lparr>rs_restart_count := rs_restart_count st + 1, rs_last_restart_ms := Some (sr_now_ms r)\<rparr>"
    have d: "decide_restart (sr_now_ms r) st = (Restart (restart_backoff (rs_policy st) (Suc (rs_restart_count st))), ?st)"
      using no_reset False Cons.prems(3) by (simp add: decide_restart_window)
    have "\<exists>new. supervise_loop ?st rounds log' = (SupGaveUp, log' @ new) \<and>
        map snd new = map (restart_backoff (rs_policy ?st)) [Suc (rs_restart_count ?st) ..< Suc (rp_max_restarts (rs_policy ?st))]" for log'
      by (rule Cons.IH) (use Cons.prems False in auto)
    then obtain new where n: "supervise_loop ?st rounds (log @ [(classify_exit (sr_exit r), restart_backoff (rs_policy st) (Suc (rs_restart_count st)))]) =
          (SupGaveUp, (log @ [(classify_exit (sr_exit r), restart_backoff (rs_policy st) (Suc (rs_restart_count st)))]) @ new)"
        "map snd new = map (restart_backoff (rs_policy st)) [Suc (Suc (rs_restart_count st)) ..< Suc (rp_max_restarts (rs_policy st))]"
      by fastforce
    have "[Suc (rs_restart_count st) ..< Suc (rp_max_restarts (rs_policy st))] =
        Suc (rs_restart_count st) # [Suc (Suc (rs_restart_count st)) ..< Suc (rp_max_restarts (rs_policy st))]"
      using False Cons.prems(3) by (intro upt_conv_Cons) simp
    then show ?thesis using u d n by auto
  qed
qed simp

lemma supervise_stable:
  assumes "\<forall>r \<in> set rounds. undisturbed r" "stable_between (window_ms (rs_policy st)) (rs_last_restart_ms st) rounds"
    and "0 < rp_max_restarts (rs_policy st)" "rs_last_restart_ms st = None \<longrightarrow> rs_restart_count st = 0"
  shows "\<exists>new. supervise_loop st rounds log = (SupRunning, log @ new) \<and>
     map snd new = replicate (length rounds) (restart_backoff (rs_policy st) 1)"
  using assms
proof (induction rounds arbitrary: st log)
  case (Cons r rounds)
  have u: "\<not> sr_shutdown_before r" "\<not> sr_shutdown_after r" "\<not> sr_shutdown_in_sleep r"
    using Cons.prems(1) by (auto simp: undisturbed_def)
  let ?st = "st\<lparr>rs_restart_count := 1, rs_last_restart_ms := Some (sr_now_ms r)\<rparr>"
  have d: "decide_restart (sr_now_ms r) st = (Restart (restart_backoff (rs_policy st) 1), ?st)"
    using Cons.prems(2-4) by (auto simp: decide_restart_window after_window_def split: option.splits)
  have "\<exists>new. supervise_loop ?st rounds log' = (SupRunning, log' @ new) \<and>
      map snd new = replicate (length rounds) (restart_backoff (rs_policy ?st) 1)" for log'
    by (rule Cons.IH) (use Cons.prems in auto)
  then obtain new where "supervise_loop ?st rounds (log @ [(classify_exit (sr_exit r), restart_backoff (rs_policy st) 1)]) =
        (SupRunning, (log @ [(classify_exit (sr_exit r), restart_backoff (rs_policy st) 1)]) @ new)"
      "map snd new = replicate (length rounds) (restart_backoff (rs_policy st) 1)"
    by fastforce
  then show ?case using u d by auto
qed simp

subsection \<open>Properties\<close>

text \<open>C16: a crash loop ends. When every exit comes within the reset window of the one before, the
  supervisor makes exactly the allowed number of restarts, waits the doubled and capped backoff
  before each, and then gives the worker up. When every run outlasts the window, it never gives
  up and always waits the first backoff.\<close>

theorem supervisor_budget:
  assumes "\<forall>r \<in> set rounds. undisturbed r"
  shows "(crash_loop (window_ms p) None rounds \<and> rp_max_restarts p < length rounds \<longrightarrow>
      fst (supervise_worker p rounds) = SupGaveUp \<and>
      map snd (snd (supervise_worker p rounds)) = map (restart_backoff p) [1 ..< Suc (rp_max_restarts p)]) \<and>
    (stable_between (window_ms p) None rounds \<and> 0 < rp_max_restarts p \<longrightarrow>
      fst (supervise_worker p rounds) = SupRunning \<and>
      map snd (snd (supervise_worker p rounds)) = replicate (length rounds) (restart_backoff p 1))"
proof (intro conjI impI; elim conjE)
  let ?st = "restart_state_new p"
  have s: "rs_policy ?st = p" "rs_last_restart_ms ?st = None" "rs_restart_count ?st = 0"
    by (simp_all add: restart_state_new_def)
  { assume "crash_loop (window_ms p) None rounds" "rp_max_restarts p < length rounds"
    then obtain new where "supervise_loop ?st rounds [] = (SupGaveUp, [] @ new)"
        "map snd new = map (restart_backoff p) [Suc 0 ..< Suc (rp_max_restarts p)]"
      using supervise_crash_loop [of rounds ?st "[]"] assms s by auto
    then show "fst (supervise_worker p rounds) = SupGaveUp"
      "map snd (snd (supervise_worker p rounds)) = map (restart_backoff p) [1 ..< Suc (rp_max_restarts p)]"
      by (simp_all add: supervise_worker_def) }
  { assume "stable_between (window_ms p) None rounds" "0 < rp_max_restarts p"
    then obtain new where "supervise_loop ?st rounds [] = (SupRunning, [] @ new)"
        "map snd new = replicate (length rounds) (restart_backoff p 1)"
      using supervise_stable [of rounds ?st "[]"] assms s by auto
    then show "fst (supervise_worker p rounds) = SupRunning"
      "map snd (snd (supervise_worker p rounds)) = replicate (length rounds) (restart_backoff p 1)"
      by (simp_all add: supervise_worker_def) }
qed

definition panic_at :: "u64 \<Rightarrow> supervised_round" where
  "panic_at t = \<lparr>sr_shutdown_before = False, sr_exit = ExitPanic, sr_shutdown_after = False, sr_now_ms = t,
     sr_shutdown_in_sleep = False\<rparr>"

theorem supervisor_budget_witness:
  "fst (supervise_worker \<lparr>rp_max_restarts = 2, rp_base_backoff = 5, rp_max_backoff = 8, rp_reset_window = 300 * NANOS\<rparr>
     [panic_at 1, panic_at 2, panic_at 3]) = SupGaveUp"
proof -
  let ?p = "\<lparr>rp_max_restarts = 2, rp_base_backoff = 5, rp_max_backoff = 8, rp_reset_window = 300 * NANOS\<rparr>"
  have "crash_loop (window_ms ?p) None [panic_at 1, panic_at 2, panic_at 3]"
    by (simp add: window_ms_def panic_at_def NANOS_def)
  then show ?thesis
    using supervisor_budget [of "[panic_at 1, panic_at 2, panic_at 3]" ?p] by (simp add: undisturbed_def panic_at_def)
qed

end
