(* ===== verification/Worker.thy ===== *)
theory Worker
  imports Redis_Frontier Politeness_Gate Ledger_Spec Supervisor
begin

text \<open>
  \<^verbatim>\<open>crawlrs-runtime/src/worker.rs\<close>: one worker's loop and the pipeline it runs on a claimed URL. The
  services a worker holds are trait objects; here they are functions on the state \<open>'s\<close> of the rest
  of the system, and an error of a service is a value. Timers, gauges and log lines are left
  out. Overflow of the depth wraps, as it does in a release build.
\<close>

subsection \<open>Dependencies\<close>

text \<open>\<^verbatim>\<open>crawlrs-core/src/traits/site_adapter.rs\<close>\<close>

record 's site_adapter =
  sa_matches :: "canonical_url \<Rightarrow> bool"
  sa_extract :: "fetch_response \<Rightarrow> 's \<Rightarrow> (crawl_error + parsed_document option) \<times> 's"

type_synonym 's adapter_registry = "'s site_adapter list"

definition register :: "'s site_adapter \<Rightarrow> 's adapter_registry \<Rightarrow> 's adapter_registry" where
  "register a reg = reg @ [a]"

definition find_for :: "'s adapter_registry \<Rightarrow> canonical_url \<Rightarrow> 's site_adapter option" where
  "find_for reg url = List.find (\<lambda>a. sa_matches a url) reg"

record crawler_config =
  wc_workers :: nat
  wc_maintenance_interval :: duration
  wc_promoter_tick :: duration
  wc_empty_queue_poll :: duration
  wc_max_idle_sleep :: duration
  wc_error_backoff :: duration
  wc_max_retries :: u32
  wc_pod_ordinal :: u32
  wc_restart_policy :: restart_policy
  wc_link_dispatch :: link_dispatch

definition crawler_config_default :: crawler_config where
  "crawler_config_default =
     \<lparr>wc_workers = 4, wc_maintenance_interval = 30 * 1000000000, wc_promoter_tick = 50 * 1000000,
      wc_empty_queue_poll = 500 * 1000000, wc_max_idle_sleep = 5 * 1000000000, wc_error_backoff = 1000000000,
      wc_max_retries = 5, wc_pod_ordinal = 0, wc_restart_policy = restart_policy_default, wc_link_dispatch = Direct\<rparr>"

text \<open>The metadata store answers ledger calls; \<open>wd_http_date\<close> is the parser of HTTP dates,
  \<open>wd_now_ms\<close> the wall clock and \<open>wd_instant\<close> the monotonic one.\<close>

record 's worker_deps =
  wd_claim :: "worker_identity \<Rightarrow> 's \<Rightarrow> (crawl_error + claim_outcome) \<times> 's"
  wd_ack :: "attempt_id \<Rightarrow> 's \<Rightarrow> (crawl_error + unit) \<times> 's"
  wd_advance_wake :: "string \<Rightarrow> u64 \<Rightarrow> 's \<Rightarrow> (crawl_error + unit) \<times> 's"
  wd_submit_batch :: "url_entry list \<Rightarrow> 's \<Rightarrow> (crawl_error + submit_batch_outcome) \<times> 's"
  wd_check :: "canonical_url \<Rightarrow> 's \<Rightarrow> (crawl_error + polite_decision) \<times> 's"
  wd_record_fetch :: "canonical_url \<Rightarrow> 's \<Rightarrow> (crawl_error + next_wake) \<times> 's"
  wd_record_failure :: "canonical_url \<Rightarrow> failure_kind \<Rightarrow> duration option \<Rightarrow> 's \<Rightarrow> (crawl_error + next_wake) \<times> 's"
  wd_fetch :: "fetch_request \<Rightarrow> 's \<Rightarrow> (crawl_error + fetch_response) \<times> 's"
  wd_parse :: "fetch_response \<Rightarrow> 's \<Rightarrow> (crawl_error + parsed_document) \<times> 's"
  wd_write :: "store_record \<Rightarrow> 's \<Rightarrow> (crawl_error + string) \<times> 's"
  wd_ledger :: "ledger_call \<Rightarrow> 's \<Rightarrow> (crawl_error + nat) \<times> 's"
  wd_adapters :: "'s adapter_registry"
  wd_now_ms :: "'s \<Rightarrow> u64"
  wd_instant :: "'s \<Rightarrow> nat"
  wd_http_date :: "string \<Rightarrow> nat option"
  wd_config :: crawler_config
  wd_crawl_scope :: crawl_scope
  wd_blocklist :: blocklist
  wd_run_id :: run_id
  wd_sharding :: sharding_policy

record url_pipeline =
  up_url_id :: url_id
  up_entry :: url_entry
  up_attempt_id :: attempt_id

abbreviation up_url :: "url_pipeline \<Rightarrow> canonical_url" where
  "up_url p \<equiv> ue_url (up_entry p)"

subsection \<open>Outbound links\<close>

record outbound_partition =
  op_kept :: "url_entry list"
  op_depth_skipped :: "url_entry list"

fun outbound_loop :: "url_entry \<Rightarrow> u32 \<Rightarrow> (string \<Rightarrow> u32 option) \<Rightarrow> canonical_url list \<Rightarrow> outbound_partition \<Rightarrow> outbound_partition" where
  "outbound_loop parent new_depth cap_of [] acc = acc"
| "outbound_loop parent new_depth cap_of (url # urls) acc =
     (if is_http url then
        let entry = \<lparr>ue_url = url, ue_depth = new_depth, ue_discovered_from = Some (ue_url parent)\<rparr>;
            cap = Option.bind (cu_host url) cap_of
        in outbound_loop parent new_depth cap_of urls
             (if (case cap of Some limit \<Rightarrow> new_depth > limit | None \<Rightarrow> False)
              then acc\<lparr>op_depth_skipped := op_depth_skipped acc @ [entry]\<rparr>
              else acc\<lparr>op_kept := op_kept acc @ [entry]\<rparr>)
      else outbound_loop parent new_depth cap_of urls acc)"

definition compute_outbound :: "url_entry \<Rightarrow> parsed_document \<Rightarrow> (string \<Rightarrow> u32 option) \<Rightarrow> outbound_partition" where
  "compute_outbound parent doc cap_of =
     outbound_loop parent ((ue_depth parent + 1) mod 2 ^ 32) cap_of (pd_outbound_links doc) \<lparr>op_kept = [], op_depth_skipped = []\<rparr>"

subsection \<open>The phases\<close>

text \<open>An acknowledgement that fails is logged.\<close>

definition ack_attempt :: "'s worker_deps \<Rightarrow> url_pipeline \<Rightarrow> 's \<Rightarrow> 's" where
  "ack_attempt D p s = snd (wd_ack D (up_attempt_id p) s)"

definition record_discovered_skip ::
  "'s worker_deps \<Rightarrow> skip_reason \<Rightarrow> url_entry \<Rightarrow> 's \<Rightarrow> 's" where
  "record_discovered_skip D reason e s =
     snd (wd_ledger D (CallSkipped (ue_url e) (wd_run_id D) (ue_depth e) (ue_discovered_from e) reason) s)"

definition politeness_allows :: "'s worker_deps \<Rightarrow> url_pipeline \<Rightarrow> 's \<Rightarrow> bool \<times> 's" where
  "politeness_allows D p s =
     (if (case cu_host (up_url p) of Some host \<Rightarrow> is_blocked (wd_blocklist D) host | None \<Rightarrow> False)
      then (False, ack_attempt D p (record_discovered_skip D SkipBlocklist (up_entry p) s))
      else case wd_check D (up_url p) s of
        (Inr Allow, s) \<Rightarrow> (True, s)
      | (Inr (Disallow reason), s) \<Rightarrow>
          let s = (if reason = DisallowRobots then record_discovered_skip D SkipRobots (up_entry p) s else s)
          in (False, ack_attempt D p s)
      | (Inl e, s) \<Rightarrow> (False, s))"

definition mark_attempting :: "'s worker_deps \<Rightarrow> url_pipeline \<Rightarrow> 's \<Rightarrow> 's" where
  "mark_attempting D p s = snd (wd_ledger D (CallAttempting (up_url p) (wd_run_id D) (ue_depth (up_entry p))) s)"

definition apply_wake_plan :: "'s worker_deps \<Rightarrow> crawl_error + next_wake \<Rightarrow> 's \<Rightarrow> 's" where
  "apply_wake_plan D plan s =
     (case plan of Inl e \<Rightarrow> s
      | Inr next \<Rightarrow>
          if nw_until_ms next \<le> wd_now_ms D s then s
          else snd (wd_advance_wake D (nw_host next) (nw_until_ms next) s))"

definition handle_failure :: "'s worker_deps \<Rightarrow> url_pipeline \<Rightarrow> failure_kind \<Rightarrow> string \<Rightarrow> 's \<Rightarrow> 's" where
  "handle_failure D p kind reason s =
     (case wd_ledger D (CallFailed (up_url p) kind) s of
        (Inl e, s) \<Rightarrow> s
      | (Inr new_count, s) \<Rightarrow>
          if new_count \<ge> wc_max_retries (wd_config D) then
            let dlq_reason = ''retries exceeded ('' @ show_nat new_count @ ''): '' @ reason;
                s = snd (wd_ledger D (CallGiveUp (up_url p) dlq_reason) s)
            in ack_attempt D p s
          else s)"

fun failure_of :: "crawl_error \<Rightarrow> failure_kind" where
  "failure_of (ETransport kind src) = kind"
| "failure_of e = classify_transport_error e"

definition worker_fetch :: "'s worker_deps \<Rightarrow> url_pipeline \<Rightarrow> 's \<Rightarrow> fetch_response option \<times> 's" where
  "worker_fetch D p s =
     (case wd_fetch D (fetch_request_new (up_url p)) s of
        (Inl e, s) \<Rightarrow>
          let kind = failure_of e;
              (plan, s) = wd_record_failure D (up_url p) kind None s;
              s = apply_wake_plan D plan s
          in (None, handle_failure D p kind (''transport: '' @ show_error e) s)
      | (Inr resp, s) \<Rightarrow>
         (case classify_status (fr_status resp) of
            Some kind \<Rightarrow>
              let retry_after = extract_retry_after (wd_http_date D) (wd_now_ms D s) (fr_headers resp);
                  (plan, s) = wd_record_failure D (up_url p) kind retry_after s;
                  s = apply_wake_plan D plan s
              in (None, handle_failure D p kind (''http '' @ show_nat (fr_status resp)) s)
          | None \<Rightarrow>
              let (plan, s) = wd_record_fetch D (up_url p) s
              in (Some resp, apply_wake_plan D plan s)))"

definition fail_parse :: "'s worker_deps \<Rightarrow> url_pipeline \<Rightarrow> string \<Rightarrow> 's \<Rightarrow> 's" where
  "fail_parse D p reason s =
     ack_attempt D p (snd (wd_ledger D (CallGiveUp (up_url p) (''parse: '' @ reason)) s))"

definition parse_generic :: "'s worker_deps \<Rightarrow> url_pipeline \<Rightarrow> fetch_response \<Rightarrow> 's \<Rightarrow> parsed_document option \<times> 's" where
  "parse_generic D p resp s =
     (case wd_parse D resp s of
        (Inr doc, s) \<Rightarrow> (Some doc, s)
      | (Inl e, s) \<Rightarrow> (None, fail_parse D p (''parser: '' @ show_error e) s))"

definition worker_extract :: "'s worker_deps \<Rightarrow> url_pipeline \<Rightarrow> fetch_response \<Rightarrow> 's \<Rightarrow> parsed_document option \<times> 's" where
  "worker_extract D p resp s =
     (case find_for (wd_adapters D) (fr_url resp) of
        None \<Rightarrow> parse_generic D p resp s
      | Some adapter \<Rightarrow>
         (case sa_extract adapter resp s of
            (Inr (Some doc), s) \<Rightarrow> (Some doc, s)
          | (Inr None, s) \<Rightarrow> parse_generic D p resp s
          | (Inl e, s) \<Rightarrow> (None, fail_parse D p (''adapter: '' @ show_error e) s)))"

text \<open>Skips are recorded one after the other.\<close>

definition record_skips :: "'s worker_deps \<Rightarrow> skip_reason \<Rightarrow> url_entry list \<Rightarrow> 's \<Rightarrow> 's" where
  "record_skips D reason = fold (record_discovered_skip D reason)"

definition direct_dispatch :: "'s worker_deps \<Rightarrow> url_entry list \<Rightarrow> 's \<Rightarrow> 's" where
  "direct_dispatch D outbound s =
     (if wc_link_dispatch (wd_config D) = Direct \<and> outbound \<noteq> [] then
        (case wd_submit_batch D outbound s of
           (Inr outcome, s) \<Rightarrow> record_skips D SkipMaxUrls (sb_rejected_urls outcome) s
         | (Inl e, s) \<Rightarrow> s)
      else s)"

definition finalize :: "'s worker_deps \<Rightarrow> url_pipeline \<Rightarrow> fetch_response \<Rightarrow> parsed_document \<Rightarrow> outbound_partition \<Rightarrow> 's \<Rightarrow> 's" where
  "finalize D p resp doc part s =
     (let outbound = op_kept part;
          body_hash = content_hash (fr_body resp);
          record = \<lparr>sr_doc = doc, sr_resp = resp, sr_run_id = wd_run_id D, sr_shard = shard_key (wd_sharding D) (up_url p),
                    sr_depth = ue_depth (up_entry p), sr_content_hash = body_hash\<rparr>
      in case wd_write D record s of
        (Inl e, s) \<Rightarrow> ack_attempt D p s
      | (Inr blob_path, s) \<Rightarrow>
          let success = \<lparr>su_url = up_url p, su_attempt_id = up_attempt_id p, su_blob_path = blob_path, su_content_hash = body_hash,
                su_outbound = (case wc_link_dispatch (wd_config D) of DurableOutbox \<Rightarrow> outbound | Direct \<Rightarrow> [])\<rparr>;
              s = snd (wd_ledger D (CallSucceeded success) s);
              s = record_skips D SkipDepth (op_depth_skipped part) s;
              s = direct_dispatch D outbound s
          in ack_attempt D p s)"

definition run_pipeline :: "'s worker_deps \<Rightarrow> url_pipeline \<Rightarrow> 's \<Rightarrow> 's" where
  "run_pipeline D p s =
     (case politeness_allows D p s of
        (False, s) \<Rightarrow> s
      | (True, s) \<Rightarrow>
         (case worker_fetch D p (mark_attempting D p s) of
            (None, s) \<Rightarrow> s
          | (Some resp, s) \<Rightarrow>
             (case worker_extract D p resp s of
                (None, s) \<Rightarrow> s
              | (Some doc, s) \<Rightarrow>
                  finalize D p resp doc (compute_outbound (up_entry p) doc (depth_cap (wd_crawl_scope D))) s)))"

subsection \<open>The loop\<close>

text \<open>What one turn of the loop did: processed a URL, or slept. The list says of each turn the loop
  takes before it sees shutdown at its head whether shutdown comes during the turn's sleep.\<close>

datatype worker_turn = Processed url_pipeline | Idle duration

fun worker_loop :: "worker_identity \<Rightarrow> 's worker_deps \<Rightarrow> bool list \<Rightarrow> 's \<Rightarrow> worker_turn list \<times> 's" where
  "worker_loop identity D [] s = ([], s)"
| "worker_loop identity D (interrupted # turns) s =
     (case wd_claim D identity s of
        (Inr (ClaimedUrl url_id entry attempt_id), s) \<Rightarrow>
          let p = \<lparr>up_url_id = url_id, up_entry = entry, up_attempt_id = attempt_id\<rparr>;
              (ts, s) = worker_loop identity D turns (run_pipeline D p s)
          in (Processed p # ts, s)
      | (Inr (ClaimEmptyHint sleep_until), s) \<Rightarrow>
          let actual = min (sleep_until - wd_instant D s) (wc_max_idle_sleep (wd_config D));
              (ts, s) = (if interrupted then ([], s) else worker_loop identity D turns s)
          in (Idle actual # ts, s)
      | (Inr ClaimEmpty, s) \<Rightarrow>
          let (ts, s) = (if interrupted then ([], s) else worker_loop identity D turns s)
          in (Idle (wc_empty_queue_poll (wd_config D)) # ts, s)
      | (Inl e, s) \<Rightarrow>
          let (ts, s) = (if interrupted then ([], s) else worker_loop identity D turns s)
          in (Idle (wc_error_backoff (wd_config D)) # ts, s))"

end
