(* ===== verification/Worker_Protocol.thy ===== *)
theory Worker_Protocol
  imports Worker
begin

text \<open>
  What the pipeline of \<^verbatim>\<open>crawlrs-runtime/src/worker.rs\<close> says to its services. \<open>traced\<close> wraps every
  service so that its calls, with their answers, are appended to a log; the lemmas give the log
  of each phase, and the properties say how a claimed URL is settled whatever the services answer.
\<close>

subsection \<open>The log\<close>

datatype wevent =
  EvAck attempt_id
| EvWake string u64
| EvSubmit "url_entry list" "crawl_error + submit_batch_outcome"
| EvCheck canonical_url "crawl_error + polite_decision"
| EvRecordFetch canonical_url
| EvRecordFailure canonical_url failure_kind
| EvFetch canonical_url "crawl_error + fetch_response"
| EvParse fetch_response
| EvWrite store_record "crawl_error + string"
| EvLedger ledger_call "crawl_error + nat"

definition logged :: "('x \<Rightarrow> wevent) \<Rightarrow> ('s \<Rightarrow> 'x \<times> 's) \<Rightarrow> 's \<times> wevent list \<Rightarrow> 'x \<times> 's \<times> wevent list" where
  "logged ev f st = (case f (fst st) of (r, s) \<Rightarrow> (r, s, snd st @ [ev r]))"

definition traced :: "'s worker_deps \<Rightarrow> ('s \<times> wevent list) worker_deps" where
  "traced D =
     \<lparr>wd_claim = (\<lambda>i (s, tr). case wd_claim D i s of (r, s) \<Rightarrow> (r, s, tr)),
      wd_ack = (\<lambda>a. logged (\<lambda>_. EvAck a) (wd_ack D a)),
      wd_advance_wake = (\<lambda>h t. logged (\<lambda>_. EvWake h t) (wd_advance_wake D h t)),
      wd_submit_batch = (\<lambda>es. logged (EvSubmit es) (wd_submit_batch D es)),
      wd_check = (\<lambda>u. logged (EvCheck u) (wd_check D u)),
      wd_record_fetch = (\<lambda>u. logged (\<lambda>_. EvRecordFetch u) (wd_record_fetch D u)),
      wd_record_failure = (\<lambda>u k h. logged (\<lambda>_. EvRecordFailure u k) (wd_record_failure D u k h)),
      wd_fetch = (\<lambda>q. logged (EvFetch (fq_url q)) (wd_fetch D q)),
      wd_parse = (\<lambda>r. logged (\<lambda>_. EvParse r) (wd_parse D r)),
      wd_write = (\<lambda>x. logged (EvWrite x) (wd_write D x)),
      wd_ledger = (\<lambda>c. logged (EvLedger c) (wd_ledger D c)),
      wd_adapters = map (\<lambda>a. \<lparr>sa_matches = sa_matches a, sa_extract = (\<lambda>r. logged (\<lambda>_. EvParse r) (sa_extract a r))\<rparr>) (wd_adapters D),
      wd_now_ms = wd_now_ms D \<circ> fst,
      wd_instant = wd_instant D \<circ> fst,
      wd_http_date = wd_http_date D,
      wd_config = wd_config D,
      wd_crawl_scope = wd_crawl_scope D,
      wd_blocklist = wd_blocklist D,
      wd_run_id = wd_run_id D,
      wd_sharding = wd_sharding D\<rparr>"

lemma traced_sel [simp]:
  "wd_ack (traced D) a = logged (\<lambda>_. EvAck a) (wd_ack D a)"
  "wd_advance_wake (traced D) h t = logged (\<lambda>_. EvWake h t) (wd_advance_wake D h t)"
  "wd_submit_batch (traced D) es = logged (EvSubmit es) (wd_submit_batch D es)"
  "wd_check (traced D) u = logged (EvCheck u) (wd_check D u)"
  "wd_record_fetch (traced D) u = logged (\<lambda>_. EvRecordFetch u) (wd_record_fetch D u)"
  "wd_record_failure (traced D) u k ra = logged (\<lambda>_. EvRecordFailure u k) (wd_record_failure D u k ra)"
  "wd_fetch (traced D) q = logged (EvFetch (fq_url q)) (wd_fetch D q)"
  "wd_parse (traced D) r = logged (\<lambda>_. EvParse r) (wd_parse D r)"
  "wd_write (traced D) x = logged (EvWrite x) (wd_write D x)"
  "wd_ledger (traced D) c = logged (EvLedger c) (wd_ledger D c)"
  "wd_now_ms (traced D) st = wd_now_ms D (fst st)" "wd_http_date (traced D) = wd_http_date D"
  "wd_config (traced D) = wd_config D" "wd_crawl_scope (traced D) = wd_crawl_scope D"
  "wd_blocklist (traced D) = wd_blocklist D" "wd_run_id (traced D) = wd_run_id D" "wd_sharding (traced D) = wd_sharding D"
  by (simp_all add: traced_def)

lemma logged_apply: "logged ev f (s, tr) = (fst (f s), snd (f s), tr @ [ev (fst (f s))])"
  by (simp add: logged_def split: prod.split)

lemma find_traced:
  "find_for (wd_adapters (traced D)) u =
   map_option (\<lambda>a. \<lparr>sa_matches = sa_matches a, sa_extract = (\<lambda>r. logged (\<lambda>_. EvParse r) (sa_extract a r))\<rparr>) (find_for (wd_adapters D) u)"
proof -
  have "List.find (\<lambda>a. sa_matches a u) (map (\<lambda>a. \<lparr>sa_matches = sa_matches a, sa_extract = (\<lambda>r. logged (\<lambda>_. EvParse r) (sa_extract a r))\<rparr>) as) =
      map_option (\<lambda>a. \<lparr>sa_matches = sa_matches a, sa_extract = (\<lambda>r. logged (\<lambda>_. EvParse r) (sa_extract a r))\<rparr>) (List.find (\<lambda>a. sa_matches a u) as)" for as :: "'a site_adapter list"
    by (induction as) auto
  then show ?thesis by (simp add: find_for_def traced_def)
qed

subsection \<open>Acknowledged or left leased\<close>

fun is_ack :: "wevent \<Rightarrow> bool" where
  "is_ack (EvAck a) = True"
| "is_ack e = False"

definition unacked :: "wevent list \<Rightarrow> bool" where
  "unacked ev \<longleftrightarrow> list_all (\<lambda>e. \<not> is_ack e) ev"

definition acked :: "url_pipeline \<Rightarrow> wevent list \<Rightarrow> bool" where
  "acked p ev \<longleftrightarrow> ev \<noteq> [] \<and> last ev = EvAck (up_attempt_id p) \<and> unacked (butlast ev)"

text \<open>The answers after which the lease is left to expire.\<close>

fun leaves_lease :: "u32 \<Rightarrow> wevent \<Rightarrow> bool" where
  "leaves_lease budget (EvCheck u (Inl e)) = True"
| "leaves_lease budget (EvLedger (CallFailed u k) (Inl e)) = True"
| "leaves_lease budget (EvLedger (CallFailed u k) (Inr n)) = (n < budget)"
| "leaves_lease budget e = False"

definition settles :: "u32 \<Rightarrow> url_pipeline \<Rightarrow> wevent list \<Rightarrow> bool" where
  "settles budget p ev \<longleftrightarrow> acked p ev \<or> (unacked ev \<and> ev \<noteq> [] \<and> leaves_lease budget (last ev))"

lemma settles_prepend: "unacked a \<Longrightarrow> settles n p b \<Longrightarrow> settles n p (a @ b)"
  by (auto simp: settles_def acked_def unacked_def butlast_append)

lemma unacked_append [simp]: "unacked (a @ b) \<longleftrightarrow> unacked a \<and> unacked b"
  by (simp add: unacked_def)

lemma unacked_simps [simp]: "unacked []" "unacked (e # es) \<longleftrightarrow> \<not> is_ack e \<and> unacked es"
  by (simp_all add: unacked_def)

lemma settles_ack: "unacked pre \<Longrightarrow> settles n p (pre @ [EvAck (up_attempt_id p)])"
  by (simp add: settles_def acked_def)

lemma settles_leased: "unacked ev \<Longrightarrow> ev \<noteq> [] \<Longrightarrow> leaves_lease n (last ev) \<Longrightarrow> settles n p ev"
  by (simp add: settles_def)

subsection \<open>The log of each phase\<close>

lemma ack_log: "\<exists>s'. ack_attempt (traced D) p (s, tr) = (s', tr @ [EvAck (up_attempt_id p)])"
  by (simp add: ack_attempt_def logged_apply)

lemma skip_log: "\<exists>s' r. record_discovered_skip (traced D) why e (s, tr) =
    (s', tr @ [EvLedger (CallSkipped (ue_url e) (wd_run_id D) (ue_depth e) (ue_discovered_from e) why) r])"
  by (simp add: record_discovered_skip_def logged_apply)

text \<open>The skips of a list of entries, in order.\<close>

definition skip_events :: "run_id \<Rightarrow> skip_reason \<Rightarrow> url_entry list \<Rightarrow> (crawl_error + nat) list \<Rightarrow> wevent list" where
  "skip_events run why es rs =
     map2 (\<lambda>e r. EvLedger (CallSkipped (ue_url e) run (ue_depth e) (ue_discovered_from e) why) r) es rs"

lemma skips_log: "\<exists>s' rs. length rs = length es \<and> record_skips (traced D) why es (s, tr) = (s', tr @ skip_events (wd_run_id D) why es rs)"
proof (induction es arbitrary: s tr)
  case Nil
  then show ?case by (simp add: record_skips_def skip_events_def)
next
  case (Cons e es)
  obtain s1 r where 1: "record_discovered_skip (traced D) why e (s, tr) =
    (s1, tr @ [EvLedger (CallSkipped (ue_url e) (wd_run_id D) (ue_depth e) (ue_discovered_from e) why) r])"
    using skip_log [of D why e s tr] by auto
  obtain s2 rs where "length rs = length es" "record_skips (traced D) why es (s1, tr @ [EvLedger (CallSkipped (ue_url e) (wd_run_id D) (ue_depth e) (ue_discovered_from e) why) r]) =
      (s2, (tr @ [EvLedger (CallSkipped (ue_url e) (wd_run_id D) (ue_depth e) (ue_discovered_from e) why) r]) @ skip_events (wd_run_id D) why es rs)"
    using Cons.IH [of s1 "tr @ [EvLedger (CallSkipped (ue_url e) (wd_run_id D) (ue_depth e) (ue_discovered_from e) why) r]"] by auto
  then show ?case using 1 by (intro exI [of _ s2] exI [of _ "r # rs"]) (simp add: record_skips_def skip_events_def)
qed

lemma skip_events_unacked [simp]: "unacked (skip_events run why es rs)"
proof -
  have "unacked (map (\<lambda>(e, r). EvLedger (CallSkipped (ue_url e) run (ue_depth e) (ue_discovered_from e) why) r) xs)" for xs
    by (induction xs) auto
  then show ?thesis by (simp add: skip_events_def)
qed

lemma wake_log: "\<exists>s' ev. apply_wake_plan (traced D) plan (s, tr) = (s', tr @ ev) \<and> (ev = [] \<or> (\<exists>h t. ev = [EvWake h t]))"
  by (auto simp: apply_wake_plan_def logged_apply split: sum.split)

lemma allows_log:
  obtains (allow) s' where "politeness_allows (traced D) p (s, tr) = (True, s', tr @ [EvCheck (up_url p) (Inr Allow)])"
      "\<not> (\<exists>h. cu_host (up_url p) = Some h \<and> is_blocked (wd_blocklist D) h)"
  | (stop) s' ev where "politeness_allows (traced D) p (s, tr) = (False, s', tr @ ev)" "settles n p ev"
      "\<forall>e \<in> set ev. (\<exists>r. e = EvCheck (up_url p) r \<and> r \<noteq> Inr Allow) \<or> e = EvAck (up_attempt_id p) \<or>
         (\<exists>why r. e = EvLedger (CallSkipped (up_url p) (wd_run_id D) (ue_depth (up_entry p)) (ue_discovered_from (up_entry p)) why) r)"
proof (cases "case cu_host (up_url p) of Some host \<Rightarrow> is_blocked (wd_blocklist D) host | None \<Rightarrow> False")
  case True
  then show thesis
    by (intro stop) (auto simp: politeness_allows_def record_discovered_skip_def ack_attempt_def logged_apply settles_def acked_def
      split: option.splits)
next
  case False
  obtain r s1 where r: "wd_check D (up_url p) s = (r, s1)" by (metis surj_pair)
  show thesis
  proof (cases r)
    case (Inl e)
    then show thesis using False r by (intro stop) (auto simp: politeness_allows_def logged_apply settles_def split: option.splits)
  next
    case (Inr d)
    show thesis
    proof (cases d)
      case Allow
      then show thesis using False r Inr by (intro allow) (auto simp: politeness_allows_def logged_apply split: option.splits)
    next
      case (Disallow reason)
      then show thesis using False r Inr
        by (cases reason; intro stop)
          (auto simp: politeness_allows_def logged_apply settles_def acked_def record_discovered_skip_def ack_attempt_def
            split: option.splits)
    qed
  qed
qed

lemma failure_log:
  "\<exists>s' ev. handle_failure (traced D) p kind reason (s, tr) = (s', tr @ ev) \<and> settles (wc_max_retries (wd_config D)) p ev \<and>
     (\<exists>r. ev = [EvLedger (CallFailed (up_url p) kind) r] \<or>
       (\<exists>n why q. r = Inr n \<and> n \<ge> wc_max_retries (wd_config D) \<and>
          ev = [EvLedger (CallFailed (up_url p) kind) r, EvLedger (CallGiveUp (up_url p) why) q, EvAck (up_attempt_id p)]))"
proof -
  obtain r s1 where r: "wd_ledger D (CallFailed (up_url p) kind) s = (r, s1)" by (metis surj_pair)
  show ?thesis
  proof (cases r)
    case (Inl e)
    then show ?thesis using r by (auto simp: handle_failure_def logged_apply settles_def)
  next
    case (Inr n)
    show ?thesis
    proof (cases "n \<ge> wc_max_retries (wd_config D)")
      case True
      then show ?thesis using r Inr
        by (auto simp: handle_failure_def logged_apply settles_def acked_def ack_attempt_def Let_def)
    next
      case False
      then show ?thesis using r Inr by (auto simp: handle_failure_def logged_apply settles_def)
    qed
  qed
qed

text \<open>What a failed fetch says after the fetch itself.\<close>

definition failure_events :: "'s worker_deps \<Rightarrow> url_pipeline \<Rightarrow> failure_kind \<Rightarrow> wevent list \<Rightarrow> bool" where
  "failure_events D p kind ev \<longleftrightarrow>
     (\<forall>e \<in> set ev. (\<exists>h t. e = EvWake h t) \<or> e = EvAck (up_attempt_id p) \<or> (\<exists>r. e = EvLedger (CallFailed (up_url p) kind) r) \<or>
        (\<exists>why r n. e = EvLedger (CallGiveUp (up_url p) why) r \<and> n \<ge> wc_max_retries (wd_config D) \<and>
           EvLedger (CallFailed (up_url p) kind) (Inr n) \<in> set ev))"

lemma record_failure_log:
  assumes "wd_record_failure D (up_url p) kind ra s = (plan, s1)"
  shows "\<exists>s' ev. handle_failure (traced D) p kind reason (apply_wake_plan (traced D) plan (s1, tr @ [EvRecordFailure (up_url p) kind])) =
       (s', tr @ EvRecordFailure (up_url p) kind # ev) \<and> settles (wc_max_retries (wd_config D)) p ev \<and>
     failure_events D p kind ev"
proof -
  obtain s2 w where 2: "apply_wake_plan (traced D) plan (s1, tr @ [EvRecordFailure (up_url p) kind]) = (s2, tr @ EvRecordFailure (up_url p) kind # w)"
      "w = [] \<or> (\<exists>h t. w = [EvWake h t])"
    using wake_log [of D plan s1 "tr @ [EvRecordFailure (up_url p) kind]"] by auto
  obtain s3 ev r where 3: "handle_failure (traced D) p kind reason (s2, tr @ EvRecordFailure (up_url p) kind # w) =
      (s3, (tr @ EvRecordFailure (up_url p) kind # w) @ ev)" "settles (wc_max_retries (wd_config D)) p ev"
      "ev = [EvLedger (CallFailed (up_url p) kind) r] \<or>
       (\<exists>n why q. r = Inr n \<and> n \<ge> wc_max_retries (wd_config D) \<and>
          ev = [EvLedger (CallFailed (up_url p) kind) r, EvLedger (CallGiveUp (up_url p) why) q, EvAck (up_attempt_id p)])"
    using failure_log [of D p kind reason s2 "tr @ EvRecordFailure (up_url p) kind # w"] by blast
  have "unacked w" using 2(2) by auto
  then have "settles (wc_max_retries (wd_config D)) p (w @ ev)" using 3(2) settles_prepend by blast
  moreover have "handle_failure (traced D) p kind reason (apply_wake_plan (traced D) plan (s1, tr @ [EvRecordFailure (up_url p) kind])) =
      (s3, tr @ EvRecordFailure (up_url p) kind # w @ ev)"
    using 2(1) 3(1) by simp
  moreover have "failure_events D p kind (w @ ev)" using 2(2) 3(3) by (auto simp: failure_events_def)
  ultimately show ?thesis by blast
qed


lemma fetch_log:
  obtains (ok) s' resp w where "worker_fetch (traced D) p (s, tr) = (Some resp, s', tr @ EvFetch (up_url p) (Inr resp) # EvRecordFetch (up_url p) # w)"
      "w = [] \<or> (\<exists>h t. w = [EvWake h t])" "classify_status (fr_status resp) = None"
  | (fail) s' r kind ev where "worker_fetch (traced D) p (s, tr) = (None, s', tr @ EvFetch (up_url p) r # EvRecordFailure (up_url p) kind # ev)"
      "settles (wc_max_retries (wd_config D)) p ev"
      "failure_events D p kind ev"
proof -
  obtain r s1 where r: "wd_fetch D (fetch_request_new (up_url p)) s = (r, s1)" by (metis surj_pair)
  have q: "fq_url (fetch_request_new (up_url p)) = up_url p" by (simp add: fetch_request_new_def)
  let ?tr = "tr @ [EvFetch (up_url p) r]"
  consider (err) e where "r = Inl e" | (status) resp kind where "r = Inr resp" "classify_status (fr_status resp) = Some kind"
    | (good) resp where "r = Inr resp" "classify_status (fr_status resp) = None"
    by (cases r; cases "classify_status (fr_status (projr r))") auto
  then show thesis
  proof cases
    case err
    obtain plan s2 where 2: "wd_record_failure D (up_url p) (failure_of e) None s1 = (plan, s2)" by (metis surj_pair)
    obtain s3 ev where 3: "handle_failure (traced D) p (failure_of e) (''transport: '' @ show_error e) (apply_wake_plan (traced D) plan
        (s2, ?tr @ [EvRecordFailure (up_url p) (failure_of e)])) = (s3, ?tr @ EvRecordFailure (up_url p) (failure_of e) # ev)"
        and ev: "settles (wc_max_retries (wd_config D)) p ev" "failure_events D p (failure_of e) ev"
      using record_failure_log [OF 2, of "''transport: '' @ show_error e" ?tr] by auto
    show thesis by (rule fail [OF _ ev]) (use r q err 2 3 in \<open>simp add: worker_fetch_def logged_apply\<close>)
  next
    case status
    let ?ra = "extract_retry_after (wd_http_date D) (wd_now_ms D s1) (fr_headers resp)"
    obtain plan s2 where 2: "wd_record_failure D (up_url p) kind ?ra s1 = (plan, s2)" by (metis surj_pair)
    obtain s3 ev where 3: "handle_failure (traced D) p kind (''http '' @ show_nat (fr_status resp)) (apply_wake_plan (traced D) plan
        (s2, ?tr @ [EvRecordFailure (up_url p) kind])) = (s3, ?tr @ EvRecordFailure (up_url p) kind # ev)"
        and ev: "settles (wc_max_retries (wd_config D)) p ev" "failure_events D p kind ev"
      using record_failure_log [OF 2, of "''http '' @ show_nat (fr_status resp)" ?tr] by auto
    show thesis by (rule fail [OF _ ev]) (use r q status 2 3 in \<open>simp add: worker_fetch_def logged_apply\<close>)
  next
    case good
    obtain plan s2 where 2: "wd_record_fetch D (up_url p) s1 = (plan, s2)" by (metis surj_pair)
    obtain s3 w where "apply_wake_plan (traced D) plan (s2, tr @ [EvFetch (up_url p) r, EvRecordFetch (up_url p)]) =
        (s3, tr @ EvFetch (up_url p) r # EvRecordFetch (up_url p) # w)" "w = [] \<or> (\<exists>h t. w = [EvWake h t])"
      using wake_log [of D plan s2 "tr @ [EvFetch (up_url p) r, EvRecordFetch (up_url p)]"] by auto
    then show thesis using r q good 2 by (intro ok [of resp s3 w]) (auto simp: worker_fetch_def logged_apply)
  qed
qed

lemma parse_fail_log: "\<exists>s' r. fail_parse (traced D) p reason (s, tr) =
    (s', tr @ [EvLedger (CallGiveUp (up_url p) (''parse: '' @ reason)) r, EvAck (up_attempt_id p)])"
  by (simp add: fail_parse_def ack_attempt_def logged_apply)

text \<open>The log of an extraction: one or two parsers, and on failure the dead letter and the
  acknowledgement.\<close>

definition parse_tail :: "url_pipeline \<Rightarrow> parsed_document option \<Rightarrow> wevent list \<Rightarrow> bool" where
  "parse_tail p doc ev \<longleftrightarrow>
     (if doc = None then \<exists>why r. ev = [EvLedger (CallGiveUp (up_url p) why) r, EvAck (up_attempt_id p)] else ev = [])"

lemma generic_log: "\<exists>doc s' ev. parse_generic (traced D) p resp (s, tr) = (doc, s', tr @ EvParse resp # ev) \<and> parse_tail p doc ev"
proof -
  obtain r s1 where r: "wd_parse D resp s = (r, s1)" by (metis surj_pair)
  show ?thesis
  proof (cases r)
    case (Inl e)
    then show ?thesis using r parse_fail_log [of D p "''parser: '' @ show_error e" s1 "tr @ [EvParse resp]"]
      by (auto simp: parse_generic_def logged_apply parse_tail_def)
  next
    case (Inr doc)
    then show ?thesis using r by (auto simp: parse_generic_def logged_apply parse_tail_def)
  qed
qed

lemma extract_log:
  obtains doc s' k ev where "worker_extract (traced D) p resp (s, tr) = (doc, s', tr @ replicate (Suc k) (EvParse resp) @ ev)" "parse_tail p doc ev"
proof (cases "find_for (wd_adapters D) (fr_url resp)")
  case None
  then show thesis using generic_log [of D p resp s tr] that [of _ _ 0] by (auto simp: worker_extract_def find_traced)
next
  case (Some a)
  obtain r s1 where r: "sa_extract a resp s = (r, s1)" by (metis surj_pair)
  consider (err) e where "r = Inl e" | (doc) d where "r = Inr (Some d)" | (punt) "r = Inr None"
    by (metis old.sum.exhaust option.exhaust)
  then show thesis
  proof cases
    case err
    then show thesis
      using r Some parse_fail_log [of D p "''adapter: '' @ show_error e" s1 "tr @ [EvParse resp]"] that [of None _ 0]
      by (auto simp: worker_extract_def find_traced logged_apply parse_tail_def)
  next
    case doc
    then show thesis using r Some that [of "Some d" s1 0 "[]"] by (auto simp: worker_extract_def find_traced logged_apply parse_tail_def)
  next
    case punt
    obtain d s2 ev where "parse_generic (traced D) p resp (s1, tr @ [EvParse resp]) = (d, s2, (tr @ [EvParse resp]) @ EvParse resp # ev)"
        "parse_tail p d ev" using generic_log [of D p resp s1 "tr @ [EvParse resp]"] by auto
    then show thesis using r Some punt that [of d s2 1 ev] by (auto simp: worker_extract_def find_traced logged_apply)
  qed
qed

text \<open>The log of dispatching links to the frontier.\<close>

definition dispatch_events :: "'s worker_deps \<Rightarrow> url_entry list \<Rightarrow> wevent list \<Rightarrow> bool" where
  "dispatch_events D links ev \<longleftrightarrow>
     (if wc_link_dispatch (wd_config D) = Direct \<and> links \<noteq> [] then
        \<exists>q rs. ev = EvSubmit links q # (case q of Inl _ \<Rightarrow> [] | Inr out \<Rightarrow> skip_events (wd_run_id D) SkipMaxUrls (sb_rejected_urls out) rs)
      else ev = [])"

lemma dispatch_log: "\<exists>s' ev. direct_dispatch (traced D) links (s, tr) = (s', tr @ ev) \<and> dispatch_events D links ev"
proof (cases "wc_link_dispatch (wd_config D) = Direct \<and> links \<noteq> []")
  case True
  obtain q s1 where q: "wd_submit_batch D links s = (q, s1)" by (metis surj_pair)
  show ?thesis
  proof (cases q)
    case (Inr out)
    then show ?thesis using True q skips_log [of "sb_rejected_urls out" D SkipMaxUrls s1 "tr @ [EvSubmit links q]"]
      by (auto simp: direct_dispatch_def logged_apply dispatch_events_def)
  qed (use True q in \<open>auto simp: direct_dispatch_def logged_apply dispatch_events_def\<close>)
qed (auto simp: direct_dispatch_def dispatch_events_def)

lemma dispatch_unacked: "dispatch_events D links ev \<Longrightarrow> unacked ev"
proof -
  have "unacked (EvSubmit links q # (case q of Inl _ \<Rightarrow> [] | Inr out \<Rightarrow> skip_events run SkipMaxUrls (sb_rejected_urls out) rs))" for q run rs
    by (cases q) auto
  then show "dispatch_events D links ev \<Longrightarrow> ?thesis" by (fastforce simp: dispatch_events_def split: if_splits)
qed


lemma skip_event: "e \<in> set (skip_events run why es rs) \<Longrightarrow> \<exists>u d f r. e = EvLedger (CallSkipped u run d f why) r"
  by (auto simp: skip_events_def)

lemma dispatch_event:
  assumes "dispatch_events D links ev" "e \<in> set ev"
  shows "(\<exists>q. e = EvSubmit links q) \<or> (\<exists>u d f r. e = EvLedger (CallSkipped u (wd_run_id D) d f SkipMaxUrls) r)"
proof -
  obtain q rs where "ev = [] \<or> ev = EvSubmit links q # (case q of Inl _ \<Rightarrow> [] | Inr out \<Rightarrow> skip_events (wd_run_id D) SkipMaxUrls (sb_rejected_urls out) rs)"
    using assms(1) by (auto simp: dispatch_events_def split: if_splits)
  then show ?thesis
    using assms(2) skip_event [of e "wd_run_id D" SkipMaxUrls "sb_rejected_urls (projr q)" rs] by (cases q) auto
qed

definition success_of :: "'s worker_deps \<Rightarrow> url_pipeline \<Rightarrow> fetch_response \<Rightarrow> string \<Rightarrow> outbound_partition \<Rightarrow> success_record" where
  "success_of D p resp path part =
     \<lparr>su_url = up_url p, su_attempt_id = up_attempt_id p, su_blob_path = path, su_content_hash = content_hash (fr_body resp),
      su_outbound = (if wc_link_dispatch (wd_config D) = Direct then [] else op_kept part)\<rparr>"

definition blob_of :: "'s worker_deps \<Rightarrow> url_pipeline \<Rightarrow> fetch_response \<Rightarrow> parsed_document \<Rightarrow> store_record" where
  "blob_of D p resp doc =
     \<lparr>sr_doc = doc, sr_resp = resp, sr_run_id = wd_run_id D, sr_shard = shard_key (wd_sharding D) (up_url p),
      sr_depth = ue_depth (up_entry p), sr_content_hash = content_hash (fr_body resp)\<rparr>"

text \<open>The log of the last phase: the blob, then the success, the skipped links, the links sent to the
  frontier, and at the end of either path the acknowledgement.\<close>

definition commit_events :: "'s worker_deps \<Rightarrow> url_pipeline \<Rightarrow> fetch_response \<Rightarrow> parsed_document \<Rightarrow> outbound_partition \<Rightarrow> wevent list \<Rightarrow> bool" where
  "commit_events D p resp doc part ev \<longleftrightarrow>
     (\<exists>e. ev = [EvWrite (blob_of D p resp doc) (Inl e), EvAck (up_attempt_id p)]) \<or>
     (\<exists>path r rs sends. length rs = length (op_depth_skipped part) \<and> dispatch_events D (op_kept part) sends \<and>
        ev = EvWrite (blob_of D p resp doc) (Inr path) # EvLedger (CallSucceeded (success_of D p resp path part)) r #
          skip_events (wd_run_id D) SkipDepth (op_depth_skipped part) rs @ sends @ [EvAck (up_attempt_id p)])"

lemma commit_log: "\<exists>s' ev. finalize (traced D) p resp doc part (s, tr) = (s', tr @ ev) \<and> commit_events D p resp doc part ev"
proof -
  let ?b = "blob_of D p resp doc"
  obtain w s1 where w: "wd_write D ?b s = (w, s1)" by (metis surj_pair)
  show ?thesis
  proof (cases w)
    case (Inl e)
    then show ?thesis using w
      by (auto simp: finalize_def commit_events_def logged_apply ack_attempt_def blob_of_def)
  next
    case (Inr path)
    let ?su = "success_of D p resp path part"
    have su: "\<lparr>su_url = up_url p, su_attempt_id = up_attempt_id p, su_blob_path = path, su_content_hash = content_hash (fr_body resp),
        su_outbound = (case wc_link_dispatch (wd_config D) of DurableOutbox \<Rightarrow> op_kept part | Direct \<Rightarrow> [])\<rparr> = ?su"
      by (simp add: success_of_def split: link_dispatch.split)
    obtain r s2 where r: "wd_ledger D (CallSucceeded ?su) s1 = (r, s2)" by (metis surj_pair)
    let ?tr = "tr @ [EvWrite ?b w, EvLedger (CallSucceeded ?su) r]"
    obtain s3 rs where sk: "length rs = length (op_depth_skipped part)"
        "record_skips (traced D) SkipDepth (op_depth_skipped part) (s2, ?tr) = (s3, ?tr @ skip_events (wd_run_id D) SkipDepth (op_depth_skipped part) rs)"
      using skips_log [of "op_depth_skipped part" D SkipDepth s2 ?tr] by auto
    let ?tr2 = "?tr @ skip_events (wd_run_id D) SkipDepth (op_depth_skipped part) rs"
    obtain s4 ev where d: "direct_dispatch (traced D) (op_kept part) (s3, ?tr2) = (s4, ?tr2 @ ev)" "dispatch_events D (op_kept part) ev"
      using dispatch_log [of D "op_kept part" s3 ?tr2] by auto
    have "finalize (traced D) p resp doc part (s, tr) = ack_attempt (traced D) p (s4, ?tr2 @ ev)"
      using w Inr r sk(2) d(1) unfolding finalize_def su traced_sel Let_def by (simp add: logged_apply blob_of_def su)
    then show ?thesis using sk(1) d(2) Inr by (auto simp: commit_events_def ack_attempt_def logged_apply)
  qed
qed

lemma commit_settles: "commit_events D p resp doc part ev \<Longrightarrow> settles n p ev"
proof -
  have "settles n p ((EvWrite b (Inr path) # EvLedger (CallSucceeded su) r # skip_events run SkipDepth es rs @ sends) @ [EvAck (up_attempt_id p)])"
    if "dispatch_events D links sends" for b path su r run es rs sends links
    using dispatch_unacked [OF that] by (intro settles_ack) simp
  moreover have "settles n p ([EvWrite b (Inl e)] @ [EvAck (up_attempt_id p)])" for b e
    by (intro settles_ack) simp
  ultimately show "commit_events D p resp doc part ev \<Longrightarrow> ?thesis" by (auto simp: commit_events_def)
qed

subsection \<open>The log of the whole pipeline\<close>

abbreviation prologue :: "'s worker_deps \<Rightarrow> url_pipeline \<Rightarrow> crawl_error + nat \<Rightarrow> wevent list" where
  "prologue D p r \<equiv> [EvCheck (up_url p) (Inr Allow), EvLedger (CallAttempting (up_url p) (wd_run_id D) (ue_depth (up_entry p))) r]"

lemma pipeline_log:
  obtains (refused) s' ev where "run_pipeline (traced D) p (s, tr) = (s', tr @ ev)" "settles (wc_max_retries (wd_config D)) p ev"
      "\<forall>e \<in> set ev. (\<exists>r. e = EvCheck (up_url p) r \<and> r \<noteq> Inr Allow) \<or> e = EvAck (up_attempt_id p) \<or>
         (\<exists>why r. e = EvLedger (CallSkipped (up_url p) (wd_run_id D) (ue_depth (up_entry p)) (ue_discovered_from (up_entry p)) why) r)"
  | (failed) s' a r kind ev where "\<not> (\<exists>h. cu_host (up_url p) = Some h \<and> is_blocked (wd_blocklist D) h)"
      "run_pipeline (traced D) p (s, tr) = (s', tr @ prologue D p a @ EvFetch (up_url p) r # EvRecordFailure (up_url p) kind # ev)"
      "settles (wc_max_retries (wd_config D)) p ev" "failure_events D p kind ev"
  | (unparsed) s' a resp w k why q where "\<not> (\<exists>h. cu_host (up_url p) = Some h \<and> is_blocked (wd_blocklist D) h)"
      "w = [] \<or> (\<exists>h t. w = [EvWake h t])" "classify_status (fr_status resp) = None"
      "run_pipeline (traced D) p (s, tr) = (s', tr @ prologue D p a @ EvFetch (up_url p) (Inr resp) # EvRecordFetch (up_url p) # w @
         replicate (Suc k) (EvParse resp) @ [EvLedger (CallGiveUp (up_url p) why) q, EvAck (up_attempt_id p)])"
  | (crawled) s' a resp doc w k ev where "\<not> (\<exists>h. cu_host (up_url p) = Some h \<and> is_blocked (wd_blocklist D) h)"
      "w = [] \<or> (\<exists>h t. w = [EvWake h t])" "classify_status (fr_status resp) = None"
      "run_pipeline (traced D) p (s, tr) = (s', tr @ prologue D p a @ EvFetch (up_url p) (Inr resp) # EvRecordFetch (up_url p) # w @
         replicate (Suc k) (EvParse resp) @ ev)"
      "commit_events D p resp doc (compute_outbound (up_entry p) doc (depth_cap (wd_crawl_scope D))) ev"
proof -
  have go: "thesis" if al: "politeness_allows (traced D) p (s, tr) = (True, s0, tr @ [EvCheck (up_url p) (Inr Allow)])"
      and nb: "\<not> (\<exists>h. cu_host (up_url p) = Some h \<and> is_blocked (wd_blocklist D) h)" for s0
  proof -
    obtain a s1 where a: "wd_ledger D (CallAttempting (up_url p) (wd_run_id D) (ue_depth (up_entry p))) s0 = (a, s1)" by (metis surj_pair)
    let ?tr = "tr @ prologue D p a"
    have m: "mark_attempting (traced D) p (s0, tr @ [EvCheck (up_url p) (Inr Allow)]) = (s1, ?tr)"
      using a by (simp add: mark_attempting_def logged_apply)
    show thesis
    proof (cases rule: fetch_log [of D p s1 ?tr])
      case (fail s' r kind ev)
      then show thesis using al m by (intro failed [OF nb _ fail(2,3)]) (simp add: run_pipeline_def)
    next
      case (ok s2 resp w)
      let ?tr2 = "?tr @ EvFetch (up_url p) (Inr resp) # EvRecordFetch (up_url p) # w"
      obtain d s3 k ev where e: "worker_extract (traced D) p resp (s2, ?tr2) = (d, s3, ?tr2 @ replicate (Suc k) (EvParse resp) @ ev)"
          "parse_tail p d ev" by (rule extract_log)
      show thesis
      proof (cases d)
        case None
        then obtain why q where "ev = [EvLedger (CallGiveUp (up_url p) why) q, EvAck (up_attempt_id p)]" using e(2) by (auto simp: parse_tail_def)
        then show thesis using al m ok e None by (intro unparsed [OF nb ok(2,3)]) (simp add: run_pipeline_def)
      next
        case (Some doc)
        then have "ev = []" using e(2) by (auto simp: parse_tail_def)
        let ?part = "compute_outbound (up_entry p) doc (depth_cap (wd_crawl_scope D))"
        let ?tr3 = "?tr2 @ replicate (Suc k) (EvParse resp)"
        obtain s4 ev' where "finalize (traced D) p resp doc ?part (s3, ?tr3) = (s4, ?tr3 @ ev')" "commit_events D p resp doc ?part ev'"
          using commit_log [of D p resp doc ?part s3 ?tr3] by auto
        then show thesis using al m ok e Some \<open>ev = []\<close> by (intro crawled [OF nb ok(2,3)]) (auto simp: run_pipeline_def)
      qed
    qed
  qed
  show thesis
  proof (cases rule: allows_log [where D = D and p = p and s = s and tr = tr and n = "wc_max_retries (wd_config D)"])
    case (allow s0)
    then show thesis by (rule go)
  next
    case (stop s0 ev)
    then show thesis by (intro refused [of s0 ev]) (simp_all add: run_pipeline_def)
  qed
qed


subsection \<open>The traced services behave as the services\<close>

lemma fst_logged [simp]: "fst (logged ev f st) = fst (f (fst st))" "fst (snd (logged ev f st)) = snd (f (fst st))"
  by (simp_all add: logged_def split: prod.split)

lemma logged_case: "logged ev f st = (fst (f (fst st)), snd (f (fst st)), snd st @ [ev (fst (f (fst st)))])"
  by (simp add: logged_def split: prod.split)

lemma fst_simple_phases [simp]:
  "fst (ack_attempt (traced D) p st) = ack_attempt D p (fst st)"
  "fst (record_discovered_skip (traced D) why e st) = record_discovered_skip D why e (fst st)"
  "fst (mark_attempting (traced D) p st) = mark_attempting D p (fst st)"
  "fst (apply_wake_plan (traced D) plan st) = apply_wake_plan D plan (fst st)"
  "fst (fail_parse (traced D) p reason st) = fail_parse D p reason (fst st)"
  by (simp_all add: ack_attempt_def record_discovered_skip_def mark_attempting_def apply_wake_plan_def fail_parse_def split: sum.split)

lemma fst_skips [simp]: "fst (record_skips (traced D) why es st) = record_skips D why es (fst st)"
  by (induction es arbitrary: st) (simp_all add: record_skips_def)

lemma fst_handle_failure [simp]: "fst (handle_failure (traced D) p kind reason st) = handle_failure D p kind reason (fst st)"
  by (simp add: handle_failure_def logged_case Let_def split: prod.split sum.split)

text \<open>Of an answer and a logged state, the answer and the state.\<close>

abbreviation unlog :: "'x \<times> 's \<times> wevent list \<Rightarrow> 'x \<times> 's" where
  "unlog r \<equiv> (fst r, fst (snd r))"

lemma unlog_allows: "unlog (politeness_allows (traced D) p st) = politeness_allows D p (fst st)"
  by (auto simp: politeness_allows_def logged_case Let_def split: option.split prod.split sum.split polite_decision.split)

lemma unlog_fetch: "unlog (worker_fetch (traced D) p st) = worker_fetch D p (fst st)"
  by (auto simp: worker_fetch_def logged_case Let_def split: option.split prod.split sum.split)

lemma unlog_generic: "unlog (parse_generic (traced D) p resp st) = parse_generic D p resp (fst st)"
  by (auto simp: parse_generic_def logged_case split: prod.split sum.split)

lemma unlog_extract: "unlog (worker_extract (traced D) p resp st) = worker_extract D p resp (fst st)"
  using unlog_generic [of D p resp]
  by (auto simp: worker_extract_def find_traced logged_case split: option.split prod.split sum.split)

lemma fst_dispatch [simp]: "fst (direct_dispatch (traced D) links st) = direct_dispatch D links (fst st)"
  by (simp add: direct_dispatch_def logged_case split: prod.split sum.split)

lemma fst_finalize: "fst (finalize (traced D) p resp doc part st) = finalize D p resp doc part (fst st)"
  by (simp add: finalize_def logged_case Let_def split: prod.split sum.split)

lemma fst_pipeline: "fst (run_pipeline (traced D) p st) = run_pipeline D p (fst st)"
proof -
  obtain b s1 tr1 where 1: "politeness_allows (traced D) p st = (b, s1, tr1)" by (metis prod.exhaust)
  then have a: "politeness_allows D p (fst st) = (b, s1)" using unlog_allows [of D p st] by simp
  show ?thesis
  proof (cases b)
    case True
    obtain r s2 tr2 where 2: "worker_fetch (traced D) p (mark_attempting (traced D) p (s1, tr1)) = (r, s2, tr2)" by (metis prod.exhaust)
    then have f: "worker_fetch D p (mark_attempting D p s1) = (r, s2)"
      using unlog_fetch [of D p "mark_attempting (traced D) p (s1, tr1)"] by simp
    show ?thesis
    proof (cases r)
      case (Some resp)
      obtain d s3 tr3 where 3: "worker_extract (traced D) p resp (s2, tr2) = (d, s3, tr3)" by (metis prod.exhaust)
      then have "worker_extract D p resp s2 = (d, s3)" using unlog_extract [of D p resp "(s2, tr2)"] by simp
      then show ?thesis using True 1 a 2 f 3 Some by (cases d) (simp_all add: run_pipeline_def fst_finalize)
    qed (use True 1 a 2 f in \<open>simp add: run_pipeline_def\<close>)
  qed (use 1 a in \<open>simp add: run_pipeline_def\<close>)
qed

subsection \<open>Outbound links\<close>

definition over_cap :: "crawl_scope \<Rightarrow> u32 \<Rightarrow> canonical_url \<Rightarrow> bool" where
  "over_cap sc depth u = (case Option.bind (cu_host u) (depth_cap sc) of Some limit \<Rightarrow> depth > limit | None \<Rightarrow> False)"

lemma outbound_loop_spec:
  "outbound_loop parent d (depth_cap sc) urls acc =
     \<lparr>op_kept = op_kept acc @ map (\<lambda>u. \<lparr>ue_url = u, ue_depth = d, ue_discovered_from = Some (ue_url parent)\<rparr>)
        (filter (\<lambda>u. is_http u \<and> \<not> over_cap sc d u) urls),
      op_depth_skipped = op_depth_skipped acc @ map (\<lambda>u. \<lparr>ue_url = u, ue_depth = d, ue_discovered_from = Some (ue_url parent)\<rparr>)
        (filter (\<lambda>u. is_http u \<and> over_cap sc d u) urls)\<rparr>"
  by (induction urls arbitrary: acc) (auto simp: over_cap_def Let_def)

text \<open>The entry a link of a page gives, and where the commit of the page accounts for it.\<close>

definition link_entry :: "url_pipeline \<Rightarrow> canonical_url \<Rightarrow> url_entry" where
  "link_entry p u = \<lparr>ue_url = u, ue_depth = (ue_depth (up_entry p) + 1) mod 2 ^ 32, ue_discovered_from = Some (up_url p)\<rparr>"

lemma link_entry_sel [simp]:
  "ue_url (link_entry p u) = u" "ue_depth (link_entry p u) = (ue_depth (up_entry p) + 1) mod 2 ^ 32" "ue_discovered_from (link_entry p u) = Some (up_url p)"
  by (simp_all add: link_entry_def)

lemma compute_outbound_parts:
  "op_kept (compute_outbound (up_entry p) doc (depth_cap sc)) =
     map (link_entry p) (filter (\<lambda>u. is_http u \<and> \<not> over_cap sc ((ue_depth (up_entry p) + 1) mod 2 ^ 32) u) (pd_outbound_links doc))"
  "op_depth_skipped (compute_outbound (up_entry p) doc (depth_cap sc)) =
     map (link_entry p) (filter (\<lambda>u. is_http u \<and> over_cap sc ((ue_depth (up_entry p) + 1) mod 2 ^ 32) u) (pd_outbound_links doc))"
  by (simp_all add: compute_outbound_def outbound_loop_spec link_entry_def)

lemma skip_logged:
  assumes "length rs = length links" "e \<in> set links"
  shows "\<exists>q. EvLedger (CallSkipped (ue_url e) run (ue_depth e) (ue_discovered_from e) why) q \<in> set (skip_events run why links rs)"
proof -
  obtain i where "i < length links" "links ! i = e" using assms(2) by (metis in_set_conv_nth)
  then have "(e, rs ! i) \<in> set (zip links rs)" using assms(1) by (metis in_set_zip fst_conv snd_conv)
  then show ?thesis by (force simp: skip_events_def)
qed

lemma batch_logged:
  assumes "dispatch_events D links sends" "wc_link_dispatch (wd_config D) = Direct" "e \<in> set links"
  shows "\<exists>batch q. EvSubmit batch q \<in> set sends \<and> e \<in> set batch"
proof -
  have "links \<noteq> []" using assms(3) by auto
  then have "\<exists>q. EvSubmit links q \<in> set sends" using assms(1,2) by (auto simp: dispatch_events_def)
  then show ?thesis using assms(3) by blast
qed

subsection \<open>Properties\<close>

text \<open>C6: a claimed URL is settled. Whatever the services answer, the pipeline either acknowledges the
  attempt, once and as the last thing it does, or never acknowledges it and leaves the lease to
  expire; it leaves the lease exactly when the last answer it got was a failed politeness check, a
  failed \<open>mark_failed\<close>, or a retry count below the budget. It fetches only after the politeness check
  allowed the URL and the attempt was marked in the ledger, and never from a blocked host.\<close>

theorem pipeline_settles:
  "\<exists>ev. run_pipeline (traced D) p (s, []) = (run_pipeline D p s, ev) \<and>
     settles (wc_max_retries (wd_config D)) p ev \<and>
     (\<forall>u r. EvFetch u r \<in> set ev \<longrightarrow> (\<exists>a rest. ev = prologue D p a @ EvFetch (up_url p) r # rest) \<and>
        \<not> (\<exists>h. cu_host (up_url p) = Some h \<and> is_blocked (wd_blocklist D) h))"
proof -
  have st: "fst (run_pipeline (traced D) p (s, [])) = run_pipeline D p s" by (simp add: fst_pipeline)
  have w: "unacked w" if "w = [] \<or> (\<exists>h t. w = [EvWake h t])" for w using that by auto
  have r: "unacked (replicate k (EvParse x))" for k x by (induction k) auto
  show ?thesis
  proof (cases rule: pipeline_log [of D p s "[]"])
    case (refused s' ev)
    then show ?thesis using st by (intro exI [of _ ev]) auto
  next
    case (failed s' a q kind ev)
    have "settles (wc_max_retries (wd_config D)) p ((prologue D p a @ [EvFetch (up_url p) q, EvRecordFailure (up_url p) kind]) @ ev)"
      by (rule settles_prepend [OF _ failed(3)]) simp
    then show ?thesis using failed st by (auto simp: failure_events_def)
  next
    case (unparsed s' a resp w k why q)
    have "settles (wc_max_retries (wd_config D)) p ((prologue D p a @ EvFetch (up_url p) (Inr resp) # EvRecordFetch (up_url p) # w @
        replicate (Suc k) (EvParse resp) @ [EvLedger (CallGiveUp (up_url p) why) q]) @ [EvAck (up_attempt_id p)])"
      using w [OF unparsed(2)] r by (intro settles_ack) simp
    then show ?thesis using unparsed st by auto
  next
    case (crawled s' a resp doc w k ev)
    have "settles (wc_max_retries (wd_config D)) p ((prologue D p a @ EvFetch (up_url p) (Inr resp) # EvRecordFetch (up_url p) # w @
        replicate (Suc k) (EvParse resp)) @ ev)"
      using w [OF crawled(2)] r by (intro settles_prepend [OF _ commit_settles [OF crawled(5)]]) simp
    moreover have "EvFetch u q \<notin> set ev" for u q
      using crawled(5) by (auto simp: commit_events_def dest: skip_event dispatch_event)
    ultimately show ?thesis using crawled st by auto
  qed
qed


text \<open>C7: no link of a crawled page is lost on the way. When the pipeline reports a success, it has
  stored the page before, with the hash of its body, under the path it reports; the success is
  reported right after the write and the acknowledgement comes last; and every HTTP link of the
  stored page is in the success record (durable dispatch), in the batch sent to the frontier (direct
  dispatch), or recorded as skipped because its depth exceeds the cap of its host, with the page as its
  origin and one level below it.\<close>

theorem success_covers_links:
  assumes "run_pipeline (traced D) p (s, []) = (s', ev)" "EvLedger (CallSucceeded su) r \<in> set ev"
  shows "\<exists>pre post rec. ev = pre @ EvWrite rec (Inr (su_blob_path su)) # EvLedger (CallSucceeded su) r # post @ [EvAck (up_attempt_id p)] \<and>
     su_content_hash su = content_hash (fr_body (sr_resp rec)) \<and> su_url su = up_url p \<and> su_attempt_id su = up_attempt_id p \<and>
     (\<forall>u \<in> set (pd_outbound_links (sr_doc rec)). is_http u \<longrightarrow>
        (\<exists>e. ue_url e = u \<and> ue_depth e = (ue_depth (up_entry p) + 1) mod 2 ^ 32 \<and> ue_discovered_from e = Some (up_url p) \<and>
          (if over_cap (wd_crawl_scope D) (ue_depth e) u
           then \<exists>q. EvLedger (CallSkipped u (wd_run_id D) (ue_depth e) (Some (up_url p)) SkipDepth) q \<in> set post
           else if wc_link_dispatch (wd_config D) = Direct then \<exists>batch q. EvSubmit batch q \<in> set post \<and> e \<in> set batch
           else e \<in> set (su_outbound su))))"
proof (cases rule: pipeline_log [of D p s "[]"])
  case (refused s' ev)
  then show ?thesis using assms by fastforce
next
  case (failed s' a q kind ev)
  then show ?thesis using assms by (auto simp: failure_events_def)
next
  case (unparsed s' a resp w k why q)
  then show ?thesis using assms by auto
next
  case (crawled s1 a resp doc w k com)
  let ?sc = "wd_crawl_scope D" and ?pre = "prologue D p a @ EvFetch (up_url p) (Inr resp) # EvRecordFetch (up_url p) # w @ replicate (Suc k) (EvParse resp)"
  let ?part = "compute_outbound (up_entry p) doc (depth_cap ?sc)"
  have ev: "ev = ?pre @ com" using crawled(4) assms(1) by simp
  have "EvLedger (CallSucceeded su) r \<notin> set ?pre" using crawled(2) by auto
  then have mem: "EvLedger (CallSucceeded su) r \<in> set com" using assms(2) ev by simp
  then obtain path r' rs sends where c: "length rs = length (op_depth_skipped ?part)" "dispatch_events D (op_kept ?part) sends"
      "com = EvWrite (blob_of D p resp doc) (Inr path) # EvLedger (CallSucceeded (success_of D p resp path ?part)) r' #
          skip_events (wd_run_id D) SkipDepth (op_depth_skipped ?part) rs @ sends @ [EvAck (up_attempt_id p)]"
    using crawled(5) by (auto simp: commit_events_def)
  have su: "su = success_of D p resp path ?part" "r = r'" using mem c(2,3) by (auto dest: skip_event dispatch_event)
  let ?post = "skip_events (wd_run_id D) SkipDepth (op_depth_skipped ?part) rs @ sends"
  show ?thesis
  proof (intro exI conjI ballI impI)
    show "ev = ?pre @ EvWrite (blob_of D p resp doc) (Inr (su_blob_path su)) # EvLedger (CallSucceeded su) r # ?post @ [EvAck (up_attempt_id p)]"
      using ev c(3) su by (simp add: success_of_def)
    fix u
    assume "u \<in> set (pd_outbound_links (sr_doc (blob_of D p resp doc)))" "is_http u"
    then have u: "link_entry p u \<in> set (if over_cap ?sc (ue_depth (link_entry p u)) u then op_depth_skipped ?part else op_kept ?part)"
      by (auto simp: blob_of_def compute_outbound_parts)
    then show "if over_cap ?sc (ue_depth (link_entry p u)) u
       then \<exists>q. EvLedger (CallSkipped u (wd_run_id D) (ue_depth (link_entry p u)) (Some (up_url p)) SkipDepth) q \<in> set ?post
       else if wc_link_dispatch (wd_config D) = Direct then \<exists>batch q. EvSubmit batch q \<in> set ?post \<and> link_entry p u \<in> set batch
       else link_entry p u \<in> set (su_outbound su)"
      using skip_logged [OF c(1), of "link_entry p u" "wd_run_id D" SkipDepth] batch_logged [OF c(2), of "link_entry p u"]
      by (fastforce simp: su success_of_def split: if_splits)
  qed (simp_all add: su success_of_def blob_of_def)
qed


definition demo_doc :: parsed_document where
  "demo_doc = \<lparr>pd_url = demo_url, pd_status = 200, pd_title = None, pd_text = None, pd_outbound_links = [demo_url], pd_fetched_at = 0\<rparr>"

definition demo_deps :: "unit worker_deps" where
  "demo_deps =
     \<lparr>wd_claim = (\<lambda>_ s. (Inr ClaimEmpty, s)), wd_ack = (\<lambda>_ s. (Inr (), s)), wd_advance_wake = (\<lambda>_ _ s. (Inr (), s)),
      wd_submit_batch = (\<lambda>_ s. (Inr submit_batch_default, s)), wd_check = (\<lambda>_ s. (Inr Allow, s)),
      wd_record_fetch = (\<lambda>_ s. (Inr \<lparr>nw_host = ''a'', nw_until_ms = 0\<rparr>, s)),
      wd_record_failure = (\<lambda>_ _ _ s. (Inr \<lparr>nw_host = ''a'', nw_until_ms = 0\<rparr>, s)),
      wd_fetch = (\<lambda>q s. (Inr \<lparr>fr_url = fq_url q, fr_status = 200, fr_headers = [], fr_body = [], fr_redirect_chain = [],
         fr_fetched_at = 0, fr_duration = 0\<rparr>, s)),
      wd_parse = (\<lambda>_ s. (Inr demo_doc, s)), wd_write = (\<lambda>_ s. (Inr ''blob'', s)), wd_ledger = (\<lambda>_ s. (Inr 0, s)),
      wd_adapters = [], wd_now_ms = (\<lambda>_. 0), wd_instant = (\<lambda>_. 0), wd_http_date = (\<lambda>_. None),
      wd_config = crawler_config_default,
      wd_crawl_scope = \<lparr>cs_max_depth = None, cs_max_urls = None, cs_per_domain = (\<lambda>_. None)\<rparr>,
      wd_blocklist = \<lparr>bl_hosts = []\<rparr>, wd_run_id = ''r'', wd_sharding = SingleShardPolicy\<rparr>"


definition demo_pipeline :: url_pipeline where
  "demo_pipeline = \<lparr>up_url_id = [], up_entry = seed_entry demo_url, up_attempt_id = ''t''\<rparr>"

lemmas pipeline_defs = run_pipeline_def politeness_allows_def mark_attempting_def worker_fetch_def apply_wake_plan_def
  worker_extract_def parse_generic_def finalize_def direct_dispatch_def record_skips_def ack_attempt_def compute_outbound_def

lemmas demo_eval = demo_deps_def demo_pipeline_def demo_url_def demo_doc_def seed_entry_def logged_def
  find_for_def traced_def is_blocked_def classify_status_def depth_cap_def is_http_def scheme_is_http_def
  submit_batch_default_def Let_def crawler_config_default_def

lemma demo_run: "\<exists>su ev. run_pipeline (traced demo_deps) demo_pipeline ((), []) = ((), ev) \<and> EvLedger (CallSucceeded su) (Inr 0) \<in> set ev"
  by (simp add: pipeline_defs demo_eval)

theorem success_covers_links_witness:
  "\<exists>su ev pre post rec. run_pipeline (traced demo_deps) demo_pipeline ((), []) = ((), ev) \<and>
     ev = pre @ EvWrite rec (Inr (su_blob_path su)) # EvLedger (CallSucceeded su) (Inr 0) # post @ [EvAck ''t'']"
proof -
  obtain su ev where r: "run_pipeline (traced demo_deps) demo_pipeline ((), []) = ((), ev)" "EvLedger (CallSucceeded su) (Inr 0) \<in> set ev"
    using demo_run by blast
  from success_covers_links [OF this] show ?thesis using r(1) by (auto simp: demo_pipeline_def)
qed

text \<open>An open breaker ends the attempt: the URL is acknowledged, and nothing of it is written to the
  ledger.\<close>

lemma open_circuit_drops_url:
  assumes "\<not> (\<exists>h. cu_host (up_url p) = Some h \<and> is_blocked (wd_blocklist D) h)"
    and "fst (wd_check D (up_url p) s) = Inr (Disallow DisallowCircuit)"
  shows "\<exists>s'. run_pipeline (traced D) p (s, []) = (s', [EvCheck (up_url p) (Inr (Disallow DisallowCircuit)), EvAck (up_attempt_id p)])"
  using assms by (auto simp: run_pipeline_def politeness_allows_def ack_attempt_def logged_apply split: option.splits)


theorem pipeline_settles_witness:
  "\<exists>ev. run_pipeline (traced demo_deps) demo_pipeline ((), []) = (run_pipeline demo_deps demo_pipeline (), ev) \<and>
     settles 5 demo_pipeline ev \<and> (\<exists>rest. ev = EvCheck demo_url (Inr Allow) # rest)"
proof -
  obtain ev where ev: "run_pipeline (traced demo_deps) demo_pipeline ((), []) = (run_pipeline demo_deps demo_pipeline (), ev)"
      "settles (wc_max_retries (wd_config demo_deps)) demo_pipeline ev"
      "\<forall>u r. EvFetch u r \<in> set ev \<longrightarrow> (\<exists>a rest. ev = prologue demo_deps demo_pipeline a @ EvFetch (up_url demo_pipeline) r # rest)"
    using pipeline_settles [of demo_deps demo_pipeline "()"] by auto
  have "\<exists>u r. EvFetch u r \<in> set (snd (run_pipeline (traced demo_deps) demo_pipeline ((), [])))"
    by (simp add: pipeline_defs demo_eval)
  then show ?thesis using ev by (auto simp: demo_deps_def crawler_config_default_def demo_pipeline_def seed_entry_def)
qed


end
