(* ===== verification/Postgres_Ledger.thy ===== *)
theory Postgres_Ledger
  imports Ledger_Spec Failure_Classes
begin

text \<open>
  \<^verbatim>\<open>crawlrs-metadata/src/store.rs\<close> over the tables of \<^verbatim>\<open>migrations/0001_init.sql\<close>: the URL
  ledger, its history and the transactional outbox. A table is the list of its rows; a query is
  the function its SQL denotes, with the conflict clauses of the schema's unique constraints.
  A transaction either commits, fails before it commits (nothing changes) or commits without the
  client hearing of it. Identifiers come from counters that stand for the sequences.
\<close>

subsection \<open>Tables\<close>

record url_row =
  ur_id :: nat
  ur_url :: string
  ur_host :: string
  ur_status :: string
  ur_retry_count :: int
  ur_blob_path :: "string option"
  ur_content_hash :: "int option"
  ur_depth :: int
  ur_last_run_id :: string
  ur_discovered_from :: "string option"
  ur_discovered_at :: u64
  ur_updated_at :: u64

record history_row =
  hr_url_id :: nat
  hr_run_id :: string
  hr_event :: string
  hr_detail :: "(string \<times> string) option"
  hr_attempt_id :: "string option"

record outbox_row =
  ob_id :: nat
  ob_url :: string
  ob_depth :: int
  ob_discovered_from :: "string option"
  ob_parent_url_id :: nat
  ob_parent_attempt_id :: string
  ob_published_at :: "u64 option"

record pg_db =
  pg_urls :: "url_row list"
  pg_history :: "history_row list"
  pg_outbox :: "outbox_row list"
  pg_url_seq :: nat
  pg_outbox_seq :: nat

definition empty_pg :: pg_db where
  "empty_pg = \<lparr>pg_urls = [], pg_history = [], pg_outbox = [], pg_url_seq = 0, pg_outbox_seq = 0\<rparr>"

subsection \<open>Wire forms\<close>

definition STATUS_PENDING :: string where "STATUS_PENDING = ''pending''"
definition STATUS_IN_PROGRESS :: string where "STATUS_IN_PROGRESS = ''in_progress''"
definition STATUS_SUCCEEDED :: string where "STATUS_SUCCEEDED = ''succeeded''"
definition STATUS_FAILED_TRANSIENT :: string where "STATUS_FAILED_TRANSIENT = ''failed_transient''"
definition STATUS_PERMANENTLY_FAILED :: string where "STATUS_PERMANENTLY_FAILED = ''permanently_failed''"

fun skip_status_str :: "skip_reason \<Rightarrow> string" where
  "skip_status_str SkipBlocklist = ''skipped_blocklist''"
| "skip_status_str SkipRobots = ''skipped_robots''"
| "skip_status_str SkipDepth = ''skipped_depth''"
| "skip_status_str SkipMaxUrls = ''skipped_max_urls''"

definition EVENT_ATTEMPTED :: string where "EVENT_ATTEMPTED = ''attempted''"
definition EVENT_SUCCEEDED :: string where "EVENT_SUCCEEDED = ''succeeded''"
definition EVENT_FAILED :: string where "EVENT_FAILED = ''failed''"
definition EVENT_PERMANENTLY_FAILED :: string where "EVENT_PERMANENTLY_FAILED = ''permanently_failed''"

datatype pg_error = PgSqlx string | PgMigrate string | PgDecode string | PgMissing string

definition show_pg_error :: "pg_error \<Rightarrow> string" where
  "show_pg_error e =
     (case e of PgSqlx m \<Rightarrow> ''postgres error: '' @ m
      | PgMigrate m \<Rightarrow> ''migration error: '' @ m
      | PgDecode m \<Rightarrow> ''metadata: '' @ m
      | PgMissing u \<Rightarrow> ''metadata: row not found for url '' @ u)"

definition pg_to_error :: "pg_error \<Rightarrow> crawl_error" where
  "pg_to_error e = EMetadata (show_pg_error e)"

definition parse_status :: "string \<Rightarrow> pg_error + url_status" where
  "parse_status s =
     (if s = STATUS_PENDING then Inr Pending
      else if s = STATUS_IN_PROGRESS then Inr InProgress
      else if s = STATUS_SUCCEEDED then Inr Succeeded
      else if s = STATUS_FAILED_TRANSIENT then Inr FailedTransient
      else if s = STATUS_PERMANENTLY_FAILED then Inr PermanentlyFailed
      else if s = skip_status_str SkipBlocklist \<or> s = skip_status_str SkipRobots \<or>
              s = skip_status_str SkipDepth \<or> s = skip_status_str SkipMaxUrls then Inr Skipped
      else Inl (PgDecode (''unknown status string: '' @ s)))"

text \<open>The casts \<open>u32 as i32\<close> and \<open>u64 as i64\<close>.\<close>

definition depth_as_i32 :: "u32 \<Rightarrow> int" where
  "depth_as_i32 n = (if n < 2 ^ 31 then int n else int n - 2 ^ 32)"

definition hash_as_i64 :: "64 word \<Rightarrow> int" where
  "hash_as_i64 w = sint w"

subsection \<open>Transactions\<close>

datatype tx_fault = TxOk | TxFails string | TxCommitLost string

fun run_tx :: "tx_fault \<Rightarrow> (pg_db \<Rightarrow> pg_error + ('a \<times> pg_db)) \<Rightarrow> pg_db \<Rightarrow> (crawl_error + 'a) \<times> pg_db" where
  "run_tx TxOk body db = (case body db of Inl e \<Rightarrow> (Inl (pg_to_error e), db) | Inr (a, db') \<Rightarrow> (Inr a, db'))"
| "run_tx (TxFails m) body db = (Inl (pg_to_error (PgSqlx m)), db)"
| "run_tx (TxCommitLost m) body db =
     (case body db of Inl e \<Rightarrow> (Inl (pg_to_error e), db) | Inr (a, db') \<Rightarrow> (Inl (pg_to_error (PgSqlx m)), db'))"

definition url_host :: "canonical_url \<Rightarrow> string" where
  "url_host url = (case cu_host url of Some h \<Rightarrow> h | None \<Rightarrow> ''_unknown_'')"

definition find_url :: "string \<Rightarrow> pg_db \<Rightarrow> url_row option" where
  "find_url u db = List.find (\<lambda>r. ur_url r = u) (pg_urls db)"

text \<open>\<^verbatim>\<open>UPDATE url_metadata SET ... WHERE url = $1\<close>\<close>

definition update_url :: "string \<Rightarrow> (url_row \<Rightarrow> url_row) \<Rightarrow> pg_db \<Rightarrow> pg_db" where
  "update_url u f db = db\<lparr>pg_urls := map (\<lambda>r. if ur_url r = u then f r else r) (pg_urls db)\<rparr>"

definition insert_url :: "url_row \<Rightarrow> pg_db \<Rightarrow> pg_db" where
  "insert_url r db = db\<lparr>pg_urls := pg_urls db @ [r], pg_url_seq := Suc (pg_url_seq db)\<rparr>"

definition new_url_row :: "pg_db \<Rightarrow> string \<Rightarrow> string \<Rightarrow> string \<Rightarrow> string \<Rightarrow> int \<Rightarrow> string option \<Rightarrow> u64 \<Rightarrow> url_row" where
  "new_url_row db url host status run depth from now =
     \<lparr>ur_id = pg_url_seq db, ur_url = url, ur_host = host, ur_status = status, ur_retry_count = 0, ur_blob_path = None,
      ur_content_hash = None, ur_depth = depth, ur_last_run_id = run, ur_discovered_from = from,
      ur_discovered_at = now, ur_updated_at = now\<rparr>"

definition upsert_attempting :: "canonical_url \<Rightarrow> string \<Rightarrow> int \<Rightarrow> u64 \<Rightarrow> pg_db \<Rightarrow> nat \<times> pg_db" where
  "upsert_attempting url run depth now db =
     (let host = url_host url in
      case find_url (cu_str url) db of
        None \<Rightarrow> (pg_url_seq db,
           insert_url (new_url_row db (cu_str url) host STATUS_IN_PROGRESS run depth None now) db)
      | Some r \<Rightarrow> (ur_id r,
           update_url (cu_str url) (\<lambda>r. r\<lparr>ur_status := STATUS_IN_PROGRESS, ur_last_run_id := run, ur_depth := depth,
             ur_updated_at := now\<rparr>) db))"

text \<open>A null attempt id conflicts with nothing.\<close>

definition insert_history ::
  "nat \<Rightarrow> string \<Rightarrow> string \<Rightarrow> (string \<times> string) option \<Rightarrow> string option \<Rightarrow> pg_db \<Rightarrow> pg_db" where
  "insert_history url_id run event detail attempt db =
     (if attempt \<noteq> None \<and> list_ex (\<lambda>h. hr_url_id h = url_id \<and> hr_attempt_id h = attempt) (pg_history db) then db
      else db\<lparr>pg_history := pg_history db @
        [\<lparr>hr_url_id = url_id, hr_run_id = run, hr_event = event, hr_detail = detail, hr_attempt_id = attempt\<rparr>]\<rparr>)"

definition outbox_conflict :: "nat \<Rightarrow> string \<Rightarrow> string \<Rightarrow> outbox_row \<Rightarrow> bool" where
  "outbox_conflict parent attempt url r =
     (ob_parent_url_id r = parent \<and> ob_parent_attempt_id r = attempt \<and> ob_url r = url)"

definition insert_outbox_row :: "nat \<Rightarrow> string \<Rightarrow> url_entry \<Rightarrow> pg_db \<Rightarrow> pg_db" where
  "insert_outbox_row parent attempt child db =
     (if list_ex (outbox_conflict parent attempt (cu_str (ue_url child))) (pg_outbox db) then db
      else db\<lparr>pg_outbox := pg_outbox db @
             [\<lparr>ob_id = pg_outbox_seq db, ob_url = cu_str (ue_url child), ob_depth = depth_as_i32 (ue_depth child),
               ob_discovered_from = map_option cu_str (ue_discovered_from child), ob_parent_url_id = parent,
               ob_parent_attempt_id = attempt, ob_published_at = None\<rparr>],
           pg_outbox_seq := Suc (pg_outbox_seq db)\<rparr>)"

definition update_url_to_succeeded ::
  "canonical_url \<Rightarrow> string \<Rightarrow> 64 word \<Rightarrow> u64 \<Rightarrow> pg_db \<Rightarrow> pg_error + ((nat \<times> string) \<times> pg_db)" where
  "update_url_to_succeeded url blob_path hash now db =
     (case find_url (cu_str url) db of None \<Rightarrow> Inl (PgMissing (cu_str url))
      | Some r \<Rightarrow> Inr ((ur_id r, ur_last_run_id r),
          update_url (cu_str url) (\<lambda>r. r\<lparr>ur_status := STATUS_SUCCEEDED, ur_retry_count := 0, ur_blob_path := Some blob_path,
            ur_content_hash := Some (hash_as_i64 hash), ur_updated_at := now\<rparr>) db))"

subsection \<open>The trait's operations\<close>

definition pg_mark_attempting ::
  "canonical_url \<Rightarrow> run_id \<Rightarrow> u32 \<Rightarrow> u64 \<Rightarrow> tx_fault \<Rightarrow> pg_db \<Rightarrow> (crawl_error + unit) \<times> pg_db" where
  "pg_mark_attempting url run depth now flt =
     run_tx flt (\<lambda>db.
       let (i, db) = upsert_attempting url run (depth_as_i32 depth) now db
       in Inr ((), insert_history i run EVENT_ATTEMPTED None None db))"

definition pg_mark_succeeded :: "success_record \<Rightarrow> u64 \<Rightarrow> tx_fault \<Rightarrow> pg_db \<Rightarrow> (crawl_error + unit) \<times> pg_db" where
  "pg_mark_succeeded record now flt =
     run_tx flt (\<lambda>db.
       case update_url_to_succeeded (su_url record) (su_blob_path record) (su_content_hash record) now db of
         Inl e \<Rightarrow> Inl e
       | Inr ((i, last_run_id), db) \<Rightarrow>
           let db = insert_history i last_run_id EVENT_SUCCEEDED (Some (''blob_path'', su_blob_path record))
                      (Some (su_attempt_id record)) db
           in Inr ((), fold (insert_outbox_row i (su_attempt_id record)) (su_outbound record) db))"

text \<open>The counter is a 32-bit column: an increment past its range is an error of the database.\<close>

definition pg_mark_failed ::
  "canonical_url \<Rightarrow> failure_kind \<Rightarrow> u64 \<Rightarrow> tx_fault \<Rightarrow> pg_db \<Rightarrow> (crawl_error + u32) \<times> pg_db" where
  "pg_mark_failed url kind now flt =
     run_tx flt (\<lambda>db.
       case find_url (cu_str url) db of None \<Rightarrow> Inl (PgMissing (cu_str url))
       | Some r \<Rightarrow>
           if ur_retry_count r + 1 \<ge> 2 ^ 31 then Inl (PgSqlx ''integer out of range'')
           else
             let db = update_url (cu_str url) (\<lambda>r. r\<lparr>ur_status := STATUS_FAILED_TRANSIENT,
                        ur_retry_count := ur_retry_count r + 1, ur_updated_at := now\<rparr>) db;
                 db = insert_history (ur_id r) (ur_last_run_id r) EVENT_FAILED (Some (''kind'', failure_kind_str kind)) None db
             in Inr (nat ((ur_retry_count r + 1) mod 2 ^ 32), db))"

definition pg_mark_permanently_failed ::
  "canonical_url \<Rightarrow> string \<Rightarrow> u64 \<Rightarrow> tx_fault \<Rightarrow> pg_db \<Rightarrow> (crawl_error + unit) \<times> pg_db" where
  "pg_mark_permanently_failed url reason now flt =
     run_tx flt (\<lambda>db.
       case find_url (cu_str url) db of None \<Rightarrow> Inl (PgMissing (cu_str url))
       | Some r \<Rightarrow>
           let db = update_url (cu_str url) (\<lambda>r. r\<lparr>ur_status := STATUS_PERMANENTLY_FAILED, ur_updated_at := now\<rparr>) db;
               db = insert_history (ur_id r) (ur_last_run_id r) EVENT_PERMANENTLY_FAILED (Some (''reason'', reason)) None db
           in Inr ((), db))"

definition pg_mark_discovered_skipped ::
  "canonical_url \<Rightarrow> run_id \<Rightarrow> u32 \<Rightarrow> canonical_url option \<Rightarrow> skip_reason \<Rightarrow> u64 \<Rightarrow> tx_fault \<Rightarrow> pg_db \<Rightarrow>
   (crawl_error + unit) \<times> pg_db" where
  "pg_mark_discovered_skipped url run depth discovered_from reason now flt =
     run_tx flt (\<lambda>db.
       Inr ((), case find_url (cu_str url) db of
          None \<Rightarrow> insert_url (new_url_row db (cu_str url) (url_host url) (skip_status_str reason) run (depth_as_i32 depth)
                    (map_option cu_str discovered_from) now) db
        | Some _ \<Rightarrow> db))"

text \<open>\<open>UrlRow::into_metadata\<close>; \<open>U\<close> is the URL parser.\<close>

definition parse_canonical :: "'u url_ops \<Rightarrow> string \<Rightarrow> url_error + canonical_url" where
  "parse_canonical U s = (case url_parse U s of Inl e \<Rightarrow> Inl e | Inr u \<Rightarrow> Inr (view_of U u))"

definition into_metadata :: "'u url_ops \<Rightarrow> canonical_url \<Rightarrow> url_row \<Rightarrow> pg_error + url_metadata" where
  "into_metadata U url r =
     (let discovered_from = Option.bind (ur_discovered_from r)
            (\<lambda>raw. case parse_canonical U raw of Inl _ \<Rightarrow> None | Inr u \<Rightarrow> Some u)
      in case parse_status (ur_status r) of Inl e \<Rightarrow> Inl e
         | Inr s \<Rightarrow>
             Inr \<lparr>um_url = url, um_status = s, um_retry_count = nat (max (ur_retry_count r) 0), um_blob_path = ur_blob_path r,
                  um_content_hash = map_option word_of_int (ur_content_hash r), um_depth = nat (max (ur_depth r) 0),
                  um_last_run_id = ur_last_run_id r, um_discovered_from = discovered_from,
                  um_discovered_at = ur_discovered_at r, um_updated_at = ur_updated_at r\<rparr>)"

definition pg_get :: "'u url_ops \<Rightarrow> canonical_url \<Rightarrow> tx_fault \<Rightarrow> pg_db \<Rightarrow> crawl_error + url_metadata option" where
  "pg_get U url flt db =
     (case flt of TxFails m \<Rightarrow> Inl (pg_to_error (PgSqlx m))
      | _ \<Rightarrow>
        (case find_url (cu_str url) db of None \<Rightarrow> Inr None
         | Some r \<Rightarrow> (case into_metadata U url r of Inl e \<Rightarrow> Inl (pg_to_error e) | Inr m \<Rightarrow> Inr (Some m))))"

definition dlq_size :: "pg_db \<Rightarrow> nat" where
  "dlq_size db = length (filter (\<lambda>r. ur_status r = STATUS_PERMANENTLY_FAILED) (pg_urls db))"

subsection \<open>The outbox\<close>

record outbox_entry =
  oe_id :: nat
  oe_entry :: url_entry

definition outbox_entry_of :: "'u url_ops \<Rightarrow> outbox_row \<Rightarrow> crawl_error + outbox_entry" where
  "outbox_entry_of U row =
     (case parse_canonical U (ob_url row) of
        Inl e \<Rightarrow> Inl (EMetadata (''outbox row '' @ show_nat (ob_id row) @ '' carries unparsable url '' @ ob_url row @ '': '' @
                    show_url_error e))
      | Inr url \<Rightarrow>
         (case ob_discovered_from row of
            None \<Rightarrow> Inr \<lparr>oe_id = ob_id row, oe_entry = \<lparr>ue_url = url, ue_depth = nat (ob_depth row mod 2 ^ 32), ue_discovered_from = None\<rparr>\<rparr>
          | Some raw \<Rightarrow>
             (case parse_canonical U raw of
                Inl e \<Rightarrow> Inl (EMetadata (''outbox row '' @ show_nat (ob_id row) @ '' carries unparsable discovered_from: '' @
                           show_url_error e))
              | Inr from \<Rightarrow>
                  Inr \<lparr>oe_id = ob_id row, oe_entry = \<lparr>ue_url = url, ue_depth = nat (ob_depth row mod 2 ^ 32),
                         ue_discovered_from = Some from\<rparr>\<rparr>)))"

text \<open>Rows that other publishers hold are skipped.\<close>

definition leasable :: "(nat \<Rightarrow> bool) \<Rightarrow> nat \<Rightarrow> pg_db \<Rightarrow> outbox_row list" where
  "leasable locked mx db = take mx (filter (\<lambda>r. ob_published_at r = None \<and> \<not> locked (ob_id r)) (sort_key ob_id (pg_outbox db)))"

definition mark_published :: "nat list \<Rightarrow> u64 \<Rightarrow> pg_db \<Rightarrow> pg_db" where
  "mark_published ids now db =
     db\<lparr>pg_outbox := map (\<lambda>r. if ob_id r \<in> set ids then r\<lparr>ob_published_at := Some now\<rparr> else r) (pg_outbox db)\<rparr>"

text \<open>\<open>ship\<close> works on the database, over a connection of its own, and on a state \<open>'f\<close>, the frontier's;
  \<open>select_error\<close> is a failure to open the transaction or to read the rows, \<open>flt\<close> what marking
  them and committing meet.\<close>

definition pg_publish ::
  "'u url_ops \<Rightarrow> nat \<Rightarrow> (outbox_entry list \<Rightarrow> pg_db \<times> 'f \<Rightarrow> (crawl_error + unit) \<times> pg_db \<times> 'f) \<Rightarrow> (nat \<Rightarrow> bool) \<Rightarrow> u64 \<Rightarrow>
   string option \<Rightarrow> tx_fault \<Rightarrow> pg_db \<times> 'f \<Rightarrow> (crawl_error + nat) \<times> pg_db \<times> 'f" where
  "pg_publish U mx ship locked now select_error flt st =
     (let rows = leasable locked mx (fst st) in
      if select_error \<noteq> None then (Inl (pg_to_error (PgSqlx (the select_error))), st)
      else if rows = [] then (Inr 0, st)
      else case mapM_result (outbox_entry_of U) rows of Inl e \<Rightarrow> (Inl e, st)
      | Inr entries \<Rightarrow>
         (case ship entries st of (Inl e, st) \<Rightarrow> (Inl e, st)
          | (Inr _, db, f) \<Rightarrow>
             (case run_tx flt (\<lambda>db. Inr (length entries, mark_published (map ob_id rows) now db)) db of
                (r, db) \<Rightarrow> (r, db, f))))"

subsection \<open>The store implements the ledger\<close>

definition entry_of_row :: "url_row \<Rightarrow> ledger_entry" where
  "entry_of_row r =
     \<lparr>le_status = (case parse_status (ur_status r) of Inr s \<Rightarrow> s | Inl _ \<Rightarrow> Pending),
      le_retry_count = nat (max (ur_retry_count r) 0), le_blob_path = ur_blob_path r,
      le_content_hash = map_option word_of_int (ur_content_hash r), le_depth = nat (max (ur_depth r) 0),
      le_last_run_id = ur_last_run_id r, le_discovered_from = ur_discovered_from r,
      le_discovered_at = ur_discovered_at r, le_updated_at = ur_updated_at r\<rparr>"

definition pg_view :: "pg_db \<Rightarrow> ledger" where
  "pg_view db u = map_option entry_of_row (find_url u db)"

definition row_ok :: "url_row \<Rightarrow> bool" where
  "row_ok r \<longleftrightarrow> \<not> isl (parse_status (ur_status r)) \<and> 0 \<le> ur_retry_count r \<and> ur_retry_count r < 2 ^ 31"

definition pg_ok :: "pg_db \<Rightarrow> bool" where
  "pg_ok db \<longleftrightarrow> (\<forall>r \<in> set (pg_urls db). row_ok r \<and> ur_id r < pg_url_seq db) \<and>
     distinct (map ur_url (pg_urls db)) \<and> distinct (map ur_id (pg_urls db))"

definition unit_reply :: "(crawl_error + unit) \<times> 's \<Rightarrow> (crawl_error + nat) \<times> 's" where
  "unit_reply r = (case r of (Inl e, s) \<Rightarrow> (Inl e, s) | (Inr _, s) \<Rightarrow> (Inr 0, s))"

fun pg_perform :: "ledger_call \<Rightarrow> u64 \<Rightarrow> tx_fault \<Rightarrow> pg_db \<Rightarrow> (crawl_error + nat) \<times> pg_db" where
  "pg_perform (CallAttempting url run depth) now flt db = unit_reply (pg_mark_attempting url run depth now flt db)"
| "pg_perform (CallSucceeded r) now flt db = unit_reply (pg_mark_succeeded r now flt db)"
| "pg_perform (CallFailed url kind) now flt db = pg_mark_failed url kind now flt db"
| "pg_perform (CallGiveUp url reason) now flt db = unit_reply (pg_mark_permanently_failed url reason now flt db)"
| "pg_perform (CallSkipped url run depth from reason) now flt db =
     unit_reply (pg_mark_discovered_skipped url run depth from reason now flt db)"

lemmas status_defs = STATUS_PENDING_def STATUS_IN_PROGRESS_def STATUS_SUCCEEDED_def STATUS_FAILED_TRANSIENT_def
  STATUS_PERMANENTLY_FAILED_def

lemma parse_status_simps [simp]:
  "parse_status STATUS_IN_PROGRESS = Inr InProgress" "parse_status STATUS_SUCCEEDED = Inr Succeeded"
  "parse_status STATUS_FAILED_TRANSIENT = Inr FailedTransient" "parse_status STATUS_PERMANENTLY_FAILED = Inr PermanentlyFailed"
  "parse_status (skip_status_str reason) = Inr Skipped"
  by (simp_all add: parse_status_def status_defs) (cases reason; simp)

lemma find_map_key:
  "(\<And>r. key (f r) = key r) \<Longrightarrow>
   List.find (\<lambda>r. key r = u) (map (\<lambda>r. if key r = v then f r else r) rs) =
     map_option (\<lambda>r. if u = v then f r else r) (List.find (\<lambda>r. key r = u) rs)"
  by (induction rs) auto

lemma find_update_url:
  "(\<And>r. ur_url (f r) = ur_url r) \<Longrightarrow>
   find_url u (update_url v f db) = map_option (\<lambda>r. if u = v then f r else r) (find_url u db)"
  by (simp add: find_url_def update_url_def find_map_key)

lemma find_append_key:
  "List.find (\<lambda>r. key r = u) (rs @ [r]) =
     (case List.find (\<lambda>r. key r = u) rs of Some x \<Rightarrow> Some x | None \<Rightarrow> if key r = u then Some r else None)"
  by (induction rs) auto

lemma find_insert_url:
  "find_url u (insert_url r db) = (case find_url u db of Some x \<Rightarrow> Some x | None \<Rightarrow> if ur_url r = u then Some r else None)"
  by (simp add: find_url_def insert_url_def find_append_key)

lemma find_url_frame [simp]:
  "find_url u (insert_history i run ev d a db) = find_url u db"
  "find_url u (fold (insert_outbox_row j b) cs db) = find_url u db"
proof -
  show "find_url u (insert_history i run ev d a db) = find_url u db" by (simp add: find_url_def insert_history_def)
  have "pg_urls (fold (insert_outbox_row j b) cs db) = pg_urls db"
    by (induction cs arbitrary: db) (auto simp: insert_outbox_row_def)
  then show "find_url u (fold (insert_outbox_row j b) cs db) = find_url u db" by (simp add: find_url_def)
qed

lemma find_url_SomeD: "find_url u db = Some r \<Longrightarrow> r \<in> set (pg_urls db) \<and> ur_url r = u"
  by (auto simp: find_url_def find_Some_iff)

lemma find_url_None: "find_url u db = None \<longleftrightarrow> u \<notin> ur_url ` set (pg_urls db)"
  by (auto simp: find_url_def find_None_iff)

lemma pg_ok_frame [simp]:
  "pg_ok (insert_history i run ev d a db) = pg_ok db"
  "pg_ok (fold (insert_outbox_row j b) cs db) = pg_ok db"
proof -
  show "pg_ok (insert_history i run ev d a db) = pg_ok db" by (simp add: pg_ok_def insert_history_def)
  have "pg_urls (fold (insert_outbox_row j b) cs db) = pg_urls db \<and> pg_url_seq (fold (insert_outbox_row j b) cs db) = pg_url_seq db"
    by (induction cs arbitrary: db) (auto simp: insert_outbox_row_def)
  then show "pg_ok (fold (insert_outbox_row j b) cs db) = pg_ok db" by (simp add: pg_ok_def)
qed

lemma pg_ok_update:
  assumes "pg_ok db" "\<And>r. ur_url (f r) = ur_url r" "\<And>r. ur_id (f r) = ur_id r"
    and "\<And>r. r \<in> set (pg_urls db) \<Longrightarrow> ur_url r = u \<Longrightarrow> row_ok r \<Longrightarrow> row_ok (f r)"
  shows "pg_ok (update_url u f db)"
proof -
  have "map ur_url (pg_urls (update_url u f db)) = map ur_url (pg_urls db)"
      "map ur_id (pg_urls (update_url u f db)) = map ur_id (pg_urls db)"
    using assms(2,3) by (simp_all add: update_url_def comp_def if_distrib cong: if_cong)
  moreover have "\<forall>r \<in> set (pg_urls (update_url u f db)). row_ok r \<and> ur_id r < pg_url_seq db"
    using assms by (auto simp: update_url_def pg_ok_def)
  moreover have "pg_url_seq (update_url u f db) = pg_url_seq db" by (simp add: update_url_def)
  ultimately show ?thesis using assms(1) unfolding pg_ok_def by simp
qed

lemma pg_ok_insert:
  assumes "pg_ok db" "find_url u db = None" "\<not> isl (parse_status s)"
  shows "pg_ok (insert_url (new_url_row db u host s run depth from now) db)"
  using assms by (auto simp: pg_ok_def insert_url_def new_url_row_def row_ok_def find_url_None less_SucI)

text \<open>A transaction whose body makes transition \<open>c\<close> or fails.\<close>

lemma run_tx_cases:
  assumes "run_tx flt body db = (r, db')"
  obtains (failed) e where "r = Inl e" "db' = db"
  | (done_) a where "body db = Inr (a, db')" "r = Inr a"
  | (lost) a e where "body db = Inr (a, db')" "r = Inl e"
  using assms by (cases flt) (auto split: sum.splits)

lemma view_insert:
  assumes "find_url (cu_str url) db = None"
  shows "pg_view (insert_url (new_url_row db (cu_str url) host s run depth from now) db) =
     (pg_view db)(cu_str url \<mapsto> entry_of_row (new_url_row db (cu_str url) host s run depth from now))"
  using assms by (auto simp: pg_view_def fun_eq_iff find_insert_url new_url_row_def split: option.splits)

lemma view_update:
  "(\<And>r. ur_url (f r) = ur_url r) \<Longrightarrow> find_url u db = Some r \<Longrightarrow>
   pg_view (update_url u f db) = (pg_view db)(u \<mapsto> entry_of_row (f r))"
  by (auto simp: pg_view_def fun_eq_iff find_update_url option.map_comp comp_def)

lemma view_frame [simp]:
  "pg_view (insert_history i run ev d a db) = pg_view db"
  "pg_view (fold (insert_outbox_row j b) cs db) = pg_view db"
  by (simp_all add: pg_view_def fun_eq_iff)


lemma word_of_hash [simp]: "word_of_int (hash_as_i64 w) = w"
  by (simp add: hash_as_i64_def)

lemma depth_small: "d < 2 ^ 31 \<Longrightarrow> nat (max (depth_as_i32 d) 0) = d"
  by (simp add: depth_as_i32_def)

lemma entry_new:
  "parse_status s = Inr st \<Longrightarrow> d < 2 ^ 31 \<Longrightarrow>
   entry_of_row (new_url_row db u host s run (depth_as_i32 d) from now) = new_entry st run d from now"
  by (simp add: entry_of_row_def new_url_row_def new_entry_def depth_small)

lemma makes_attempting:
  assumes "upsert_attempting url run (depth_as_i32 depth) now db = (i, db')" "pg_ok db"
  shows "pg_ok db' \<and> (depth < 2 ^ 31 \<longrightarrow> pg_view db' = led_apply (CallAttempting url run depth) now (pg_view db))"
proof (cases "find_url (cu_str url) db")
  case None
  then have v: "pg_view db (cu_str url) = None" by (simp add: pg_view_def)
  have db': "db' = insert_url (new_url_row db (cu_str url) (url_host url) STATUS_IN_PROGRESS run (depth_as_i32 depth) None now) db"
    using assms(1) None by (simp add: upsert_attempting_def Let_def)
  show ?thesis
    using pg_ok_insert [OF assms(2) None] v by (simp add: db' view_insert [OF None] entry_new)
next
  case (Some r)
  then have v: "pg_view db (cu_str url) = Some (entry_of_row r)" by (simp add: pg_view_def)
  let ?f = "\<lambda>r. r\<lparr>ur_status := STATUS_IN_PROGRESS, ur_last_run_id := run, ur_depth := depth_as_i32 depth, ur_updated_at := now\<rparr>"
  have db': "db' = update_url (cu_str url) ?f db"
    using assms(1) Some by (simp add: upsert_attempting_def Let_def)
  have "pg_ok db'" unfolding db' by (rule pg_ok_update [OF assms(2)]) (auto simp: row_ok_def)
  moreover have "pg_view db' = (pg_view db)(cu_str url \<mapsto> entry_of_row (?f r))" unfolding db' by (rule view_update [OF _ Some]) simp
  ultimately show ?thesis using v by (simp add: entry_of_row_def depth_small)
qed

lemma makes_succeeded:
  assumes "update_url_to_succeeded (su_url s) (su_blob_path s) (su_content_hash s) now db = Inr (x, db')" "pg_ok db"
  shows "pg_ok db' \<and> pg_view db' = led_apply (CallSucceeded s) now (pg_view db) \<and> pg_view db (cu_str (su_url s)) \<noteq> None"
proof -
  let ?f = "\<lambda>r. r\<lparr>ur_status := STATUS_SUCCEEDED, ur_retry_count := 0, ur_blob_path := Some (su_blob_path s),
    ur_content_hash := Some (hash_as_i64 (su_content_hash s)), ur_updated_at := now\<rparr>"
  obtain r where r: "find_url (cu_str (su_url s)) db = Some r" and db': "db' = update_url (cu_str (su_url s)) ?f db"
    using assms(1) by (auto simp: update_url_to_succeeded_def split: option.splits)
  have "pg_view db (cu_str (su_url s)) = Some (entry_of_row r)" using r by (simp add: pg_view_def)
  moreover have "pg_ok db'" unfolding db' by (rule pg_ok_update [OF assms(2)]) (auto simp: row_ok_def)
  moreover have "pg_view db' = (pg_view db)(cu_str (su_url s) \<mapsto> entry_of_row (?f r))"
    unfolding db' by (rule view_update [OF _ r]) simp
  ultimately show ?thesis by (simp add: entry_of_row_def)
qed

lemma row_of_ok: "pg_ok db \<Longrightarrow> find_url u db = Some r \<Longrightarrow> row_ok r"
  by (auto simp: pg_ok_def dest: find_url_SomeD)

lemma makes_failed:
  assumes "find_url (cu_str url) db = Some r" "ur_retry_count r + 1 < 2 ^ 31" "pg_ok db"
    and "db' = update_url (cu_str url) (\<lambda>r. r\<lparr>ur_status := STATUS_FAILED_TRANSIENT,
           ur_retry_count := ur_retry_count r + 1, ur_updated_at := now\<rparr>) db"
  shows "pg_ok db' \<and> pg_view db' = led_apply (CallFailed url kind) now (pg_view db) \<and> pg_view db (cu_str url) \<noteq> None \<and>
     map_option le_retry_count (pg_view db' (cu_str url)) = Some (nat ((ur_retry_count r + 1) mod 2 ^ 32))"
proof -
  let ?f = "\<lambda>r. r\<lparr>ur_status := STATUS_FAILED_TRANSIENT, ur_retry_count := ur_retry_count r + 1, ur_updated_at := now\<rparr>"
  have rok: "0 \<le> ur_retry_count r" using row_of_ok [OF assms(3,1)] by (simp add: row_ok_def)
  have v: "pg_view db (cu_str url) = Some (entry_of_row r)" using assms(1) by (simp add: pg_view_def)
  have "row_ok (?f x)" if "x \<in> set (pg_urls db)" "ur_url x = cu_str url" "row_ok x" for x
  proof -
    have "inj_on ur_url (set (pg_urls db))" using assms(3) by (simp add: pg_ok_def distinct_map)
    then have "x = r" by (rule inj_onD) (use that(1,2) find_url_SomeD [OF assms(1)] in auto)
    then show ?thesis using assms(2) rok by (simp add: row_ok_def)
  qed
  then have "pg_ok db'" unfolding assms(4) by (intro pg_ok_update [OF assms(3)]) auto
  moreover have "pg_view db' = (pg_view db)(cu_str url \<mapsto> entry_of_row (?f r))"
    unfolding assms(4) by (rule view_update [OF _ assms(1)]) simp
  moreover have "(ur_retry_count r + 1) mod 2 ^ 32 = ur_retry_count r + 1"
    using rok assms(2) by (intro mod_pos_pos_trivial) auto
  ultimately show ?thesis using v rok by (simp add: entry_of_row_def nat_add_distrib)
qed

lemma makes_give_up:
  assumes "find_url (cu_str url) db = Some r" "pg_ok db"
    and "db' = update_url (cu_str url) (\<lambda>r. r\<lparr>ur_status := STATUS_PERMANENTLY_FAILED, ur_updated_at := now\<rparr>) db"
  shows "pg_ok db' \<and> pg_view db' = led_apply (CallGiveUp url reason) now (pg_view db) \<and> pg_view db (cu_str url) \<noteq> None"
proof -
  let ?f = "\<lambda>r. r\<lparr>ur_status := STATUS_PERMANENTLY_FAILED, ur_updated_at := now\<rparr>"
  have v: "pg_view db (cu_str url) = Some (entry_of_row r)" using assms(1) by (simp add: pg_view_def)
  have "pg_ok db'" unfolding assms(3) by (rule pg_ok_update [OF assms(2)]) (auto simp: row_ok_def)
  moreover have "pg_view db' = (pg_view db)(cu_str url \<mapsto> entry_of_row (?f r))"
    unfolding assms(3) by (rule view_update [OF _ assms(1)]) simp
  ultimately show ?thesis using v by (simp add: entry_of_row_def)
qed

lemma makes_skipped:
  assumes "find_url (cu_str url) db = None" "pg_ok db"
    and "db' = insert_url (new_url_row db (cu_str url) host (skip_status_str reason) run (depth_as_i32 depth)
           (map_option cu_str from) now) db"
  shows "pg_ok db' \<and> (depth < 2 ^ 31 \<longrightarrow> pg_view db' = led_apply (CallSkipped url run depth from reason) now (pg_view db))"
proof -
  have "pg_view db (cu_str url) = None" using assms(1) by (simp add: pg_view_def)
  then show ?thesis using pg_ok_insert [OF assms(2,1)] by (simp add: assms(3) view_insert [OF assms(1)] entry_new)
qed


text \<open>One call, whatever its transaction met.\<close>

definition pg_call_spec :: "ledger_call \<Rightarrow> u64 \<Rightarrow> pg_db \<Rightarrow> (crawl_error + nat) \<Rightarrow> pg_db \<Rightarrow> bool" where
  "pg_call_spec c now db r db' \<longleftrightarrow>
     (db' = db \<and> isl r) \<or>
     (pg_ok db' \<and> (call_ok c \<longrightarrow> pg_view db' = led_apply c now (pg_view db)) \<and>
      (needs_row c \<longrightarrow> pg_view db (call_url c) \<noteq> None) \<and>
      (\<forall>n. r = Inr n \<longrightarrow> counts_failure c \<longrightarrow> map_option le_retry_count (pg_view db' (call_url c)) = Some n))"

lemma unit_reply_eq: "unit_reply x = (r, s) \<Longrightarrow> \<exists>q. x = (q, s) \<and> isl q = isl r"
  by (cases x; cases "fst x") (auto simp: unit_reply_def)

lemma pg_perform_spec:
  assumes "pg_ok db" "pg_perform c now flt db = (r, db')"
  shows "pg_call_spec c now db r db'"
proof (cases c)
  case (CallAttempting url run depth)
  then obtain q where "pg_mark_attempting url run depth now flt db = (q, db')" "isl q = isl r"
    using assms(2) unit_reply_eq by fastforce
  then show ?thesis
    using makes_attempting [OF _ assms(1), of url run depth now] CallAttempting
    unfolding pg_mark_attempting_def
    by (auto elim!: run_tx_cases simp: pg_call_spec_def split: prod.splits)
next
  case (CallSucceeded s)
  then obtain q where "pg_mark_succeeded s now flt db = (q, db')" "isl q = isl r"
    using assms(2) unit_reply_eq by fastforce
  then show ?thesis
    using makes_succeeded [OF _ assms(1), of s now] CallSucceeded
    unfolding pg_mark_succeeded_def
    by (auto elim!: run_tx_cases simp: pg_call_spec_def split: sum.splits simp del: led_apply.simps)
next
  case (CallFailed url kind)
  then have "pg_mark_failed url kind now flt db = (r, db')" using assms(2) by simp
  then show ?thesis
    using makes_failed [OF _ _ assms(1) refl, of url _ now kind] CallFailed
    unfolding pg_mark_failed_def
    by (auto elim!: run_tx_cases simp: pg_call_spec_def Let_def split: option.splits if_splits simp del: led_apply.simps)
next
  case (CallGiveUp url reason)
  then obtain q where "pg_mark_permanently_failed url reason now flt db = (q, db')" "isl q = isl r"
    using assms(2) unit_reply_eq by fastforce
  then show ?thesis
    using makes_give_up [OF _ assms(1) refl, of url _ now reason] CallGiveUp
    unfolding pg_mark_permanently_failed_def
    by (auto elim!: run_tx_cases simp: pg_call_spec_def Let_def split: option.splits simp del: led_apply.simps)
next
  case (CallSkipped url run depth src reason)
  then obtain q where "pg_mark_discovered_skipped url run depth src reason now flt db = (q, db')" "isl q = isl r"
    using assms(2) unit_reply_eq by fastforce
  moreover have "find_url (cu_str url) db = Some x \<Longrightarrow> led_apply c now (pg_view db) = pg_view db" for x
    using CallSkipped by (simp add: pg_view_def)
  ultimately show ?thesis
    using makes_skipped [OF _ assms(1) refl, of url "url_host url" reason run depth src now] CallSkipped assms(1)
    unfolding pg_mark_discovered_skipped_def
    by (auto elim!: run_tx_cases simp: pg_call_spec_def split: option.splits simp del: led_apply.simps)
qed

interpretation pg: metadata_ledger pg_perform pg_view pg_ok
proof
  fix db db' c now flt r
  assume ok: "pg_ok db" and p: "pg_perform c now flt db = (r, db')"
  note spec = pg_perform_spec [OF ok p]
  show "pg_ok db'" using spec ok by (auto simp: pg_call_spec_def)
next
  fix db db' c now flt n
  assume ok: "pg_ok db" and c: "call_ok c" and p: "pg_perform c now flt db = (Inr n, db')"
  show "pg_view db' = led_apply c now (pg_view db) \<and> (needs_row c \<longrightarrow> pg_view db (call_url c) \<noteq> None) \<and>
    (counts_failure c \<longrightarrow> map_option le_retry_count (pg_view db' (call_url c)) = Some n)"
    using pg_perform_spec [OF ok p] c by (auto simp: pg_call_spec_def)
next
  fix db db' c now flt x
  assume ok: "pg_ok db" and c: "call_ok c" and p: "pg_perform c now flt db = (Inl x, db')"
  show "pg_view db' = pg_view db \<or> pg_view db' = led_apply c now (pg_view db)"
    using pg_perform_spec [OF ok p] c by (auto simp: pg_call_spec_def)
qed

lemma pg_calm_reply:
  assumes "pg_ok db" "call_ok c" "retry_room (2 ^ 31 - 1) c (pg_view db)"
  shows "reply_of (fst (pg_perform c now TxOk db)) = led_reply c (pg_view db)"
proof (cases c)
  case (CallFailed url kind)
  show ?thesis
  proof (cases "find_url (cu_str url) db")
    case (Some r)
    then have r: "0 \<le> ur_retry_count r" using row_of_ok [OF assms(1)] by (simp add: row_ok_def)
    have "pg_view db (cu_str url) = Some (entry_of_row r)" using Some by (simp add: pg_view_def)
    then have "le_retry_count (entry_of_row r) < 2 ^ 31 - 1" using assms(3) CallFailed by (simp add: retry_room_def)
    then have "nat (ur_retry_count r) < 2 ^ 31 - 1" using r by (simp add: entry_of_row_def)
    then have "ur_retry_count r + 1 < 2 ^ 31" using r by simp
    then show ?thesis using CallFailed Some r
      by (simp add: pg_mark_failed_def led_reply_def pg_view_def entry_of_row_def nat_add_distrib)
  qed (simp add: CallFailed pg_mark_failed_def led_reply_def pg_view_def)
qed (auto simp: pg_mark_attempting_def pg_mark_succeeded_def pg_mark_permanently_failed_def pg_mark_discovered_skipped_def
    update_url_to_succeeded_def led_reply_def pg_view_def unit_reply_def Let_def split: option.splits prod.splits)

interpretation pg: calm_ledger pg_perform pg_view pg_ok TxOk "2 ^ 31 - 1"
  by unfold_locales (rule pg_calm_reply)

subsection \<open>Redelivery and publishing\<close>

lemma insert_outbox_other:
  "pg_urls (insert_outbox_row i a c db) = pg_urls db" "pg_history (insert_outbox_row i a c db) = pg_history db"
  by (simp_all add: insert_outbox_row_def)

lemma insert_outbox_has: "list_ex (outbox_conflict i a (cu_str (ue_url c))) (pg_outbox (insert_outbox_row i a c db))"
  by (simp add: insert_outbox_row_def) (simp add: outbox_conflict_def)

lemma insert_outbox_keeps: "list_ex P (pg_outbox db) \<Longrightarrow> list_ex P (pg_outbox (insert_outbox_row i a c db))"
  by (auto simp: insert_outbox_row_def)

lemma fold_outbox_frame:
  "pg_urls (fold (insert_outbox_row i a) cs db) = pg_urls db"
  "pg_history (fold (insert_outbox_row i a) cs db) = pg_history db"
  by (induction cs arbitrary: db) (simp_all add: insert_outbox_other)

lemma fold_outbox_keeps: "list_ex P (pg_outbox db) \<Longrightarrow> list_ex P (pg_outbox (fold (insert_outbox_row i a) cs db))"
  by (induction cs arbitrary: db) (auto intro: insert_outbox_keeps)

lemma fold_outbox_has:
  "c \<in> set cs \<Longrightarrow> list_ex (outbox_conflict i a (cu_str (ue_url c))) (pg_outbox (fold (insert_outbox_row i a) cs db))"
  by (induction cs arbitrary: db) (auto intro: fold_outbox_keeps insert_outbox_has)

lemma fold_outbox_noop:
  "(\<And>c. c \<in> set cs \<Longrightarrow> list_ex (outbox_conflict i a (cu_str (ue_url c))) (pg_outbox db)) \<Longrightarrow>
   fold (insert_outbox_row i a) cs db = db"
  by (induction cs) (simp_all add: insert_outbox_row_def)

lemma mark_published_frame [simp]:
  "pg_urls (mark_published ids t db) = pg_urls db" "pg_history (mark_published ids t db) = pg_history db"
  "find_url u (mark_published ids t db) = find_url u db"
  "list_ex (outbox_conflict i a u) (pg_outbox (mark_published ids t db)) = list_ex (outbox_conflict i a u) (pg_outbox db)"
proof -
  show "list_ex (outbox_conflict i a u) (pg_outbox (mark_published ids t db)) = list_ex (outbox_conflict i a u) (pg_outbox db)"
  proof -
    have "list_ex (outbox_conflict i a u) (map (\<lambda>r. if ob_id r \<in> set ids then r\<lparr>ob_published_at := Some t\<rparr> else r) rs) =
        list_ex (outbox_conflict i a u) rs" for rs
      by (induction rs) (auto simp: outbox_conflict_def)
    then show ?thesis by (simp add: mark_published_def)
  qed
qed (simp_all add: mark_published_def find_url_def)

lemma mark_succeeded_ok:
  assumes "pg_mark_succeeded s now TxOk db = (Inr (), db')"
  shows "\<exists>r db1. find_url (cu_str (su_url s)) db = Some r \<and>
     map ur_id (pg_urls db1) = map ur_id (pg_urls db) \<and> map ur_url (pg_urls db1) = map ur_url (pg_urls db) \<and>
     pg_outbox db1 = pg_outbox db \<and>
     pg_history db1 = pg_history (insert_history (ur_id r) (ur_last_run_id r) EVENT_SUCCEEDED
        (Some (''blob_path'', su_blob_path s)) (Some (su_attempt_id s)) db) \<and>
     db' = fold (insert_outbox_row (ur_id r) (su_attempt_id s)) (su_outbound s) db1"
proof -
  obtain r where r: "find_url (cu_str (su_url s)) db = Some r"
    using assms by (auto simp: pg_mark_succeeded_def update_url_to_succeeded_def split: option.splits)
  let ?f = "\<lambda>r. r\<lparr>ur_status := STATUS_SUCCEEDED, ur_retry_count := 0, ur_blob_path := Some (su_blob_path s),
    ur_content_hash := Some (hash_as_i64 (su_content_hash s)), ur_updated_at := now\<rparr>"
  let ?db1 = "insert_history (ur_id r) (ur_last_run_id r) EVENT_SUCCEEDED (Some (''blob_path'', su_blob_path s))
    (Some (su_attempt_id s)) (update_url (cu_str (su_url s)) ?f db)"
  have "db' = fold (insert_outbox_row (ur_id r) (su_attempt_id s)) (su_outbound s) ?db1"
    using assms r by (simp add: pg_mark_succeeded_def update_url_to_succeeded_def Let_def)
  moreover have "map ur_id (pg_urls ?db1) = map ur_id (pg_urls db)" "map ur_url (pg_urls ?db1) = map ur_url (pg_urls db)"
      "pg_outbox ?db1 = pg_outbox db"
    by (auto simp: insert_history_def update_url_def)
  moreover have "pg_history ?db1 = pg_history (insert_history (ur_id r) (ur_last_run_id r) EVENT_SUCCEEDED
        (Some (''blob_path'', su_blob_path s)) (Some (su_attempt_id s)) db)"
    by (simp add: insert_history_def update_url_def)
  ultimately show ?thesis using r by blast
qed

lemma find_id_stable:
  "map ur_url (pg_urls a) = map ur_url (pg_urls b) \<Longrightarrow> map ur_id (pg_urls a) = map ur_id (pg_urls b) \<Longrightarrow>
   map_option ur_id (find_url u a) = map_option ur_id (find_url u b)"
proof -
  have "map ur_url xs = map ur_url ys \<Longrightarrow> map ur_id xs = map ur_id ys \<Longrightarrow>
      map_option ur_id (List.find (\<lambda>r. ur_url r = u) xs) = map_option ur_id (List.find (\<lambda>r. ur_url r = u) ys)" for xs ys
  proof (induction xs arbitrary: ys)
    case (Cons x xs)
    then show ?case by (cases ys) auto
  qed simp
  then show "map ur_url (pg_urls a) = map ur_url (pg_urls b) \<Longrightarrow> map ur_id (pg_urls a) = map ur_id (pg_urls b) \<Longrightarrow> ?thesis"
    by (simp add: find_url_def)
qed

lemma history_insert_has:
  "a \<noteq> None \<Longrightarrow> list_ex (\<lambda>h. hr_url_id h = i \<and> hr_attempt_id h = a) (pg_history (insert_history i run ev d a db))"
  by (simp add: insert_history_def)

subsection \<open>Properties\<close>

text \<open>C10: the Postgres store is a ledger. Whatever calls are made and whatever their transactions
  meet, the rows afterwards are what a subsequence of the calls, applied in order, makes of the
  abstract ledger, and every call that answered success is in it; every row stays well formed, and a
  URL once in the ledger keeps the time and the source of its discovery.\<close>

theorem postgres_ledger_refines:
  assumes "pg_ok db" "\<forall>(c, now, flt) \<in> set calls. call_ok c"
    and "performs pg_perform calls db = (rs, db')"
  shows "pg_ok db' \<and>
    (\<exists>made. subseq (answered calls rs) made \<and> subseq made calls \<and>
       pg_view db' = fold (\<lambda>(c, now, flt). led_apply c now) made (pg_view db)) \<and>
    (\<forall>u m. pg_view db u = Some m \<longrightarrow> (\<exists>m'. pg_view db' u = Some m' \<and>
       le_discovered_at m' = le_discovered_at m \<and> le_discovered_from m' = le_discovered_from m))"
proof -
  obtain made where m: "subseq (answered calls rs) made" "subseq made calls"
      "pg_view db' = fold (\<lambda>(c, now, flt). led_apply c now) made (pg_view db)" "pg_ok db'"
    using pg.performs_view [OF assms] by auto
  show ?thesis
  proof (intro conjI)
    show "\<exists>made. subseq (answered calls rs) made \<and> subseq made calls \<and>
       pg_view db' = fold (\<lambda>(c, now, flt). led_apply c now) made (pg_view db)" using m(1-3) by blast
    show "\<forall>u m. pg_view db u = Some m \<longrightarrow> (\<exists>m'. pg_view db' u = Some m' \<and>
       le_discovered_at m' = le_discovered_at m \<and> le_discovered_from m' = le_discovered_from m)"
      using led_fold_discovery unfolding m(3) by fast
  qed (rule m(4))
qed

definition page_url :: canonical_url where
  "page_url = \<lparr>cu_str = ''http://a/'', cu_scheme = ''http'', cu_host = Some ''a'', cu_path = ''/''\<rparr>"

definition page_success :: success_record where
  "page_success = \<lparr>su_url = page_url, su_attempt_id = ''t'', su_blob_path = ''p'', su_content_hash = 7,
     su_outbound = [\<lparr>ue_url = page_url, ue_depth = 1, ue_discovered_from = None\<rparr>]\<rparr>"

lemma empty_pg_ok: "pg_ok empty_pg"
  by (simp add: pg_ok_def empty_pg_def)

definition page_calls :: "(ledger_call \<times> u64 \<times> tx_fault) list" where
  "page_calls = [(CallAttempting page_url ''r'' 0, 5, TxOk), (CallFailed page_url FkTimeout, 6, TxCommitLost ''x''),
      (CallSucceeded page_success, 7, TxFails ''y'')]"

theorem postgres_ledger_refines_witness:
  "pg_ok (snd (performs pg_perform page_calls empty_pg)) \<and>
   map isl (fst (performs pg_perform page_calls empty_pg)) = [False, True, True]"
proof -
  have "\<forall>(c, now, flt) \<in> set page_calls. call_ok c" by (simp add: page_calls_def)
  from postgres_ledger_refines [OF empty_pg_ok this surjective_pairing]
  have "pg_ok (snd (performs pg_perform page_calls empty_pg))" by blast
  then show ?thesis
    by (simp add: page_calls_def empty_pg_def page_url_def page_success_def pg_mark_attempting_def pg_mark_failed_def
      pg_mark_succeeded_def upsert_attempting_def find_url_def insert_url_def new_url_row_def insert_history_def
      update_url_def unit_reply_def url_host_def depth_as_i32_def)
qed

text \<open>C29: a success is recorded once per attempt id. After \<open>mark_succeeded\<close>, a second one for the
  same URL and attempt id whose links are among those of the first adds neither a history row nor
  an outbox row, whether or not the first rows have been published in between. The attempt ids
  of the Redis frontier are functions of shard, URL and host, so this also holds for the next
  run's crawl of the URL: its links are then never published again.\<close>

theorem success_recorded_once:
  assumes "pg_ok db" "pg_mark_succeeded s now TxOk db = (Inr (), db1)"
    and "su_url s' = su_url s" "su_attempt_id s' = su_attempt_id s"
    and "cu_str ` ue_url ` set (su_outbound s') \<subseteq> cu_str ` ue_url ` set (su_outbound s)"
    and "pg_mark_succeeded s' now' TxOk (mark_published ids t db1) = (Inr (), db2)"
  shows "pg_outbox db2 = pg_outbox (mark_published ids t db1) \<and> pg_history db2 = pg_history db1"
proof -
  let ?dp = "mark_published ids t db1"
  obtain r d1 where 1: "find_url (cu_str (su_url s)) db = Some r"
      "map ur_id (pg_urls d1) = map ur_id (pg_urls db)" "map ur_url (pg_urls d1) = map ur_url (pg_urls db)"
      "pg_history d1 = pg_history (insert_history (ur_id r) (ur_last_run_id r) EVENT_SUCCEEDED
        (Some (''blob_path'', su_blob_path s)) (Some (su_attempt_id s)) db)"
      "db1 = fold (insert_outbox_row (ur_id r) (su_attempt_id s)) (su_outbound s) d1"
    using mark_succeeded_ok [OF assms(2)] by blast
  obtain r' d2 where 2: "find_url (cu_str (su_url s')) ?dp = Some r'" "pg_outbox d2 = pg_outbox ?dp"
      "pg_history d2 = pg_history (insert_history (ur_id r') (ur_last_run_id r') EVENT_SUCCEEDED
        (Some (''blob_path'', su_blob_path s')) (Some (su_attempt_id s')) ?dp)"
      "db2 = fold (insert_outbox_row (ur_id r') (su_attempt_id s')) (su_outbound s') d2"
    using mark_succeeded_ok [OF assms(6)] by blast
  have "map_option ur_id (find_url (cu_str (su_url s)) db1) = map_option ur_id (find_url (cu_str (su_url s)) db)"
    using find_id_stable 1 fold_outbox_frame by metis
  then have id: "ur_id r' = ur_id r" using 1(1) 2(1) assms(3) by auto
  have h1: "pg_history db1 = pg_history d1" unfolding 1(5) by (rule fold_outbox_frame)
  have "list_ex (\<lambda>h. hr_url_id h = ur_id r \<and> hr_attempt_id h = Some (su_attempt_id s)) (pg_history ?dp)"
    unfolding mark_published_frame(2) h1 1(4) by (rule history_insert_has) simp
  then have h: "pg_history d2 = pg_history db1" using 2(3) assms(4) id by (simp add: insert_history_def)
  have "list_ex (outbox_conflict (ur_id r') (su_attempt_id s') (cu_str (ue_url c))) (pg_outbox d2)" if "c \<in> set (su_outbound s')" for c
  proof -
    obtain c' where "c' \<in> set (su_outbound s)" "cu_str (ue_url c') = cu_str (ue_url c)" using assms(5) \<open>c \<in> set (su_outbound s')\<close> by force
    with fold_outbox_has [of c' "su_outbound s" "ur_id r" "su_attempt_id s" d1]
    have "list_ex (outbox_conflict (ur_id r) (su_attempt_id s) (cu_str (ue_url c))) (pg_outbox db1)" by (simp add: 1(5))
    then show ?thesis unfolding 2(2) id assms(4) mark_published_frame .
  qed
  then have "db2 = d2" unfolding 2(4) by (rule fold_outbox_noop)
  then show ?thesis using 2(2) h by simp
qed

definition page_db :: pg_db where
  "page_db = snd (pg_mark_attempting page_url ''r'' 0 5 TxOk empty_pg)"

definition done_db :: pg_db where
  "done_db = snd (pg_mark_succeeded page_success 6 TxOk page_db)"

lemmas demo_eval = empty_pg_def pg_mark_attempting_def upsert_attempting_def find_url_def insert_url_def new_url_row_def
  insert_history_def page_url_def page_success_def pg_mark_succeeded_def update_url_to_succeeded_def update_url_def
  insert_outbox_row_def outbox_conflict_def depth_as_i32_def mark_published_def url_host_def EVENT_ATTEMPTED_def

lemma page_db_eval: "pg_mark_succeeded page_success 6 TxOk page_db = (Inr (), done_db)"
    "map ob_id (pg_outbox done_db) = [0]" "map ob_url (pg_outbox done_db) = [''http://a/'']"
    "map ob_published_at (pg_outbox done_db) = [None]" "map ob_discovered_from (pg_outbox done_db) = [None]"
    "find_url ''http://a/'' done_db \<noteq> None"
  by (simp_all add: done_db_def page_db_def demo_eval)

theorem success_recorded_once_witness:
  "map ob_published_at (pg_outbox (snd (pg_mark_succeeded page_success 9 TxOk (mark_published [0] 8 done_db)))) = [Some 8]"
proof -
  have ok: "pg_ok page_db"
    using pg.perform_view [OF empty_pg_ok, of "CallAttempting page_url ''r'' 0" 5 TxOk]
    by (auto simp: page_db_def unit_reply_def split: prod.splits sum.splits)
  have 1: "pg_mark_succeeded page_success 6 TxOk page_db = (Inr (), done_db)"
    by (rule page_db_eval)
  obtain db2 where 2: "pg_mark_succeeded page_success 9 TxOk (mark_published [0] 8 done_db) = (Inr (), db2)"
    using page_db_eval(6)
    by (auto simp: pg_mark_succeeded_def update_url_to_succeeded_def Let_def page_success_def page_url_def split: option.splits)
  have "map ob_published_at (pg_outbox (mark_published [0] 8 done_db)) = [Some 8]"
    using page_db_eval(2) by (auto simp: mark_published_def)
  with success_recorded_once [OF ok 1 refl refl order_refl 2] show ?thesis using 2 by simp
qed

text \<open>C13: the outbox loses nothing and publishes nothing unshipped. A call of \<open>publish\<close> hands at most
  one batch to the frontier: at most \<open>mx\<close> rows, none of them published before or held by another
  publisher, each as its URL entry. Only when the frontier accepted the batch are its rows, and no
  others, marked as published, and a reported number is that of the batch; otherwise no row is
  marked and none is reported.\<close>

theorem publish_ships_first:
  assumes "pg_publish U mx ship locked now se flt (db, f) = (r, db', f')"
  shows "((db', f') = (db, f) \<and> (\<forall>n. r = Inr n \<longrightarrow> n = 0)) \<or>
     (\<exists>entries q db1 f1. ship entries (db, f) = (q, db1, f1) \<and> f' = f1 \<and> length entries \<le> mx \<and>
        (\<forall>e \<in> set entries. \<exists>x \<in> set (pg_outbox db). outbox_entry_of U x = Inr e \<and> ob_published_at x = None \<and> \<not> locked (ob_id x)) \<and>
        ((db' = db1 \<and> isl r) \<or>
         (q = Inr () \<and> db' = mark_published (map oe_id entries) now db1 \<and> (\<forall>n. r = Inr n \<longrightarrow> n = length entries))))"
proof (cases "mapM_result (outbox_entry_of U) (leasable locked mx db)")
  case (Inl e)
  then show ?thesis using assms by (auto simp: pg_publish_def Let_def split: if_splits)
next
  case (Inr entries)
  let ?rows = "leasable locked mx db"
  have l2: "list_all2 (\<lambda>x e. outbox_entry_of U x = Inr e) ?rows entries"
    using Inr by (simp add: mapM_result_Inr_iff)
  have oid: "outbox_entry_of U x = Inr e \<Longrightarrow> oe_id e = ob_id x" for x e
    by (auto simp: outbox_entry_of_def split: sum.splits option.splits)
  have ids: "map oe_id entries = map ob_id ?rows" using l2 by (induction rule: list_all2_induct) (auto dest: oid)
  have rows: "x \<in> set (pg_outbox db) \<and> ob_published_at x = None \<and> \<not> locked (ob_id x)" if "x \<in> set ?rows" for x
    using that by (auto simp: leasable_def dest!: in_set_takeD)
  have "\<exists>x \<in> set ?rows. outbox_entry_of U x = Inr e" if "e \<in> set entries" for e
    using l2 that by (induction rule: list_all2_induct) auto
  then have es: "\<forall>e \<in> set entries. \<exists>x \<in> set (pg_outbox db). outbox_entry_of U x = Inr e \<and> ob_published_at x = None \<and> \<not> locked (ob_id x)"
    using rows by blast
  have len: "length entries \<le> mx" using mapM_result_Inr_length [OF Inr] by (simp add: leasable_def)
  show ?thesis
  proof (cases "se \<noteq> None \<or> ?rows = []")
    case True
    then show ?thesis using assms by (auto simp: pg_publish_def Let_def split: if_splits)
  next
    case False
    obtain q db1 f1 where q: "ship entries (db, f) = (q, db1, f1)" by (metis surj_pair)
    have "f' = f1 \<and> ((db' = db1 \<and> isl r) \<or>
        (q = Inr () \<and> db' = mark_published (map oe_id entries) now db1 \<and> (\<forall>n. r = Inr n \<longrightarrow> n = length entries)))"
      using assms False Inr q unfolding ids by (cases q; cases flt) (auto simp: pg_publish_def Let_def)
    then show ?thesis using q len es by blast
  qed
qed

lemma publish_done: "\<exists>db'. pg_publish ref_url_ops 10 (\<lambda>es st. (Inr (), st)) (\<lambda>_. False) 8 None TxOk (done_db, ()) = (Inr 1, db', ())"
proof -
  have "\<not> isl (url_parse ref_url_ops ''http://a/'')" by code_simp
  then obtain u where u: "url_parse ref_url_ops ''http://a/'' = Inr u"
    by (cases "url_parse ref_url_ops ''http://a/''") auto
  obtain x where x: "pg_outbox done_db = [x]" "ob_id x = 0" "ob_url x = ''http://a/''" "ob_published_at x = None" "ob_discovered_from x = None"
    using page_db_eval(2-5) by (auto simp: map_eq_Cons_conv)
  then have "leasable (\<lambda>_. False) 10 done_db = [x]" by (simp add: leasable_def)
  then show ?thesis using x u by (simp add: pg_publish_def outbox_entry_of_def parse_canonical_def)
qed

theorem publish_ships_first_witness:
  "\<exists>(entries :: outbox_entry list) db'. length entries = 1 \<and>
     pg_publish ref_url_ops 10 (\<lambda>es st. (Inr (), st)) (\<lambda>_. False) 8 None TxOk (done_db, ()) = (Inr 1, db', ()) \<and>
     db' = mark_published (map oe_id entries) 8 done_db"
proof -
  obtain db' where p: "pg_publish ref_url_ops 10 (\<lambda>es st. (Inr (), st)) (\<lambda>_. False) 8 None TxOk (done_db, ()) = (Inr 1, db', ())"
    using publish_done by blast
  from publish_ships_first [OF p] obtain entries :: "outbox_entry list"
    where "length entries = 1" "db' = mark_published (map oe_id entries) 8 done_db" by auto
  with p show ?thesis by blast
qed

end
