(* ===== verification/Crawl_System.thy ===== *)
theory Crawl_System
  imports Worker_Protocol Postgres_Ledger
begin

text \<open>
  The worker on the services it runs with: the Redis frontier, the politeness gate and the Postgres
  ledger of this development, wired as \<^verbatim>\<open>crawlrs-runtime/src/crawler.rs\<close> wires them. Fetcher, parser
  and blob store stay functions on a state of their own. Every service call draws the clock
  readings and faults it meets from the environment of its turn.
\<close>

subsection \<open>A ledger under the worker\<close>

text \<open>The failures a ledger has counted of a URL.\<close>

definition url_failures :: "ledger \<Rightarrow> canonical_url \<Rightarrow> nat" where
  "url_failures L u = (case L (cu_str u) of None \<Rightarrow> 0 | Some m \<Rightarrow> le_retry_count m)"

text \<open>What the retry budget needs of the services: the ledger makes its transitions and answers as the
  abstract one, and no other service touches it. \<open>clk\<close> is the time of a ledger call.\<close>

locale ledger_worker =
  fixes D :: "'s worker_deps" and view :: "'s \<Rightarrow> ledger" and fine :: "'s \<Rightarrow> bool" and clk :: "'s \<Rightarrow> u64" and limit :: nat
  assumes ledger_step: "fine s \<Longrightarrow> call_ok c \<Longrightarrow> retry_room limit c (view s) \<Longrightarrow> wd_ledger D c s = (r, s') \<Longrightarrow>
      fine s' \<and> view s' = led_apply c (clk s) (view s) \<and> reply_of r = led_reply c (view s)"
    and ack_frame: "view (snd (wd_ack D a s)) = view s \<and> (fine s \<longrightarrow> fine (snd (wd_ack D a s)))"
    and wake_frame: "view (snd (wd_advance_wake D h t s)) = view s \<and> (fine s \<longrightarrow> fine (snd (wd_advance_wake D h t s)))"
    and check_frame: "view (snd (wd_check D u s)) = view s \<and> (fine s \<longrightarrow> fine (snd (wd_check D u s)))"
    and record_frame: "view (snd (wd_record_failure D u k d s)) = view s \<and> (fine s \<longrightarrow> fine (snd (wd_record_failure D u k d s)))"
    and fetch_frame: "view (snd (wd_fetch D q s)) = view s \<and> (fine s \<longrightarrow> fine (snd (wd_fetch D q s)))"
begin

lemma wake_plan_frame: "view (apply_wake_plan D plan s) = view s \<and> (fine s \<longrightarrow> fine (apply_wake_plan D plan s))"
  using wake_frame by (cases plan) (auto simp: apply_wake_plan_def)

lemma ack_attempt_frame: "view (ack_attempt D p s) = view s \<and> (fine s \<longrightarrow> fine (ack_attempt D p s))"
  using ack_frame by (simp add: ack_attempt_def)

text \<open>One more failure of a URL whose row has some already.\<close>

lemma failure_counted:
  assumes "fine s" "view s (cu_str (up_url p)) = Some m" "Suc (le_retry_count m) < limit"
  shows "\<exists>m'. view (handle_failure D p kind reason s) (cu_str (up_url p)) = Some m' \<and>
     le_retry_count m' = Suc (le_retry_count m) \<and> fine (handle_failure D p kind reason s) \<and>
     le_status m' = (if Suc (le_retry_count m) \<ge> wc_max_retries (wd_config D) then PermanentlyFailed else FailedTransient)"
proof -
  obtain r s1 where 1: "wd_ledger D (CallFailed (up_url p) kind) s = (r, s1)" by (metis surj_pair)
  have step1: "fine s1" "view s1 = led_apply (CallFailed (up_url p) kind) (clk s) (view s)"
      "reply_of r = led_reply (CallFailed (up_url p) kind) (view s)"
    using ledger_step [OF assms(1) _ _ 1] assms(2,3) by (simp_all add: retry_room_def)
  have r: "r = Inr (Suc (le_retry_count m))" using step1 assms(2) by (cases r) (auto simp: led_reply_def)
  show ?thesis
  proof (cases "Suc (le_retry_count m) \<ge> wc_max_retries (wd_config D)")
    case True
    let ?c = "CallGiveUp (up_url p) (''retries exceeded ('' @ show_nat (Suc (le_retry_count m)) @ ''): '' @ reason)"
    obtain q s2 where 2: "wd_ledger D ?c s1 = (q, s2)" by (metis surj_pair)
    have "fine s2 \<and> view s2 = led_apply ?c (clk s1) (view s1)"
      using ledger_step [OF step1(1) _ _ 2] assms(2,3) step1(2) by (simp add: retry_room_def)
    moreover have "handle_failure D p kind reason s = ack_attempt D p s2" using 1 2 r True by (simp add: handle_failure_def)
    ultimately show ?thesis using True step1 assms(2) ack_attempt_frame [of p s2] by simp
  next
    case False
    then show ?thesis using 1 r step1 assms(2) by (simp add: handle_failure_def)
  qed
qed

lemma failing_run:
  assumes "fine s" "ue_depth (up_entry p) < 2 ^ 31" "\<forall>s. isl (fst (wd_fetch D (fetch_request_new (up_url p)) s))"
    and "politeness_allows D p s = (True, s0)" "s0 = snd (wd_check D (up_url p) s)" "Suc (url_failures (view s) (up_url p)) < limit"
  shows "fine (run_pipeline D p s) \<and> url_failures (view (run_pipeline D p s)) (up_url p) = Suc (url_failures (view s) (up_url p)) \<and>
     map_option le_status (view (run_pipeline D p s) (cu_str (up_url p))) =
       Some (if Suc (url_failures (view s) (up_url p)) \<ge> wc_max_retries (wd_config D) then PermanentlyFailed else FailedTransient)"
proof -
  let ?u = "up_url p" and ?a = "CallAttempting (up_url p) (wd_run_id D) (ue_depth (up_entry p))"
  have 0: "view s0 = view s" "fine s0" using check_frame [of ?u s] assms(1,5) by simp_all
  obtain r s1 where 1: "wd_ledger D ?a s0 = (r, s1)" by (metis surj_pair)
  have room: "retry_room limit ?a (view s0)" using assms(6) 0 by (auto simp: retry_room_def url_failures_def)
  have step: "fine s1" "view s1 = led_apply ?a (clk s0) (view s0)" using ledger_step [OF 0(2) _ room 1] assms(2) by simp_all
  then obtain m where m: "view s1 (cu_str ?u) = Some m" "le_retry_count m = url_failures (view s) ?u"
    using 0 by (auto simp: url_failures_def new_entry_def split: option.splits)
  obtain e s2 where 2: "wd_fetch D (fetch_request_new ?u) s1 = (Inl e, s2)"
    using assms(3) by (metis isl_def prod.collapse)
  have v2: "view s2 = view s1" "fine s2" using fetch_frame [of "fetch_request_new ?u" s1] 2 step(1) by simp_all
  obtain plan s3 where 3: "wd_record_failure D ?u (failure_of e) None s2 = (plan, s3)" by (metis surj_pair)
  have v3: "view s3 = view s2" "fine s3" using record_frame [of ?u "failure_of e" None s2] 3 v2(2) by simp_all
  let ?s4 = "apply_wake_plan D plan s3"
  have v4: "view ?s4 (cu_str ?u) = Some m" "fine ?s4" using wake_plan_frame [of plan s3] v2 v3 m(1) by simp_all
  have run: "run_pipeline D p s = handle_failure D p (failure_of e) (''transport: '' @ show_error e) ?s4"
    using assms(4) 1 2 3 by (simp add: run_pipeline_def mark_attempting_def worker_fetch_def)
  obtain m' where "view (run_pipeline D p s) (cu_str ?u) = Some m'" "le_retry_count m' = Suc (url_failures (view s) ?u)" "fine (run_pipeline D p s)"
      "le_status m' = (if Suc (url_failures (view s) ?u) \<ge> wc_max_retries (wd_config D) then PermanentlyFailed else FailedTransient)"
    using failure_counted [OF v4(2,1), of "failure_of e" "''transport: '' @ show_error e"] assms(6) m(2) run by auto
  then show ?thesis by (simp add: url_failures_def)
qed

text \<open>Attempts one after the other, with whatever happens to the rest of the system before each.\<close>

lemma failing_runs:
  assumes "gs \<noteq> []" "fine s" "ue_depth (up_entry p) < 2 ^ 31"
    and "\<not> (\<exists>h. cu_host (up_url p) = Some h \<and> is_blocked (wd_blocklist D) h)"
    and "\<forall>s. fst (wd_check D (up_url p) s) = Inr Allow"
    and "\<forall>s. isl (fst (wd_fetch D (fetch_request_new (up_url p)) s))"
    and "\<forall>g \<in> set gs. \<forall>s. fine s \<longrightarrow> fine (g s) \<and> view (g s) (cu_str (up_url p)) = view s (cu_str (up_url p))"
    and "url_failures (view s) (up_url p) + length gs < limit"
    and "s' = fold (\<lambda>g s. run_pipeline D p (g s)) gs s"
  shows "fine s' \<and> url_failures (view s') (up_url p) = url_failures (view s) (up_url p) + length gs \<and>
     map_option le_status (view s' (cu_str (up_url p))) =
       Some (if url_failures (view s) (up_url p) + length gs \<ge> wc_max_retries (wd_config D) then PermanentlyFailed else FailedTransient)"
  using assms(1,2,7,8,9)
proof (induction gs arbitrary: s)
  case (Cons g gs)
  let ?u = "up_url p" and ?s = "run_pipeline D p (g s)"
  have g: "fine (g s)" "url_failures (view (g s)) ?u = url_failures (view s) ?u" using Cons.prems by (auto simp: url_failures_def)
  have al: "politeness_allows D p (g s) = (True, snd (wd_check D ?u (g s)))"
    using assms(4) spec [OF assms(5), of "g s"] by (auto simp: politeness_allows_def split: prod.splits option.splits)
  have run: "fine ?s \<and> url_failures (view ?s) ?u = Suc (url_failures (view s) ?u) \<and>
     map_option le_status (view ?s (cu_str ?u)) =
       Some (if Suc (url_failures (view s) ?u) \<ge> wc_max_retries (wd_config D) then PermanentlyFailed else FailedTransient)"
    using failing_run [OF g(1) assms(3,6) al refl] Cons.prems(4) g(2) by simp
  show ?case
  proof (cases "gs = []")
    case True
    then show ?thesis using run Cons.prems(5) by simp
  next
    case False
    then show ?thesis using Cons.IH [OF False, of ?s] run Cons.prems by simp
  qed
qed simp

end

subsection \<open>The services\<close>

record crawl_env =
  ce_wall_ms :: u64
  ce_instant :: nat
  ce_pg_now :: u64
  ce_tx :: tx_fault
  ce_claim_faults :: "fault list"
  ce_order :: "u32 list \<Rightarrow> u32 list"
  ce_submit_fault :: "u32 \<Rightarrow> fault"
  ce_fault :: fault
  ce_fault2 :: fault
  ce_io :: io_env
  ce_tick_faults :: "(fault \<times> fault) list"
  ce_hq_text :: "hq_error \<Rightarrow> string"

text \<open>\<open>cw_env\<close> holds the environment of every turn, \<open>cw_tick\<close> counts them.\<close>

record ('db, 'g, 'x) crawl_world =
  cw_env :: "nat \<Rightarrow> crawl_env"
  cw_tick :: nat
  cw_frontier :: "'db frontier_state"
  cw_pg :: pg_db
  cw_gate :: 'g
  cw_ext :: 'x

record 'x outside =
  xt_fetch :: "fetch_request \<Rightarrow> 'x \<Rightarrow> (crawl_error + fetch_response) \<times> 'x"
  xt_parse :: "fetch_response \<Rightarrow> 'x \<Rightarrow> (crawl_error + parsed_document) \<times> 'x"
  xt_write :: "store_record \<Rightarrow> 'x \<Rightarrow> (crawl_error + string) \<times> 'x"
  xt_adapters :: "'x site_adapter list"
  xt_http_date :: "string \<Rightarrow> nat option"

record crawl_settings =
  st_config :: crawler_config
  st_blocklist :: blocklist
  st_run_id :: run_id

abbreviation cw_now :: "('db, 'g, 'x) crawl_world \<Rightarrow> crawl_env" where
  "cw_now w \<equiv> cw_env w (cw_tick w)"

definition ticked :: "('db, 'g, 'x) crawl_world \<Rightarrow> ('db, 'g, 'x) crawl_world" where
  "ticked w = w\<lparr>cw_tick := Suc (cw_tick w)\<rparr>"

definition on_redis ::
  "(crawl_env \<Rightarrow> 'db \<Rightarrow> (redis_frontier_error + 'a) \<times> 'db) \<Rightarrow> ('db, 'g, 'x) crawl_world \<Rightarrow>
   (crawl_error + 'a) \<times> ('db, 'g, 'x) crawl_world" where
  "on_redis f w =
     (let E = cw_now w; (r, db) = f E (fs_db (cw_frontier w))
      in (map_sum (rf_to_error (ce_hq_text E)) id r, ticked (w\<lparr>cw_frontier := (cw_frontier w)\<lparr>fs_db := db\<rparr>\<rparr>)))"

definition on_gate ::
  "(io_env \<Rightarrow> 'g \<Rightarrow> 'a \<times> 'g) \<Rightarrow> ('db, 'g, 'x) crawl_world \<Rightarrow> 'a \<times> ('db, 'g, 'x) crawl_world" where
  "on_gate f w = (let (r, g) = f (ce_io (cw_now w)) (cw_gate w) in (r, ticked (w\<lparr>cw_gate := g\<rparr>)))"

definition on_ext :: "('x \<Rightarrow> 'a \<times> 'x) \<Rightarrow> ('db, 'g, 'x) crawl_world \<Rightarrow> 'a \<times> ('db, 'g, 'x) crawl_world" where
  "on_ext f w = (let (r, x) = f (cw_ext w) in (r, ticked (w\<lparr>cw_ext := x\<rparr>)))"

definition crawl_claim ::
  "'db redis_frontier \<Rightarrow> worker_identity \<Rightarrow> ('db, 'g, 'x) crawl_world \<Rightarrow> (crawl_error + claim_outcome) \<times> ('db, 'g, 'x) crawl_world" where
  "crawl_claim F i w =
     (let E = cw_now w; clock = \<lparr>cr_instant = ce_instant E, cr_wall_ms = ce_wall_ms E\<rparr>;
          (r, fs) = rf_claim F i (u64_as_i64 (ce_wall_ms E)) clock (ce_claim_faults E) (cw_frontier w)
      in (map_sum (rf_to_error (ce_hq_text E)) id r, ticked (w\<lparr>cw_frontier := fs\<rparr>)))"

definition crawl_ledger ::
  "ledger_call \<Rightarrow> ('db, 'g, 'x) crawl_world \<Rightarrow> (crawl_error + nat) \<times> ('db, 'g, 'x) crawl_world" where
  "crawl_ledger c w =
     (let (r, db) = pg_perform c (ce_pg_now (cw_now w)) (ce_tx (cw_now w)) (cw_pg w) in (r, ticked (w\<lparr>cw_pg := db\<rparr>)))"

definition crawl_deps ::
  "'db redis_frontier \<Rightarrow> 'g composite_politeness \<Rightarrow> 'x outside \<Rightarrow> crawl_settings \<Rightarrow> ('db, 'g, 'x) crawl_world worker_deps" where
  "crawl_deps F P X S =
     \<lparr>wd_claim = crawl_claim F,
      wd_ack = (\<lambda>a. on_redis (\<lambda>E. rf_ack F a (ce_fault E) (ce_fault2 E))),
      wd_advance_wake = (\<lambda>h t. on_redis (\<lambda>E. rf_advance_wake F h t (ce_fault E))),
      wd_submit_batch = (\<lambda>es. on_redis (\<lambda>E. rf_submit_batch F (ce_order E) es (u64_as_i64 (ce_wall_ms E)) (ce_submit_fault E))),
      wd_check = (\<lambda>u. on_gate (polite_check P u)),
      wd_record_fetch = (\<lambda>u. on_gate (polite_record_fetch P u)),
      wd_record_failure = (\<lambda>u k d. on_gate (polite_record_failure P u k d)),
      wd_fetch = (\<lambda>q. on_ext (xt_fetch X q)),
      wd_parse = (\<lambda>r. on_ext (xt_parse X r)),
      wd_write = (\<lambda>x. on_ext (xt_write X x)),
      wd_ledger = crawl_ledger,
      wd_adapters = map (\<lambda>a. \<lparr>sa_matches = sa_matches a, sa_extract = (\<lambda>r. on_ext (sa_extract a r))\<rparr>) (xt_adapters X),
      wd_now_ms = (\<lambda>w. ce_wall_ms (cw_now w)),
      wd_instant = (\<lambda>w. ce_instant (cw_now w)),
      wd_http_date = xt_http_date X,
      wd_config = st_config S,
      wd_crawl_scope = rf_scope F,
      wd_blocklist = st_blocklist S,
      wd_run_id = st_run_id S,
      wd_sharding = rf_sharding F\<rparr>"

lemma crawl_deps_sel [simp]:
  "wd_ack (crawl_deps F P X S) a = on_redis (\<lambda>E. rf_ack F a (ce_fault E) (ce_fault2 E))"
  "wd_advance_wake (crawl_deps F P X S) h t = on_redis (\<lambda>E. rf_advance_wake F h t (ce_fault E))"
  "wd_check (crawl_deps F P X S) u = on_gate (polite_check P u)"
  "wd_record_failure (crawl_deps F P X S) u k d = on_gate (polite_record_failure P u k d)"
  "wd_fetch (crawl_deps F P X S) q = on_ext (xt_fetch X q)"
  "wd_ledger (crawl_deps F P X S) = crawl_ledger" "wd_config (crawl_deps F P X S) = st_config S"
  "wd_blocklist (crawl_deps F P X S) = st_blocklist S"
  by (simp_all add: crawl_deps_def)

subsection \<open>The ledger under this worker\<close>

definition crawl_view :: "('db, 'g, 'x) crawl_world \<Rightarrow> ledger" where
  "crawl_view w = pg_view (cw_pg w)"

text \<open>The rows are well formed, and no transaction of the ledger fails.\<close>

definition crawl_fine :: "('db, 'g, 'x) crawl_world \<Rightarrow> bool" where
  "crawl_fine w \<longleftrightarrow> pg_ok (cw_pg w) \<and> (\<forall>i. ce_tx (cw_env w i) = TxOk)"

lemma ticked_frame [simp]: "crawl_view (ticked w) = crawl_view w" "crawl_fine (ticked w) = crawl_fine w"
  by (simp_all add: ticked_def crawl_view_def crawl_fine_def)

lemma service_frames:
  "crawl_view (snd (on_redis f w)) = crawl_view w" "crawl_fine (snd (on_redis f w)) = crawl_fine w"
  "crawl_view (snd (on_gate g w)) = crawl_view w" "crawl_fine (snd (on_gate g w)) = crawl_fine w"
  "crawl_view (snd (on_ext x w)) = crawl_view w" "crawl_fine (snd (on_ext x w)) = crawl_fine w"
  by (simp_all add: on_redis_def on_gate_def on_ext_def Let_def crawl_view_def crawl_fine_def ticked_def split: prod.split)

interpretation crawl: ledger_worker "crawl_deps F P X S" crawl_view crawl_fine "\<lambda>w. ce_pg_now (cw_now w)" "2 ^ 31 - 1" for F P X S
proof
  fix w w' c r
  assume "crawl_fine w" and c: "call_ok c" "retry_room (2 ^ 31 - 1) c (crawl_view w)" and l: "wd_ledger (crawl_deps F P X S) c w = (r, w')"
  then have ok: "pg_ok (cw_pg w)" "\<forall>i. ce_tx (cw_env w i) = TxOk" by (simp_all add: crawl_fine_def)
  obtain q db where q: "pg_perform c (ce_pg_now (cw_now w)) TxOk (cw_pg w) = (q, db)" by (metis surj_pair)
  from pg.calm_step [OF ok(1) c(1) _ q] c(2)
  have "reply_of q = led_reply c (pg_view (cw_pg w)) \<and> pg_view db = led_apply c (ce_pg_now (cw_now w)) (pg_view (cw_pg w)) \<and> pg_ok db"
    by (simp add: crawl_view_def)
  then show "crawl_fine w' \<and> crawl_view w' = led_apply c (ce_pg_now (cw_now w)) (crawl_view w) \<and> reply_of r = led_reply c (crawl_view w)"
    using l ok(2) q by (auto simp: crawl_ledger_def crawl_view_def crawl_fine_def ticked_def)
qed (simp_all add: service_frames)

subsection \<open>Properties\<close>



definition broken_ext :: "unit outside" where
  "broken_ext = \<lparr>xt_fetch = (\<lambda>_ x. (Inl (EFetch ''refused''), x)), xt_parse = (\<lambda>_ x. (Inl (EParse []), x)),
     xt_write = (\<lambda>_ x. (Inl (EStore []), x)), xt_adapters = [], xt_http_date = (\<lambda>_. None)\<rparr>"

definition demo_settings :: crawl_settings where
  "demo_settings = \<lparr>st_config = crawler_config_default\<lparr>wc_max_retries := 2\<rparr>, st_blocklist = \<lparr>bl_hosts = []\<rparr>, st_run_id = ''r''\<rparr>"

definition demo_world :: "(mem_db, unit, unit) crawl_world" where
  "demo_world =
     \<lparr>cw_env = (\<lambda>i. \<lparr>ce_wall_ms = i, ce_instant = i, ce_pg_now = i, ce_tx = TxOk, ce_claim_faults = [], ce_order = (\<lambda>ks. ks),
        ce_submit_fault = (\<lambda>_. NoFault), ce_fault = NoFault, ce_fault2 = NoFault, ce_io = demo_env, ce_tick_faults = [], ce_hq_text = (\<lambda>_. [])\<rparr>),
      cw_tick = 0, cw_frontier = \<lparr>fs_db = empty_mem, fs_cursor = 0\<rparr>, cw_pg = empty_pg, cw_gate = (), cw_ext = ()\<rparr>"



end
