(* ===== verification/Fake_Ledger.thy ===== *)
theory Fake_Ledger
  imports Postgres_Ledger
begin

text \<open>
  \<^verbatim>\<open>crawlrs-fakes/src/metadata_store.rs\<close> and \<^verbatim>\<open>crawlrs-fakes/src/outbox.rs\<close>: the in-memory
  \<open>MetadataStore\<close> and the outbox inside it. One lock makes every transition a single step, so a
  call is a function on the state behind it. It is the second store that implements the ledger.
  A counter that overflows panics, as it does in the builds the fakes are used in; the panic is
  shown as an error that leaves the state alone.
\<close>

subsection \<open>The outbox\<close>

record mem_outbox_row =
  mo_id :: nat
  mo_entry :: url_entry
  mo_published :: bool

record outbox_state =
  os_rows :: "mem_outbox_row list"
  os_next_id :: nat
  os_dedupe :: "(string \<times> string \<times> string) set"
  os_leased :: "nat set"

definition record_outbound :: "canonical_url \<Rightarrow> attempt_id \<Rightarrow> url_entry \<Rightarrow> outbox_state \<Rightarrow> outbox_state" where
  "record_outbound parent attempt child st =
     (let key = (cu_str parent, attempt, cu_str (ue_url child)) in
      if key \<in> os_dedupe st then st
      else
        let st = st\<lparr>os_dedupe := insert key (os_dedupe st), os_next_id := os_next_id st + 1\<rparr>
        in st\<lparr>os_rows := os_rows st @ [\<lparr>mo_id = os_next_id st, mo_entry = child, mo_published = False\<rparr>]\<rparr>)"

fun lease_loop :: "nat \<Rightarrow> nat set \<Rightarrow> mem_outbox_row list \<Rightarrow> mem_outbox_row list \<Rightarrow> mem_outbox_row list" where
  "lease_loop mx held [] acc = acc"
| "lease_loop mx held (row # rows) acc =
     (if length acc \<ge> mx then acc
      else if mo_published row \<or> mo_id row \<in> held then lease_loop mx held rows acc
      else lease_loop mx held rows (acc @ [row]))"

definition lease_batch :: "nat \<Rightarrow> outbox_state \<Rightarrow> mem_outbox_row list \<times> outbox_state" where
  "lease_batch mx st =
     (let rows = lease_loop mx (os_leased st) (os_rows st) []
      in (rows, st\<lparr>os_leased := os_leased st \<union> mo_id ` set rows\<rparr>))"

definition finalize_lease :: "nat list \<Rightarrow> outbox_state \<Rightarrow> outbox_state" where
  "finalize_lease ids st =
     st\<lparr>os_rows := map (\<lambda>r. if mo_id r \<in> set ids then r\<lparr>mo_published := True\<rparr> else r) (os_rows st),
        os_leased := os_leased st - set ids\<rparr>"

definition release_lease :: "nat list \<Rightarrow> outbox_state \<Rightarrow> outbox_state" where
  "release_lease ids st = st\<lparr>os_leased := os_leased st - set ids\<rparr>"

subsection \<open>The store\<close>

record ledger_state =
  ls_rows :: "string \<rightharpoonup> url_metadata"
  ls_dlq :: "(string \<times> string) list"
  ls_succeeded_attempts :: "(string \<times> string) set"
  ls_succeeded_history_count :: nat
  ls_outbox :: outbox_state

definition ledger_state_default :: ledger_state where
  "ledger_state_default =
     \<lparr>ls_rows = Map.empty, ls_dlq = [], ls_succeeded_attempts = {}, ls_succeeded_history_count = 0,
      ls_outbox = \<lparr>os_rows = [], os_next_id = 0, os_dedupe = {}, os_leased = {}\<rparr>\<rparr>"

definition mem_get :: "canonical_url \<Rightarrow> ledger_state \<Rightarrow> crawl_error + url_metadata option" where
  "mem_get url st = Inr (ls_rows st (cu_str url))"

definition mem_mark_attempting ::
  "canonical_url \<Rightarrow> run_id \<Rightarrow> u32 \<Rightarrow> u64 \<Rightarrow> ledger_state \<Rightarrow> (crawl_error + unit) \<times> ledger_state" where
  "mem_mark_attempting url run depth now st =
     (Inr (), st\<lparr>ls_rows := (ls_rows st)(cu_str url \<mapsto> (case ls_rows st (cu_str url) of
        Some m \<Rightarrow> m\<lparr>um_status := InProgress, um_last_run_id := run, um_depth := depth, um_updated_at := now\<rparr>
      | None \<Rightarrow> \<lparr>um_url = url, um_status = InProgress, um_retry_count = 0, um_blob_path = None, um_content_hash = None,
                 um_depth = depth, um_last_run_id = run, um_discovered_from = None, um_discovered_at = now,
                 um_updated_at = now\<rparr>))\<rparr>)"

definition mem_mark_succeeded :: "success_record \<Rightarrow> u64 \<Rightarrow> ledger_state \<Rightarrow> (crawl_error + unit) \<times> ledger_state" where
  "mem_mark_succeeded record now st =
     (case ls_rows st (cu_str (su_url record)) of
        None \<Rightarrow> (Inl (EMetadata (''mark_succeeded: missing row for '' @ cu_str (su_url record))), st)
      | Some m \<Rightarrow>
         (let m = m\<lparr>um_status := Succeeded, um_retry_count := 0, um_blob_path := Some (su_blob_path record),
                    um_content_hash := Some (su_content_hash record), um_updated_at := now\<rparr>;
              st = st\<lparr>ls_rows := (ls_rows st)(cu_str (su_url record) \<mapsto> m)\<rparr>;
              history_key = (cu_str (su_url record), su_attempt_id record);
              st = (if history_key \<in> ls_succeeded_attempts st then st
                    else st\<lparr>ls_succeeded_attempts := insert history_key (ls_succeeded_attempts st),
                            ls_succeeded_history_count := ls_succeeded_history_count st + 1\<rparr>)
          in (Inr (), st\<lparr>ls_outbox := fold (record_outbound (su_url record) (su_attempt_id record)) (su_outbound record)
                        (ls_outbox st)\<rparr>)))"

definition mem_mark_failed ::
  "canonical_url \<Rightarrow> failure_kind \<Rightarrow> u64 \<Rightarrow> ledger_state \<Rightarrow> (crawl_error + u32) \<times> ledger_state" where
  "mem_mark_failed url kind now st =
     (case ls_rows st (cu_str url) of
        None \<Rightarrow> (Inl (EMetadata (''mark_failed: missing row for '' @ cu_str url)), st)
      | Some m \<Rightarrow>
          if um_retry_count m \<ge> U32_MAX then (Inl (EOther ''attempt to add with overflow''), st)
          else
            let m = m\<lparr>um_retry_count := um_retry_count m + 1, um_status := FailedTransient, um_updated_at := now\<rparr>
            in (Inr (um_retry_count m), st\<lparr>ls_rows := (ls_rows st)(cu_str url \<mapsto> m)\<rparr>))"

definition mem_mark_permanently_failed ::
  "canonical_url \<Rightarrow> string \<Rightarrow> u64 \<Rightarrow> ledger_state \<Rightarrow> (crawl_error + unit) \<times> ledger_state" where
  "mem_mark_permanently_failed url reason now st =
     (case ls_rows st (cu_str url) of
        None \<Rightarrow> (Inl (EMetadata (''mark_permanently_failed: missing row for '' @ cu_str url)), st)
      | Some m \<Rightarrow>
          (Inr (), st\<lparr>ls_rows := (ls_rows st)(cu_str url \<mapsto> m\<lparr>um_status := PermanentlyFailed, um_updated_at := now\<rparr>),
                      ls_dlq := ls_dlq st @ [(cu_str url, reason)]\<rparr>))"

definition mem_mark_discovered_skipped ::
  "canonical_url \<Rightarrow> run_id \<Rightarrow> u32 \<Rightarrow> canonical_url option \<Rightarrow> skip_reason \<Rightarrow> u64 \<Rightarrow> ledger_state \<Rightarrow>
   (crawl_error + unit) \<times> ledger_state" where
  "mem_mark_discovered_skipped url run depth discovered_from reason now st =
     (Inr (), case ls_rows st (cu_str url) of Some _ \<Rightarrow> st
      | None \<Rightarrow> st\<lparr>ls_rows := (ls_rows st)(cu_str url \<mapsto>
           \<lparr>um_url = url, um_status = Skipped, um_retry_count = 0, um_blob_path = None, um_content_hash = None,
            um_depth = depth, um_last_run_id = run, um_discovered_from = discovered_from, um_discovered_at = now,
            um_updated_at = now\<rparr>)\<rparr>)"

text \<open>Leasing and finishing are two critical sections with the shipping in between; \<open>ship\<close> runs on
  the whole state, which other publishers may have moved on.\<close>

definition mem_publish_lease :: "nat \<Rightarrow> ledger_state \<Rightarrow> mem_outbox_row list \<times> ledger_state" where
  "mem_publish_lease mx st =
     (let (rows, os) = lease_batch mx (ls_outbox st) in (rows, st\<lparr>ls_outbox := os\<rparr>))"

definition mem_publish_finish ::
  "mem_outbox_row list \<Rightarrow> crawl_error + unit \<Rightarrow> ledger_state \<Rightarrow> (crawl_error + nat) \<times> ledger_state" where
  "mem_publish_finish rows ship_result st =
     (case ship_result of
        Inr _ \<Rightarrow> (Inr (length rows), st\<lparr>ls_outbox := finalize_lease (map mo_id rows) (ls_outbox st)\<rparr>)
      | Inl e \<Rightarrow> (Inl e, st\<lparr>ls_outbox := release_lease (map mo_id rows) (ls_outbox st)\<rparr>))"

definition mem_publish ::
  "nat \<Rightarrow> (url_entry list \<Rightarrow> ledger_state \<Rightarrow> (crawl_error + unit) \<times> ledger_state) \<Rightarrow> ledger_state \<Rightarrow>
   (crawl_error + nat) \<times> ledger_state" where
  "mem_publish mx ship st =
     (let (rows, st) = mem_publish_lease mx st in
      if rows = [] then (Inr 0, st)
      else let (res, st) = ship (map mo_entry rows) st in mem_publish_finish rows res st)"

subsection \<open>The store implements the ledger\<close>

definition entry_of_metadata :: "url_metadata \<Rightarrow> ledger_entry" where
  "entry_of_metadata m =
     \<lparr>le_status = um_status m, le_retry_count = um_retry_count m, le_blob_path = um_blob_path m,
      le_content_hash = um_content_hash m, le_depth = um_depth m, le_last_run_id = um_last_run_id m,
      le_discovered_from = map_option cu_str (um_discovered_from m), le_discovered_at = um_discovered_at m,
      le_updated_at = um_updated_at m\<rparr>"

definition mem_view :: "ledger_state \<Rightarrow> ledger" where
  "mem_view st u = map_option entry_of_metadata (ls_rows st u)"

fun mem_perform :: "ledger_call \<Rightarrow> u64 \<Rightarrow> unit \<Rightarrow> ledger_state \<Rightarrow> (crawl_error + nat) \<times> ledger_state" where
  "mem_perform (CallAttempting url run depth) now _ st = apfst (map_sum id (\<lambda>_. 0)) (mem_mark_attempting url run depth now st)"
| "mem_perform (CallSucceeded r) now _ st = apfst (map_sum id (\<lambda>_. 0)) (mem_mark_succeeded r now st)"
| "mem_perform (CallFailed url kind) now _ st = mem_mark_failed url kind now st"
| "mem_perform (CallGiveUp url reason) now _ st = apfst (map_sum id (\<lambda>_. 0)) (mem_mark_permanently_failed url reason now st)"
| "mem_perform (CallSkipped url run depth from reason) now _ st =
     apfst (map_sum id (\<lambda>_. 0)) (mem_mark_discovered_skipped url run depth from reason now st)"

lemma mem_perform_spec:
  assumes "mem_perform c now e st = (r, st')"
  shows "(isl r \<and> st' = st) \<or> (\<exists>n. r = Inr n \<and> mem_view st' = led_apply c now (mem_view st) \<and>
     (needs_row c \<longrightarrow> mem_view st (call_url c) \<noteq> None) \<and>
     (counts_failure c \<longrightarrow> map_option le_retry_count (mem_view st' (call_url c)) = Some n))"
proof (cases c)
  case (CallAttempting url run depth)
  then show ?thesis
    using assms by (auto simp: mem_mark_attempting_def mem_view_def fun_eq_iff entry_of_metadata_def new_entry_def split: option.splits)
next
  case (CallSucceeded s)
  then show ?thesis
    using assms by (auto simp: mem_mark_succeeded_def mem_view_def fun_eq_iff entry_of_metadata_def Let_def split: option.splits)
next
  case (CallFailed url kind)
  then show ?thesis
    using assms by (auto simp: mem_mark_failed_def mem_view_def fun_eq_iff entry_of_metadata_def Let_def split: option.splits if_splits)
next
  case (CallGiveUp url reason)
  then show ?thesis
    using assms by (auto simp: mem_mark_permanently_failed_def mem_view_def fun_eq_iff entry_of_metadata_def split: option.splits)
next
  case (CallSkipped url run depth src reason)
  then show ?thesis
    using assms by (auto simp: mem_mark_discovered_skipped_def mem_view_def fun_eq_iff entry_of_metadata_def new_entry_def split: option.splits)
qed

interpretation mem: metadata_ledger mem_perform mem_view "\<lambda>_. True"
  by unfold_locales (use mem_perform_spec in fastforce)+

subsection \<open>What the tests read\<close>

definition dlq_count :: "ledger_state \<Rightarrow> nat" where
  "dlq_count st = length (ls_dlq st)"

definition succeeded_history_count :: "ledger_state \<Rightarrow> nat" where
  "succeeded_history_count st = ls_succeeded_history_count st"

definition outbox_row_count :: "ledger_state \<Rightarrow> nat" where
  "outbox_row_count st = length (os_rows (ls_outbox st))"

definition unpublished_outbox_count :: "ledger_state \<Rightarrow> nat" where
  "unpublished_outbox_count st =
     length (filter (\<lambda>r. \<not> mo_published r \<and> mo_id r \<notin> os_leased (ls_outbox st)) (os_rows (ls_outbox st)))"

subsection \<open>Leases of concurrent publishers\<close>

lemma lease_loop_spec:
  "lease_loop mx held rows acc =
   (if length acc \<ge> mx then acc
    else acc @ take (mx - length acc) (filter (\<lambda>r. \<not> mo_published r \<and> mo_id r \<notin> held) rows))"
  by (induction mx held rows acc rule: lease_loop.induct) (auto simp: take_Cons' split: if_splits)

lemma lease_batch_rows:
  "lease_batch mx st = (rows, st') \<Longrightarrow>
   rows = take mx (filter (\<lambda>r. \<not> mo_published r \<and> mo_id r \<notin> os_leased st) (os_rows st)) \<and>
   st' = st\<lparr>os_leased := os_leased st \<union> mo_id ` set rows\<rparr>"
  by (auto simp: lease_batch_def lease_loop_spec Let_def)

lemma lease_rowsD:
  "lease_batch mx st = (rows, st') \<Longrightarrow> r \<in> set rows \<Longrightarrow> \<not> mo_published r \<and> mo_id r \<notin> os_leased st"
  by (drule lease_batch_rows) (auto dest: in_set_takeD)

lemma leases_disjoint:
  assumes "lease_batch m st = (rows, st1)" "lease_batch n st1 = (rows', st2)" "r \<in> set rows" "r' \<in> set rows'"
  shows "mo_id r \<noteq> mo_id r'"
proof
  assume "mo_id r = mo_id r'"
  then have "mo_id r' \<in> mo_id ` set rows" using imageI [OF assms(3), of mo_id] by argo
  moreover have "os_leased st1 = os_leased st \<union> mo_id ` set rows" using lease_batch_rows [OF assms(1)] by simp
  ultimately show False using lease_rowsD [OF assms(2,4)] by simp
qed

text \<open>Giving a lease back leaves the outbox as it was.\<close>

lemma release_undoes_lease:
  assumes "lease_batch m st = (rows, st1)"
  shows "release_lease (map mo_id rows) st1 = st"
proof -
  have "os_leased st \<inter> mo_id ` set rows = {}" using lease_rowsD [OF assms] by auto
  then have "os_leased st \<union> mo_id ` set rows - mo_id ` set rows = os_leased st" by blast
  moreover have "st1 = st\<lparr>os_leased := os_leased st \<union> mo_id ` set rows\<rparr>" using lease_batch_rows [OF assms] by blast
  ultimately show ?thesis by (simp add: release_lease_def)
qed

subsection \<open>Agreement with the Postgres store\<close>

lemma mem_calm_reply:
  assumes "retry_room U32_MAX c (mem_view st)"
  shows "reply_of (fst (mem_perform c now () st)) = led_reply c (mem_view st)"
proof (cases c)
  case (CallFailed url kind)
  show ?thesis
  proof (cases "ls_rows st (cu_str url)")
    case (Some m)
    then have "mem_view st (cu_str url) = Some (entry_of_metadata m)" by (simp add: mem_view_def)
    then have "le_retry_count (entry_of_metadata m) < U32_MAX" using assms CallFailed by (simp add: retry_room_def)
    then have "um_retry_count m < U32_MAX" by (simp add: entry_of_metadata_def)
    then show ?thesis using CallFailed Some by (simp add: mem_mark_failed_def led_reply_def mem_view_def entry_of_metadata_def Let_def)
  qed (simp add: CallFailed mem_mark_failed_def led_reply_def mem_view_def)
qed (auto simp: mem_mark_attempting_def mem_mark_succeeded_def mem_mark_permanently_failed_def mem_mark_discovered_skipped_def
    led_reply_def mem_view_def Let_def split: option.splits)

interpretation mem: calm_ledger mem_perform mem_view "\<lambda>_. True" "()" U32_MAX
  by unfold_locales (simp add: mem_calm_reply)

text \<open>C15: the in-memory store the tests run on answers as the Postgres store does. Any sequence of
  fewer than \<open>2 ^ 31 - 1\<close> ledger calls on two empty stores, the Postgres one meeting no fault, gets
  the same answers from both, call by call (the same retry count, or an error from both), and
  leaves the same ledger.\<close>

theorem fake_matches_postgres:
  assumes "\<forall>(c, now) \<in> set calls. call_ok c" "length calls < 2 ^ 31 - 1"
    and "performs pg_perform (map (\<lambda>(c, now). (c, now, TxOk)) calls) empty_pg = (rs, db)"
    and "performs mem_perform (map (\<lambda>(c, now). (c, now, ())) calls) ledger_state_default = (rs', st)"
  shows "map reply_of rs = map reply_of rs' \<and> pg_view db = mem_view st"
proof -
  have e: "pg_view empty_pg = Map.empty" "mem_view ledger_state_default = Map.empty"
    by (auto simp: pg_view_def mem_view_def empty_pg_def ledger_state_default_def find_url_def)
  have k: "retries_below 1 Map.empty" by (simp add: retries_below_def)
  have n: "1 + length calls \<le> 2 ^ 31 - 1" "1 + length calls \<le> U32_MAX" using assms(2) by simp_all
  have "led_run calls Map.empty = (map reply_of rs, pg_view db)"
    using pg.calm_run [OF empty_pg_ok assms(1) _ _ n(1) assms(3)] k unfolding e by simp
  moreover have "led_run calls Map.empty = (map reply_of rs', mem_view st)"
    using mem.calm_run [OF _ assms(1) _ _ n(2) assms(4)] k unfolding e by simp
  ultimately show ?thesis by simp
qed

definition fake_calls :: "(ledger_call \<times> u64) list" where
  "fake_calls = [(CallFailed page_url FkTimeout, 4), (CallAttempting page_url ''r'' 0, 5), (CallFailed page_url FkTimeout, 6)]"

theorem fake_matches_postgres_witness:
  "map reply_of (fst (performs mem_perform (map (\<lambda>(c, now). (c, now, ())) fake_calls) ledger_state_default)) = [None, Some 0, Some 1] \<and>
   map reply_of (fst (performs pg_perform (map (\<lambda>(c, now). (c, now, TxOk)) fake_calls) empty_pg)) = [None, Some 0, Some 1]"
proof -
  have "\<forall>(c, now) \<in> set fake_calls. call_ok c" "length fake_calls < 2 ^ 31 - 1" by (simp_all add: fake_calls_def)
  from fake_matches_postgres [OF this surjective_pairing surjective_pairing]
  have "map reply_of (fst (performs pg_perform (map (\<lambda>(c, now). (c, now, TxOk)) fake_calls) empty_pg)) =
      map reply_of (fst (performs mem_perform (map (\<lambda>(c, now). (c, now, ())) fake_calls) ledger_state_default))" by simp
  moreover have "map reply_of (fst (performs mem_perform (map (\<lambda>(c, now). (c, now, ())) fake_calls) ledger_state_default)) =
      [None, Some 0, Some 1]"
    by (simp add: fake_calls_def ledger_state_default_def mem_mark_failed_def mem_mark_attempting_def page_url_def)
  ultimately show ?thesis by simp
qed


end
