(* ===== verification/Outbox_Relay.thy ===== *)
theory Outbox_Relay
  imports Redis_Frontier Postgres_Ledger
begin

text \<open>
  \<^verbatim>\<open>crawlrs-runtime/src/outbox.rs\<close>: the publisher that drains the outbox of the Postgres store into
  the Redis frontier. A round carries what its calls meet: clocks, faults, and the rows other
  publishers hold. The loop is a function of the rounds it goes through before shutdown is seen,
  and ends with the final drain.
\<close>

definition DEFAULT_BATCH_SIZE :: nat where "DEFAULT_BATCH_SIZE = 256"
definition DEFAULT_PUBLISH_INTERVAL :: duration where "DEFAULT_PUBLISH_INTERVAL = 250 * 1000000"

text \<open>\<open>ry_order\<close> is the iteration order of the shard map, \<open>ry_skip_fault\<close> what recording the skip of a
  URL meets, \<open>ry_interrupted\<close> that shutdown came while the loop slept after the round, \<open>ry_hq_text\<close> the
  text of a Redis error.\<close>

record relay_round =
  ry_now :: u64
  ry_now_ms :: int
  ry_order :: "u32 list \<Rightarrow> u32 list"
  ry_submit_fault :: "u32 \<Rightarrow> fault"
  ry_skip_fault :: "string \<Rightarrow> tx_fault"
  ry_locked :: "nat \<Rightarrow> bool"
  ry_select_error :: "string option"
  ry_commit_fault :: tx_fault
  ry_interrupted :: bool
  ry_hq_text :: "hq_error \<Rightarrow> string"

text \<open>A failure to record a skip is logged and passed over.\<close>

fun skip_rejected :: "run_id \<Rightarrow> relay_round \<Rightarrow> url_entry list \<Rightarrow> pg_db \<Rightarrow> pg_db" where
  "skip_rejected run R [] db = db"
| "skip_rejected run R (rejected # es) db =
     skip_rejected run R es
       (snd (pg_mark_discovered_skipped (ue_url rejected) run (ue_depth rejected) (ue_discovered_from rejected) SkipMaxUrls
          (ry_now R) (ry_skip_fault R (cu_str (ue_url rejected))) db))"

definition relay_ship ::
  "'r redis_frontier \<Rightarrow> run_id \<Rightarrow> relay_round \<Rightarrow> outbox_entry list \<Rightarrow> pg_db \<times> 'r \<Rightarrow> (crawl_error + unit) \<times> pg_db \<times> 'r" where
  "relay_ship F run R entries st =
     (case rf_submit_batch F (ry_order R) (map oe_entry entries) (ry_now_ms R) (ry_submit_fault R) (snd st) of
        (Inl e, f) \<Rightarrow> (Inl (rf_to_error (ry_hq_text R) e), fst st, f)
      | (Inr outcome, f) \<Rightarrow> (Inr (), skip_rejected run R (sb_rejected_urls outcome) (fst st), f))"

definition publish_one_batch ::
  "'u url_ops \<Rightarrow> 'r redis_frontier \<Rightarrow> run_id \<Rightarrow> nat \<Rightarrow> relay_round \<Rightarrow> pg_db \<times> 'r \<Rightarrow> nat \<times> pg_db \<times> 'r" where
  "publish_one_batch U F run batch_size R st =
     (case pg_publish U batch_size (relay_ship F run R) (ry_locked R) (ry_now R) (ry_select_error R) (ry_commit_fault R) st of
        (Inr n, st) \<Rightarrow> (n, st)
      | (Inl e, st) \<Rightarrow> (0, st))"

fun publisher_loop ::
  "'u url_ops \<Rightarrow> 'r redis_frontier \<Rightarrow> run_id \<Rightarrow> relay_round list \<Rightarrow> pg_db \<times> 'r \<Rightarrow> pg_db \<times> 'r" where
  "publisher_loop U F run [] st = st"
| "publisher_loop U F run (R # rounds) st =
     (case publish_one_batch U F run DEFAULT_BATCH_SIZE R st of
        (progressed, st) \<Rightarrow>
          if progressed \<ge> DEFAULT_BATCH_SIZE then publisher_loop U F run rounds st
          else if ry_interrupted R then st
          else publisher_loop U F run rounds st)"

definition outbox_publisher ::
  "'u url_ops \<Rightarrow> 'r redis_frontier \<Rightarrow> run_id \<Rightarrow> relay_round list \<Rightarrow> relay_round \<Rightarrow> pg_db \<times> 'r \<Rightarrow> pg_db \<times> 'r" where
  "outbox_publisher U F run rounds final st =
     snd (publish_one_batch U F run DEFAULT_BATCH_SIZE final (publisher_loop U F run rounds st))"

subsection \<open>A batch that goes through\<close>

definition unpublished :: "pg_db \<Rightarrow> outbox_row list" where
  "unpublished db = filter (\<lambda>r. ob_published_at r = None) (pg_outbox db)"

text \<open>A row that parses, whose URL has a host and a shard of this instance, and that encodes.\<close>

definition shippable :: "'u url_ops \<Rightarrow> 'r redis_frontier \<Rightarrow> outbox_row \<Rightarrow> bool" where
  "shippable U F x =
     (case outbox_entry_of U x of Inl _ \<Rightarrow> False
      | Inr e \<Rightarrow> \<not> isl (rf_shard_of F (oe_entry e)) \<and> \<not> isl (codec_encode (hq_codec (rf_ops F)) (oe_entry e)) \<and>
          url_id_ok (from_canonical (rf_blake3 F) (ue_url (oe_entry e))))"

definition calm_round :: "relay_round \<Rightarrow> bool" where
  "calm_round R \<longleftrightarrow> ry_submit_fault R = (\<lambda>_. NoFault) \<and> ry_locked R = (\<lambda>_. False) \<and> ry_select_error R = None \<and>
     ry_commit_fault R = TxOk"

lemma skip_rejected_outbox [simp]: "pg_outbox (skip_rejected run R es db) = pg_outbox db"
proof (induction es arbitrary: db)
  case (Cons e es)
  have "pg_outbox (snd (pg_mark_discovered_skipped u r d from SkipMaxUrls now flt db)) = pg_outbox db" for u r d "from" now flt
    by (cases flt) (auto simp: pg_mark_discovered_skipped_def insert_url_def split: option.splits)
  then show ?case using Cons by simp
qed simp

lemma mapM_result_ok: "\<forall>x \<in> set xs. \<not> isl (f x) \<Longrightarrow> \<exists>ys. mapM_result f xs = Inr ys"
proof (induction xs)
  case (Cons x xs)
  then obtain ys where "mapM_result f xs = Inr ys" by auto
  moreover obtain y where "f x = Inr y" using Cons.prems by (cases "f x") auto
  ultimately show ?case by simp
qed simp

lemma batch_loop_ok:
  assumes "live_host_queue (rf_ops F)"
    and "\<forall>l \<in> set ls. \<not> isl (codec_encode (hq_codec (rf_ops F)) (lo_entry l)) \<and> url_id_ok (lo_id l)"
  shows "\<exists>out db'. rf_batch_loop F ls now (\<lambda>_. NoFault) shards tot db = (Inr out, db')"
proof (induction shards arbitrary: tot db)
  case (Cons s shards)
  let ?items = "map (rf_item F) (filter (\<lambda>l. lo_shard l = s) ls)"
  have "\<exists>q ids. fst (hq_submit_batch (rf_ops F) s ?items now NoFault db) = Inr (q, ids)"
  proof (cases "?items = []")
    case False
    have "\<exists>ps. hq_payloads (rf_ops F) ?items = Inr ps"
      unfolding hq_payloads_def by (rule mapM_result_ok) (use assms(2) in \<open>auto simp: rf_item_def\<close>)
    then obtain ps where ps: "hq_payloads (rf_ops F) ?items = Inr ps" by blast
    have ids: "\<forall>x \<in> set ?items. url_id_ok (hi_url_id x)" using assms(2) by (auto simp: rf_item_def)
    show ?thesis using live_host_queue.submit_batch_reply [OF assms(1) False ps ids] by blast
  qed (simp add: hq_submit_batch_def)
  then obtain q ids db1 where "hq_submit_batch (rf_ops F) s ?items now NoFault db = (Inr (q, ids), db1)" by (metis prod.collapse)
  then show ?case using Cons.IH by (simp add: Let_def)
qed simp

lemma submit_batch_ok:
  assumes "live_host_queue (rf_ops F)"
    and "\<forall>e \<in> set es. \<not> isl (rf_shard_of F e) \<and> \<not> isl (codec_encode (hq_codec (rf_ops F)) e) \<and>
      url_id_ok (from_canonical (rf_blake3 F) (ue_url e))"
  shows "\<exists>out db'. rf_submit_batch F ord es now (\<lambda>_. NoFault) db = (Inr out, db')"
proof -
  have loc: "lo_entry l = e \<and> lo_id l = from_canonical (rf_blake3 F) (ue_url e)" if "rf_locate F e = Inr l" for e l
    using that by (auto simp: rf_locate_def rf_shard_of_def Let_def split: sum.splits if_splits option.splits)
  have "\<exists>ls. mapM_result (rf_locate F) es = Inr ls"
    by (rule mapM_result_ok) (use assms(2) in \<open>auto simp: rf_locate_def split: sum.splits\<close>)
  then obtain ls where ls: "mapM_result (rf_locate F) es = Inr ls" by blast
  then have "list_all2 (\<lambda>e l. rf_locate F e = Inr l) es ls" by (simp add: mapM_result_Inr_iff)
  then have "\<forall>l \<in> set ls. \<not> isl (codec_encode (hq_codec (rf_ops F)) (lo_entry l)) \<and> url_id_ok (lo_id l)"
    using assms(2) by (induction rule: list_all2_induct) (auto dest: loc)
  from batch_loop_ok [OF assms(1) this] ls show ?thesis by (simp add: rf_submit_batch_def)
qed

subsection \<open>Draining\<close>

lemma leasable_sub:
  "length (filter (\<lambda>r. Q r) (leasable (\<lambda>_. False) mx db)) \<le> length (filter (\<lambda>r. ob_published_at r = None \<and> Q r) (pg_outbox db))"
proof -
  have "mset (leasable (\<lambda>_. False) mx db) \<subseteq># filter_mset (\<lambda>r. ob_published_at r = None) (mset (pg_outbox db))"
  proof -
    have "mset (take k xs) \<subseteq># mset xs" for k and xs :: "outbox_row list"
      by (metis append_take_drop_id mset_append mset_subset_eq_add_left)
    from this [of mx "filter (\<lambda>r. ob_published_at r = None) (sort_key ob_id (pg_outbox db))"]
    show ?thesis by (simp add: leasable_def)
  qed
  then have "filter_mset Q (mset (leasable (\<lambda>_. False) mx db)) \<subseteq>#
      filter_mset Q (filter_mset (\<lambda>r. ob_published_at r = None) (mset (pg_outbox db)))"
    by (rule multiset_filter_mono)
  from size_mset_mono [OF this] show ?thesis
    by (simp add: filter_filter_mset conj_commute flip: mset_filter)
qed

lemma leasable_length: "length (leasable (\<lambda>_. False) mx db) = min mx (length (unpublished db))"
proof -
  have "length (filter P (sort_key ob_id xs)) = length (filter P xs)" for P and xs :: "outbox_row list"
    by (metis mset_filter mset_sort size_mset)
  then show ?thesis unfolding leasable_def unpublished_def by (simp add: min.commute)
qed

lemma unpublished_mark:
  assumes "pg_outbox db1 = pg_outbox db" "rows = leasable (\<lambda>_. False) mx db"
  shows "length (unpublished (mark_published (map ob_id rows) now db1)) \<le> length (unpublished db) - min mx (length (unpublished db))"
proof -
  let ?in = "\<lambda>r. ob_id r \<in> ob_id ` set rows" and ?un = "\<lambda>r. ob_published_at r = None"
  have "length (filter ?un (map (\<lambda>r. if ?in r then r\<lparr>ob_published_at := Some now\<rparr> else r) xs)) =
      length (filter (\<lambda>r. ?un r \<and> \<not> ?in r) xs)" for xs
    by (induction xs) auto
  then have l: "length (unpublished (mark_published (map ob_id rows) now db1)) = length (filter (\<lambda>r. ?un r \<and> \<not> ?in r) (pg_outbox db))"
    using assms(1) by (simp add: unpublished_def mark_published_def)
  have "length (filter ?un xs) = length (filter (\<lambda>r. ?un r \<and> ?in r) xs) + length (filter (\<lambda>r. ?un r \<and> \<not> ?in r) xs)" for xs
    by (induction xs) auto
  from this [of "pg_outbox db"] have u: "length (unpublished db) =
      length (filter (\<lambda>r. ?un r \<and> ?in r) (pg_outbox db)) + length (filter (\<lambda>r. ?un r \<and> \<not> ?in r) (pg_outbox db))"
    by (simp add: unpublished_def)
  have "filter ?in rows = rows" by (simp add: filter_id_conv)
  then have "min mx (length (unpublished db)) \<le> length (filter (\<lambda>r. ?un r \<and> ?in r) (pg_outbox db))"
    using leasable_sub [of ?in mx db] leasable_length [of mx db] assms(2) by simp
  then show ?thesis using l u by linarith
qed

lemma shippable_mark: "shippable U F (r\<lparr>ob_published_at := t\<rparr>) = shippable U F r"
proof -
  have "outbox_entry_of U (r\<lparr>ob_published_at := t\<rparr>) = outbox_entry_of U r"
    by (simp add: outbox_entry_of_def split: sum.split option.split)
  then show ?thesis by (simp add: shippable_def)
qed

lemma calm_publish:
  assumes "live_host_queue (rf_ops F)" "calm_round R" "\<forall>x \<in> set (pg_outbox db). shippable U F x"
    and "publish_one_batch U F run mx R (db, f) = (n, db', f')"
  shows "n = min mx (length (unpublished db)) \<and> length (unpublished db') \<le> length (unpublished db) - n \<and>
     (\<forall>x \<in> set (pg_outbox db'). shippable U F x)"
proof -
  let ?rows = "leasable (\<lambda>_. False) mx db"
  note calm = assms(2) [unfolded calm_round_def]
  have sub: "set ?rows \<subseteq> set (pg_outbox db)" by (auto simp: leasable_def dest: in_set_takeD)
  have "\<exists>es. mapM_result (outbox_entry_of U) ?rows = Inr es"
  proof (rule mapM_result_ok, rule ballI)
    fix x
    assume "x \<in> set ?rows"
    then have "shippable U F x" using assms(3) sub by auto
    then show "\<not> isl (outbox_entry_of U x)" by (auto simp: shippable_def split: sum.splits)
  qed
  then obtain es where es: "mapM_result (outbox_entry_of U) ?rows = Inr es" by blast
  then have l2: "list_all2 (\<lambda>x e. outbox_entry_of U x = Inr e) ?rows es" by (simp add: mapM_result_Inr_iff)
  have len: "length es = length ?rows" using mapM_result_Inr_length [OF es] by simp
  show ?thesis
  proof (cases "?rows = []")
    case True
    then have "min mx (length (unpublished db)) = 0" using leasable_length [of mx db] by simp
    then show ?thesis using True assms(3,4) calm by (simp add: publish_one_batch_def pg_publish_def)
  next
    case False
    have "\<forall>x \<in> set ?rows. shippable U F x" using assms(3) sub by auto
    with l2 have "\<forall>e \<in> set (map oe_entry es). \<not> isl (rf_shard_of F e) \<and> \<not> isl (codec_encode (hq_codec (rf_ops F)) e) \<and>
        url_id_ok (from_canonical (rf_blake3 F) (ue_url e))"
      by (induction rule: list_all2_induct) (auto simp: shippable_def)
    from submit_batch_ok [OF assms(1) this] obtain out g
      where s: "rf_submit_batch F (ry_order R) (map oe_entry es) (ry_now_ms R) (ry_submit_fault R) f = (Inr out, g)"
      using calm by metis
    have eq: "n = length es" "db' = mark_published (map ob_id ?rows) (ry_now R) (skip_rejected run R (sb_rejected_urls out) db)"
      using assms(4) calm False es s by (auto simp: publish_one_batch_def pg_publish_def relay_ship_def Let_def)
    have "\<forall>x \<in> set (pg_outbox db'). shippable U F x"
      using assms(3) unfolding eq(2) by (auto simp: mark_published_def shippable_mark)
    then show ?thesis
      using unpublished_mark [of "skip_rejected run R (sb_rejected_urls out) db" db ?rows mx "ry_now R"] eq len
        leasable_length [of mx db] by simp
  qed
qed

lemma calm_loop:
  assumes "live_host_queue (rf_ops F)" "\<forall>R \<in> set rounds. calm_round R \<and> \<not> ry_interrupted R"
    and "\<forall>x \<in> set (pg_outbox db). shippable U F x" "publisher_loop U F run rounds (db, f) = (db', f')"
  shows "length (unpublished db') \<le> length (unpublished db) - length rounds * DEFAULT_BATCH_SIZE \<and>
     (\<forall>x \<in> set (pg_outbox db'). shippable U F x)"
  using assms(2-4)
proof (induction rounds arbitrary: db f)
  case (Cons R rounds)
  obtain n db1 f1 where p: "publish_one_batch U F run DEFAULT_BATCH_SIZE R (db, f) = (n, db1, f1)" by (metis prod.exhaust)
  have R: "calm_round R" using Cons.prems(1) by simp
  note step = calm_publish [OF assms(1) R Cons.prems(2) p]
  have "publisher_loop U F run rounds (db1, f1) = (db', f')" using Cons.prems p by (simp split: if_splits)
  then have "length (unpublished db') \<le> length (unpublished db1) - length rounds * DEFAULT_BATCH_SIZE \<and>
     (\<forall>x \<in> set (pg_outbox db'). shippable U F x)" using Cons.IH [of db1 f1] Cons.prems(1) step by auto
  moreover have "length (unpublished db1) \<le> length (unpublished db) - DEFAULT_BATCH_SIZE" using step by linarith
  ultimately show ?case by (simp add: diff_diff_add) linarith
qed simp

subsection \<open>Properties\<close>

text \<open>C14: the publisher drains the outbox. When every row can be shipped, that is, parses, encodes, has
  a host and belongs to a shard of this instance, and no call fails, then the rounds before shutdown
  and the final drain publish \<open>DEFAULT_BATCH_SIZE\<close> rows each until no row is left unpublished.\<close>

theorem relay_drains:
  assumes "live_host_queue (rf_ops F)" "\<forall>x \<in> set (pg_outbox db). shippable U F x"
    and "\<forall>R \<in> set rounds. calm_round R \<and> \<not> ry_interrupted R" "calm_round final"
    and "length (unpublished db) \<le> (length rounds + 1) * DEFAULT_BATCH_SIZE"
    and "outbox_publisher U F run rounds final (db, f) = (db', f')"
  shows "\<forall>x \<in> set (pg_outbox db'). ob_published_at x \<noteq> None"
proof -
  obtain db1 f1 where l: "publisher_loop U F run rounds (db, f) = (db1, f1)" by (metis prod.exhaust)
  obtain n where p: "publish_one_batch U F run DEFAULT_BATCH_SIZE final (db1, f1) = (n, db', f')"
    using assms(6) l by (cases "publish_one_batch U F run DEFAULT_BATCH_SIZE final (db1, f1)") (simp add: outbox_publisher_def)
  note loop = calm_loop [OF assms(1,3,2) l]
  have "length (unpublished db') \<le> length (unpublished db1) - min DEFAULT_BATCH_SIZE (length (unpublished db1))"
    using calm_publish [OF assms(1,4) _ p] loop by auto
  also have "\<dots> = 0"
  proof -
    have "length (unpublished db1) \<le> DEFAULT_BATCH_SIZE" using conjunct1 [OF loop] assms(5) by (simp add: algebra_simps)
    then show ?thesis by simp
  qed
  finally show ?thesis by (auto simp: unpublished_def filter_empty_conv)
qed

lemma blocked_publish:
  assumes "x \<in> set (leasable (\<lambda>_. False) mx db)" "outbox_entry_of U x = Inr e" "rf_shard_of F (oe_entry e) = Inl err"
    and "ry_locked R = (\<lambda>_. False)"
  shows "publish_one_batch U F run mx R (db, f) = (0, db, f)"
proof (cases "mapM_result (outbox_entry_of U) (leasable (\<lambda>_. False) mx db)")
  case (Inr es)
  then have "list_all2 (\<lambda>x e. outbox_entry_of U x = Inr e) (leasable (\<lambda>_. False) mx db) es" by (simp add: mapM_result_Inr_iff)
  then have e: "e \<in> set es" using assms(1,2) by (induction rule: list_all2_induct) auto
  have "\<exists>y. mapM_result (rf_locate F) (map oe_entry es) = Inl y"
  proof (cases "mapM_result (rf_locate F) (map oe_entry es)")
    case (Inr ls)
    then have "list_all2 (\<lambda>e l. rf_locate F (oe_entry e) = Inr l) es ls" by (simp add: mapM_result_Inr_iff list_all2_map1)
    then have "\<exists>l. rf_locate F (oe_entry e) = Inr l" using e by (induction rule: list_all2_induct) auto
    then show ?thesis using assms(3) by (simp add: rf_locate_def)
  qed auto
  then have "relay_ship F run R es (db, f) = (Inl (rf_to_error (ry_hq_text R) y), db, f)"
    if "mapM_result (rf_locate F) (map oe_entry es) = Inl y" for y
    using that e by (auto simp: relay_ship_def rf_submit_batch_def)
  moreover obtain y where "mapM_result (rf_locate F) (map oe_entry es) = Inl y" using \<open>\<exists>y. _\<close> by blast
  ultimately show ?thesis using Inr assms(1,4) by (auto simp: publish_one_batch_def pg_publish_def Let_def)
qed (use assms in \<open>auto simp: publish_one_batch_def pg_publish_def Let_def\<close>)


lemma blocked_loop:
  assumes "x \<in> set (leasable (\<lambda>_. False) DEFAULT_BATCH_SIZE db)" "outbox_entry_of U x = Inr e" "rf_shard_of F (oe_entry e) = Inl err"
    and "\<forall>R \<in> set rounds. ry_locked R = (\<lambda>_. False)"
  shows "publisher_loop U F run rounds (db, f) = (db, f)"
  using assms(4) by (induction rounds) (simp_all add: blocked_publish [OF assms(1-3)])

text \<open>C17: one foreign link blocks the outbox. While a row at its head, among the first
  \<open>DEFAULT_BATCH_SIZE\<close> unpublished ones, names a URL without a host or of a shard that another
  instance owns, no round of the publisher changes anything, neither the outbox nor the frontier,
  whatever its calls meet: no row behind it or before it is ever published.\<close>

theorem foreign_link_blocks_outbox:
  assumes "x \<in> set (leasable (\<lambda>_. False) DEFAULT_BATCH_SIZE db)" "outbox_entry_of U x = Inr e" "rf_shard_of F (oe_entry e) = Inl err"
    and "\<forall>R \<in> set (final # rounds). ry_locked R = (\<lambda>_. False)"
  shows "outbox_publisher U F run rounds final (db, f) = (db, f)"
  using assms(4) by (simp add: outbox_publisher_def blocked_loop [OF assms(1-3)] blocked_publish [OF assms(1-3)])


definition quiet_round :: relay_round where
  "quiet_round = \<lparr>ry_now = 8, ry_now_ms = 8, ry_order = (\<lambda>ks. ks), ry_submit_fault = (\<lambda>_. NoFault), ry_skip_fault = (\<lambda>_. TxOk),
     ry_locked = (\<lambda>_. False), ry_select_error = None, ry_commit_fault = TxOk, ry_interrupted = False, ry_hq_text = (\<lambda>_. [])\<rparr>"

lemma done_row:
  obtains x where "pg_outbox done_db = [x]" "ob_published_at x = None"
    "\<exists>e. outbox_entry_of ref_url_ops x = Inr e \<and> cu_host (ue_url (oe_entry e)) = Some ''a''"
proof -
  have p: "case parse_canonical ref_url_ops ''http://a/'' of Inr u \<Rightarrow> cu_host u = Some ''a'' | Inl _ \<Rightarrow> False" by code_simp
  then obtain u where u: "parse_canonical ref_url_ops ''http://a/'' = Inr u" "cu_host u = Some ''a''" by (auto split: sum.splits)
  obtain x where x: "pg_outbox done_db = [x]" "ob_id x = 0" "ob_url x = ''http://a/''" "ob_published_at x = None" "ob_discovered_from x = None"
    using page_db_eval(2-5) by (auto simp: map_eq_Cons_conv)
  then have "\<exists>e. outbox_entry_of ref_url_ops x = Inr e \<and> cu_host (ue_url (oe_entry e)) = Some ''a''"
    using u by (simp add: outbox_entry_of_def)
  then show thesis using that x by blast
qed

theorem relay_drains_witness:
  "unpublished (fst (outbox_publisher ref_url_ops demo_frontier ''r'' [] quiet_round (done_db, empty_mem))) = []"
proof -
  obtain x e where x: "pg_outbox done_db = [x]" "ob_published_at x = None" "outbox_entry_of ref_url_ops x = Inr e"
      "cu_host (ue_url (oe_entry e)) = Some ''a''" using done_row by metis
  have s: "\<forall>x \<in> set (pg_outbox done_db). shippable ref_url_ops demo_frontier x"
    using x by (simp add: shippable_def rf_shard_of_def from_canonical_def url_id_ok_def codec_encode_def ref_codec_def ref_encode_def shard_key_def Let_def)
  have l: "length (unpublished done_db) \<le> (length ([] :: relay_round list) + 1) * DEFAULT_BATCH_SIZE"
    using x by (simp add: unpublished_def DEFAULT_BATCH_SIZE_def)
  have "calm_round quiet_round" by (simp add: calm_round_def quiet_round_def)
  from relay_drains [OF _ s _ this l surjective_pairing] show ?thesis
    using mem_hq.live_host_queue_axioms by (simp add: unpublished_def filter_empty_conv)
qed

theorem foreign_link_blocks_outbox_witness:
  "outbox_publisher ref_url_ops (demo_frontier\<lparr>rf_owned := [1]\<rparr>) ''r'' [quiet_round] quiet_round (done_db, empty_mem) = (done_db, empty_mem)"
proof -
  obtain x e where x: "pg_outbox done_db = [x]" "ob_published_at x = None" "outbox_entry_of ref_url_ops x = Inr e"
      "cu_host (ue_url (oe_entry e)) = Some ''a''" using done_row by metis
  have l: "x \<in> set (leasable (\<lambda>_. False) DEFAULT_BATCH_SIZE done_db)" using x by (simp add: leasable_def DEFAULT_BATCH_SIZE_def)
  have s: "rf_shard_of (demo_frontier\<lparr>rf_owned := [1]\<rparr>) (oe_entry e) = Inl (RfShardNotOwned 0 [1])"
    by (simp add: rf_shard_of_def shard_key_def Let_def)
  show ?thesis by (rule foreign_link_blocks_outbox [OF l x(3) s]) (simp add: quiet_round_def)
qed


end
