(* ===== verification/Fake_Frontier.thy ===== *)
theory Fake_Frontier
  imports Redis_Frontier "HOL-Library.AList"
begin

text \<open>
  \<^verbatim>\<open>crawlrs-fakes/src/frontier.rs\<close>: the in-memory frontier the tests run on, meant as a model of the
  Redis one. One lock makes every call a step on the state behind it. A panic poisons the lock, so
  every later call panics too. Hash maps that are walked are association lists; the order of a walk
  is an argument of \<open>tick\<close>.
\<close>

subsection \<open>State\<close>

record inflight_slot =
  if_host :: string
  if_lease_expiry_ms :: u64

record shard_state =
  ss_host_queue :: "string \<rightharpoonup> url_id list"
  ss_urls :: "url_id \<rightharpoonup> url_entry"
  ss_seen :: "url_id set"
  ss_host_count :: "string \<rightharpoonup> u64"
  ss_wake :: "(string \<times> u64) list"
  ss_ready :: "string list"
  ss_inflight :: "(url_id \<times> inflight_slot) list"

definition shard_state_default :: shard_state where
  "shard_state_default =
     \<lparr>ss_host_queue = Map.empty, ss_urls = Map.empty, ss_seen = {}, ss_host_count = Map.empty, ss_wake = [], ss_ready = [],
      ss_inflight = []\<rparr>"

record fake_state =
  fk_shards :: "u32 \<rightharpoonup> shard_state"
  fk_claim_cursor :: nat
  fk_poisoned :: bool

record fake_frontier =
  ff_sharding :: sharding_policy
  ff_owned :: "u32 list"
  ff_lease_timeout_ms :: u64
  ff_scope :: crawl_scope
  ff_anchor_instant :: nat
  ff_anchor_clock_ms :: u64
  ff_blake3 :: "string \<Rightarrow> string"

definition fake_lease_timeout :: duration where "fake_lease_timeout = 60 * 1000000000"

definition fake_new :: "(string \<Rightarrow> string) \<Rightarrow> sharding_policy \<Rightarrow> u32 list \<Rightarrow> nat \<Rightarrow> u64 \<Rightarrow> fake_frontier \<times> fake_state" where
  "fake_new blake3 sharding owned instant clock_ms =
     (\<lparr>ff_sharding = sharding, ff_owned = owned, ff_lease_timeout_ms = fake_lease_timeout div 1000000,
       ff_scope = \<lparr>cs_max_depth = None, cs_max_urls = None, cs_per_domain = (\<lambda>_. None)\<rparr>,
       ff_anchor_instant = instant, ff_anchor_clock_ms = clock_ms, ff_blake3 = blake3\<rparr>,
      \<lparr>fk_shards = fold (\<lambda>s m. m(s \<mapsto> shard_state_default)) owned Map.empty, fk_claim_cursor = 0, fk_poisoned = False\<rparr>)"

definition fake_with_clock :: "nat \<Rightarrow> u64 \<Rightarrow> fake_frontier \<Rightarrow> fake_frontier" where
  "fake_with_clock instant clock_ms F = F\<lparr>ff_anchor_clock_ms := clock_ms, ff_anchor_instant := instant\<rparr>"

definition fake_with_lease_timeout :: "duration \<Rightarrow> fake_frontier \<Rightarrow> fake_frontier" where
  "fake_with_lease_timeout t F = F\<lparr>ff_lease_timeout_ms := (t div 1000000) mod 2 ^ 64\<rparr>"

definition fake_with_crawl_scope :: "crawl_scope \<Rightarrow> fake_frontier \<Rightarrow> fake_frontier" where
  "fake_with_crawl_scope sc F = F\<lparr>ff_scope := sc\<rparr>"

datatype 'a answer = Answer 'a | Refused crawl_error | Panicked

definition fake_assert_owned :: "fake_frontier \<Rightarrow> u32 \<Rightarrow> crawl_error + unit" where
  "fake_assert_owned F shard =
     (if shard \<notin> set (ff_owned F)
      then Inl (EFrontier (''shard '' @ show_nat shard @ '' is not owned by this frontier instance (owns '' @
             show_debug_list (ff_owned F) @ '')''))
      else Inr ())"

definition clock_ms_to_instant :: "fake_frontier \<Rightarrow> u64 \<Rightarrow> nat" where
  "clock_ms_to_instant F ms = ff_anchor_instant F + (ms - ff_anchor_clock_ms F) * 1000000"

text \<open>\<open>entry(k).or_insert(v)\<close>\<close>

definition or_insert :: "'k \<Rightarrow> 'v \<Rightarrow> ('k \<times> 'v) list \<Rightarrow> ('k \<times> 'v) list" where
  "or_insert k v m = (if map_of m k = None then m @ [(k, v)] else m)"

definition push_queue :: "string \<Rightarrow> url_id \<Rightarrow> (string \<rightharpoonup> url_id list) \<Rightarrow> (string \<rightharpoonup> url_id list)" where
  "push_queue h i q = q(h \<mapsto> (case q h of None \<Rightarrow> [] | Some is \<Rightarrow> is) @ [i])"

subsection \<open>Operations\<close>

text \<open>What a submission does under the lock.\<close>

definition fake_enqueue :: "url_id \<Rightarrow> url_entry \<Rightarrow> string \<Rightarrow> u64 \<Rightarrow> shard_state \<Rightarrow> shard_state" where
  "fake_enqueue i e h now ss =
     ss\<lparr>ss_urls := (ss_urls ss)(i \<mapsto> e), ss_host_queue := push_queue h i (ss_host_queue ss),
        ss_wake := or_insert h now (ss_wake ss)\<rparr>"

definition fake_submit :: "fake_frontier \<Rightarrow> url_entry \<Rightarrow> u64 \<Rightarrow> fake_state \<Rightarrow> submit_outcome answer \<times> fake_state" where
  "fake_submit F entry now st =
     (let shard = shard_key (ff_sharding F) (ue_url entry) in
      case fake_assert_owned F shard of Inl e \<Rightarrow> (Refused e, st)
      | Inr _ \<Rightarrow>
         (let i = from_canonical (ff_blake3 F) (ue_url entry) in
          case cu_host (ue_url entry) of None \<Rightarrow> (Refused (EFrontier (''url has no host: '' @ cu_str (ue_url entry))), st)
          | Some host \<Rightarrow>
             if fk_poisoned st then (Panicked, st)
             else case fk_shards st shard of None \<Rightarrow> (Panicked, st\<lparr>fk_poisoned := True\<rparr>)
             | Some ss \<Rightarrow>
                if i \<in> ss_seen ss then (Answer SubmitDuplicate, st)
                else (Answer SubmitQueued,
                      st\<lparr>fk_shards := (fk_shards st)(shard \<mapsto> fake_enqueue i entry host now (ss\<lparr>ss_seen := insert i (ss_seen ss)\<rparr>))\<rparr>)))"

definition fake_count_one :: "u64 option \<Rightarrow> string \<Rightarrow> shard_state \<Rightarrow> shard_state" where
  "fake_count_one cap h ss =
     (if cap \<noteq> None then ss\<lparr>ss_host_count := (ss_host_count ss)(h \<mapsto> (case ss_host_count ss h of None \<Rightarrow> 0 | Some n \<Rightarrow> n) + 1)\<rparr> else ss)"

text \<open>An entry that is refused ends the batch; the entries before it stay submitted.\<close>

fun fake_batch_loop ::
  "fake_frontier \<Rightarrow> u64 \<Rightarrow> url_entry list \<Rightarrow> submit_batch_outcome \<Rightarrow> fake_state \<Rightarrow> submit_batch_outcome answer \<times> fake_state" where
  "fake_batch_loop F now [] outcome st = (Answer outcome, st)"
| "fake_batch_loop F now (entry # entries) outcome st =
     (let shard = shard_key (ff_sharding F) (ue_url entry) in
      case fake_assert_owned F shard of Inl e \<Rightarrow> (Refused e, st)
      | Inr _ \<Rightarrow>
         (let i = from_canonical (ff_blake3 F) (ue_url entry) in
          case cu_host (ue_url entry) of None \<Rightarrow> (Refused (EFrontier (''url has no host: '' @ cu_str (ue_url entry))), st)
          | Some host \<Rightarrow>
             (let cap = max_urls_for (ff_scope F) host in
              case fk_shards st shard of None \<Rightarrow> (Panicked, st\<lparr>fk_poisoned := True\<rparr>)
              | Some ss \<Rightarrow>
                 if (case cap of None \<Rightarrow> False | Some c \<Rightarrow> (case ss_host_count ss host of None \<Rightarrow> 0 | Some n \<Rightarrow> n) \<ge> c)
                 then fake_batch_loop F now entries (outcome\<lparr>sb_rejected_urls := sb_rejected_urls outcome @ [entry]\<rparr>) st
                 else if i \<in> ss_seen ss then fake_batch_loop F now entries outcome st
                 else
                   let ss = fake_enqueue i entry host now (fake_count_one cap host (ss\<lparr>ss_seen := insert i (ss_seen ss)\<rparr>))
                   in fake_batch_loop F now entries (outcome\<lparr>sb_queued := sb_queued outcome + 1\<rparr>)
                        (st\<lparr>fk_shards := (fk_shards st)(shard \<mapsto> ss)\<rparr>))))"

definition fake_submit_batch ::
  "fake_frontier \<Rightarrow> url_entry list \<Rightarrow> u64 \<Rightarrow> fake_state \<Rightarrow> submit_batch_outcome answer \<times> fake_state" where
  "fake_submit_batch F entries now st =
     (if fk_poisoned st then (Panicked, st) else fake_batch_loop F now entries submit_batch_default st)"

text \<open>\<open>pop_one_ready\<close>: the URL, its host and its entry, or \<open>None\<close> for the entry when it is missing from the table.\<close>

fun pop_loop :: "u64 \<Rightarrow> u64 \<Rightarrow> string list \<Rightarrow> shard_state \<Rightarrow> (url_id \<times> url_entry option \<times> string) option \<times> shard_state" where
  "pop_loop now lease [] ss = (None, ss\<lparr>ss_ready := []\<rparr>)"
| "pop_loop now lease (host # ready) ss =
     (case ss_host_queue ss host of None \<Rightarrow> pop_loop now lease ready ss
      | Some [] \<Rightarrow> pop_loop now lease ready ss
      | Some (i # q) \<Rightarrow>
         (let ss = ss\<lparr>ss_ready := ready, ss_host_queue := (ss_host_queue ss)(host \<mapsto> q)\<rparr> in
          case ss_urls ss i of None \<Rightarrow> (Some (i, None, host), ss)
          | Some entry \<Rightarrow>
             (let expiry = min (now + lease) U64_MAX in
              (Some (i, Some entry, host),
               ss\<lparr>ss_inflight := AList.update i \<lparr>if_host = host, if_lease_expiry_ms = expiry\<rparr> (ss_inflight ss),
                  ss_wake := AList.update host expiry (ss_wake ss)\<rparr>))))"

definition pop_one_ready :: "shard_state \<Rightarrow> u64 \<Rightarrow> u64 \<Rightarrow> (url_id \<times> url_entry option \<times> string) option \<times> shard_state" where
  "pop_one_ready ss now lease = pop_loop now lease (ss_ready ss) ss"

definition min_wake :: "shard_state \<Rightarrow> u64 option" where
  "min_wake ss = (case ss_wake ss of [] \<Rightarrow> None | w # ws \<Rightarrow> Some (fold (min \<circ> snd) ws (snd w)))"

fun fake_claim_sweep ::
  "fake_frontier \<Rightarrow> u64 \<Rightarrow> u32 list \<Rightarrow> u64 option \<Rightarrow> fake_state \<Rightarrow> claim_outcome answer \<times> fake_state" where
  "fake_claim_sweep F now [] soonest st =
     (Answer (case soonest of Some ms \<Rightarrow> if ms > now then ClaimEmptyHint (clock_ms_to_instant F ms) else ClaimEmpty | None \<Rightarrow> ClaimEmpty), st)"
| "fake_claim_sweep F now (shard # shards) soonest st =
     (case fk_shards st shard of None \<Rightarrow> fake_claim_sweep F now shards soonest st
      | Some ss \<Rightarrow>
         (let (r, ss) = pop_one_ready ss now (ff_lease_timeout_ms F); st = st\<lparr>fk_shards := (fk_shards st)(shard \<mapsto> ss)\<rparr> in
          case r of
            Some (i, Some entry, host) \<Rightarrow> (Answer (ClaimedUrl i entry (fake_encode_attempt shard i)), st)
          | Some (i, None, host) \<Rightarrow> (Panicked, st\<lparr>fk_poisoned := True\<rparr>)
          | None \<Rightarrow>
             let soonest = (case min_wake ss of None \<Rightarrow> soonest
                            | Some m \<Rightarrow> (case soonest of None \<Rightarrow> Some m | Some s \<Rightarrow> if m < s then Some m else soonest))
             in fake_claim_sweep F now shards soonest st))"

definition fake_claim :: "fake_frontier \<Rightarrow> worker_identity \<Rightarrow> u64 \<Rightarrow> fake_state \<Rightarrow> claim_outcome answer \<times> fake_state" where
  "fake_claim F identity now st =
     (let n = length (ff_owned F) in
      if n = 0 then (Answer ClaimEmpty, st)
      else if fk_poisoned st then (Panicked, st)
      else
        let start = fk_claim_cursor st mod n
        in fake_claim_sweep F now (sweep_order (ff_owned F) start) None
             (st\<lparr>fk_claim_cursor := (fk_claim_cursor st + 1) mod 2 ^ 64\<rparr>))"

definition on_shards :: "(shard_state \<Rightarrow> shard_state) \<Rightarrow> fake_state \<Rightarrow> fake_state" where
  "on_shards f st = st\<lparr>fk_shards := (\<lambda>s. map_option f (fk_shards st s))\<rparr>"

definition fake_advance_shard :: "string \<Rightarrow> u64 \<Rightarrow> shard_state \<Rightarrow> shard_state" where
  "fake_advance_shard host until_ms ss =
     (if ss_host_queue ss host \<noteq> None \<or> map_of (ss_wake ss) host \<noteq> None
      then ss\<lparr>ss_wake := AList.update host until_ms (ss_wake ss), ss_ready := removeAll host (ss_ready ss)\<rparr>
      else ss)"

definition fake_advance_wake :: "string \<Rightarrow> u64 \<Rightarrow> fake_state \<Rightarrow> unit answer \<times> fake_state" where
  "fake_advance_wake host until_ms st =
     (if fk_poisoned st then (Panicked, st) else (Answer (), on_shards (fake_advance_shard host until_ms) st))"

definition fake_ack :: "attempt_id \<Rightarrow> fake_state \<Rightarrow> unit answer \<times> fake_state" where
  "fake_ack attempt st =
     (case fake_decode_attempt attempt of Inl e \<Rightarrow> (Refused e, st)
      | Inr (shard, i) \<Rightarrow>
          if fk_poisoned st then (Panicked, st)
          else case fk_shards st shard of None \<Rightarrow> (Answer (), st)
          | Some ss \<Rightarrow> (Answer (), st\<lparr>fk_shards := (fk_shards st)(shard \<mapsto>
              ss\<lparr>ss_inflight := AList.delete i (ss_inflight ss), ss_urls := (ss_urls ss)(i := None)\<rparr>)\<rparr>))"

text \<open>The two passes of \<open>tick\<close> over one shard; \<open>wo\<close> and \<open>io\<close> order the walks over the maps.\<close>

definition fake_promote :: "((string \<times> u64) list \<Rightarrow> (string \<times> u64) list) \<Rightarrow> u64 \<Rightarrow> shard_state \<Rightarrow> nat \<times> shard_state" where
  "fake_promote wo now ss =
     (let promoted = map fst (filter (\<lambda>(host, score). score \<le> now \<and> host \<notin> set (ss_ready ss)) (wo (ss_wake ss)))
      in (length promoted, ss\<lparr>ss_wake := fold AList.delete promoted (ss_wake ss), ss_ready := ss_ready ss @ promoted\<rparr>))"

definition fake_reclaim_one :: "u64 \<Rightarrow> url_id \<times> inflight_slot \<Rightarrow> shard_state \<Rightarrow> shard_state" where
  "fake_reclaim_one now x ss =
     (case x of (i, slot) \<Rightarrow>
        ss\<lparr>ss_inflight := AList.delete i (ss_inflight ss), ss_host_queue := push_queue (if_host slot) i (ss_host_queue ss),
           ss_wake := or_insert (if_host slot) now (ss_wake ss)\<rparr>)"

definition fake_reclaim ::
  "((url_id \<times> inflight_slot) list \<Rightarrow> (url_id \<times> inflight_slot) list) \<Rightarrow> u64 \<Rightarrow> shard_state \<Rightarrow> nat \<times> shard_state" where
  "fake_reclaim io now ss =
     (let expired = filter (\<lambda>(_, slot). if_lease_expiry_ms slot \<le> now) (io (ss_inflight ss))
      in (length expired, fold (fake_reclaim_one now) expired ss))"

definition fake_tick_shard ::
  "((string \<times> u64) list \<Rightarrow> (string \<times> u64) list) \<Rightarrow> ((url_id \<times> inflight_slot) list \<Rightarrow> (url_id \<times> inflight_slot) list) \<Rightarrow> u64 \<Rightarrow>
   shard_state \<Rightarrow> nat \<times> shard_state" where
  "fake_tick_shard wo io now ss =
     (let (p, ss) = fake_promote wo now ss; (r, ss) = fake_reclaim io now ss in (p + r, ss))"

definition fake_tick ::
  "fake_frontier \<Rightarrow> ((string \<times> u64) list \<Rightarrow> (string \<times> u64) list) \<Rightarrow> ((url_id \<times> inflight_slot) list \<Rightarrow> (url_id \<times> inflight_slot) list) \<Rightarrow>
   u64 \<Rightarrow> fake_state \<Rightarrow> nat answer \<times> fake_state" where
  "fake_tick F wo io now st =
     (if fk_poisoned st then (Panicked, st)
      else (Answer (sum_list (map (\<lambda>s. case fk_shards st s of None \<Rightarrow> 0 | Some ss \<Rightarrow> fst (fake_tick_shard wo io now ss)) (remdups (ff_owned F)))),
            on_shards (\<lambda>ss. snd (fake_tick_shard wo io now ss)) st))"

subsection \<open>Invariant of a shard\<close>

text \<open>The pending URLs of a shard, with their hosts.\<close>

definition pends :: "shard_state \<Rightarrow> url_id \<Rightarrow> string \<Rightarrow> bool" where
  "pends ss i h \<longleftrightarrow> (\<exists>q. ss_host_queue ss h = Some q \<and> i \<in> set q) \<or> (\<exists>slot. (i, slot) \<in> set (ss_inflight ss) \<and> if_host slot = h)"

text \<open>No host is ready twice, hosts are on their own shard, a pending URL was seen, and its entry, while
  it is there, names the host it is pending for.\<close>

definition fake_inv :: "fake_frontier \<Rightarrow> u32 \<Rightarrow> shard_state \<Rightarrow> bool" where
  "fake_inv F s ss \<longleftrightarrow> distinct (ss_ready ss) \<and> distinct (map fst (ss_wake ss)) \<and>
     (\<forall>h \<in> dom (ss_host_queue ss). shard_key_from_host (ff_sharding F) h = s) \<and>
     (\<forall>i h. pends ss i h \<longrightarrow> i \<in> ss_seen ss \<and> shard_key_from_host (ff_sharding F) h = s \<and>
        (\<forall>e. ss_urls ss i = Some e \<longrightarrow> cu_host (ue_url e) = Some h))"

definition pend_ok :: "fake_frontier \<Rightarrow> u32 \<Rightarrow> shard_state \<Rightarrow> url_id \<Rightarrow> string \<Rightarrow> bool" where
  "pend_ok F s ss i h \<longleftrightarrow> i \<in> ss_seen ss \<and> shard_key_from_host (ff_sharding F) h = s \<and>
     (\<forall>e. ss_urls ss i = Some e \<longrightarrow> cu_host (ue_url e) = Some h)"

lemma fake_inv_pend: "fake_inv F s ss \<Longrightarrow> pends ss i h \<Longrightarrow> pend_ok F s ss i h"
  by (simp add: fake_inv_def pend_ok_def)

text \<open>An operation keeps the invariant if what is pending afterwards was pending before, with no new
  entry, or is in order itself.\<close>

lemma fake_inv_step:
  assumes "fake_inv F s ss" "distinct (ss_ready ss')" "distinct (map fst (ss_wake ss'))"
    and "\<And>h. h \<in> dom (ss_host_queue ss') \<Longrightarrow> h \<in> dom (ss_host_queue ss) \<or> shard_key_from_host (ff_sharding F) h = s"
    and "\<And>j g. pends ss' j g \<Longrightarrow> pends ss j g \<or> pend_ok F s ss' j g" "ss_seen ss \<subseteq> ss_seen ss'"
    and "\<And>j g e. pends ss j g \<Longrightarrow> ss_urls ss' j = Some e \<Longrightarrow> ss_urls ss j = Some e"
  shows "fake_inv F s ss'"
proof -
  have "pend_ok F s ss' j g" if "pends ss' j g" for j g
    using assms(5) [OF that] fake_inv_pend [OF assms(1), of j g] assms(6,7) by (fastforce simp: pend_ok_def)
  moreover have "\<forall>h \<in> dom (ss_host_queue ss'). shard_key_from_host (ff_sharding F) h = s"
    using assms(1,4) unfolding fake_inv_def by blast
  ultimately show ?thesis using assms(2,3) by (auto simp: fake_inv_def pend_ok_def)
qed

lemma or_insert_keys: "distinct (map fst m) \<Longrightarrow> distinct (map fst (or_insert k v m))"
  by (auto simp: or_insert_def map_of_eq_None_iff)

text \<open>What is left of a shard when the first URL of a ready host is taken, and when it is leased.\<close>

definition taken :: "string list \<Rightarrow> string \<Rightarrow> url_id list \<Rightarrow> shard_state \<Rightarrow> shard_state" where
  "taken rest h q ss = ss\<lparr>ss_ready := rest, ss_host_queue := (ss_host_queue ss)(h \<mapsto> q)\<rparr>"

definition leased :: "u64 \<Rightarrow> url_id \<Rightarrow> string \<Rightarrow> shard_state \<Rightarrow> shard_state" where
  "leased expiry i h ss =
     ss\<lparr>ss_inflight := AList.update i \<lparr>if_host = h, if_lease_expiry_ms = expiry\<rparr> (ss_inflight ss),
        ss_wake := AList.update h expiry (ss_wake ss)\<rparr>"

lemma pop_loop_spec:
  "pop_loop now lease ready ss = (None, ss\<lparr>ss_ready := []\<rparr>) \<or>
   (\<exists>pre h rest i q. ready = pre @ h # rest \<and> ss_host_queue ss h = Some (i # q) \<and>
      pop_loop now lease ready ss =
        (case ss_urls ss i of None \<Rightarrow> (Some (i, None, h), taken rest h q ss)
         | Some e \<Rightarrow> (Some (i, Some e, h), leased (min (now + lease) U64_MAX) i h (taken rest h q ss))))"
proof (induction ready)
  case (Cons g ready)
  consider (skip) "ss_host_queue ss g = None \<or> ss_host_queue ss g = Some []" | (hit) i q where "ss_host_queue ss g = Some (i # q)"
    by (metis list.exhaust option.exhaust)
  then show ?case
  proof cases
    case skip
    then have "pop_loop now lease (g # ready) ss = pop_loop now lease ready ss" by auto
    then show ?thesis using Cons.IH by (metis append_Cons)
  next
    case hit
    then show ?thesis
      by (intro disjI2 exI [of _ "[]"] exI [of _ g] exI [of _ ready] exI [of _ i] exI [of _ q])
        (simp add: taken_def leased_def Let_def split: option.split)
  qed
qed simp

lemma pends_taken:
  assumes "ss_host_queue ss h = Some (i # q)"
  shows "pends (taken rest h q ss) j g \<Longrightarrow> pends ss j g" "pends (leased t i h (taken rest h q ss)) j g \<Longrightarrow> pends ss j g"
proof -
  show 1: "pends (taken rest h q ss) j g \<Longrightarrow> pends ss j g"
    using assms by (force simp: pends_def taken_def split: if_splits)
  show "pends (leased t i h (taken rest h q ss)) j g \<Longrightarrow> pends ss j g"
    using assms by (force simp: pends_def taken_def leased_def split: if_splits dest: alist_update_in)
qed

lemma pop_cases:
  assumes "pop_one_ready ss now lease = (r, ss')"
  obtains (none) "r = None" "ss' = ss\<lparr>ss_ready := []\<rparr>"
  | (lost) pre h rest i q where "ss_ready ss = pre @ h # rest" "ss_host_queue ss h = Some (i # q)" "ss_urls ss i = None"
      "r = Some (i, None, h)" "ss' = taken rest h q ss"
  | (got) pre h rest i q e where "ss_ready ss = pre @ h # rest" "ss_host_queue ss h = Some (i # q)" "ss_urls ss i = Some e"
      "r = Some (i, Some e, h)" "ss' = leased (min (now + lease) U64_MAX) i h (taken rest h q ss)"
  using pop_loop_spec [of now lease "ss_ready ss" ss] assms by (auto simp: pop_one_ready_def split: option.splits)

lemma pop_inv:
  assumes "fake_inv F s ss" "pop_one_ready ss now lease = (r, ss')"
  shows "fake_inv F s ss'"
  using assms(2)
proof (cases rule: pop_cases)
  case none
  then show ?thesis using assms(1) by (intro fake_inv_step [OF assms(1)]) (auto simp: pends_def fake_inv_def)
next
  case (lost pre h rest i q)
  then show ?thesis
    using assms(1) pends_taken(1) [OF lost(2)]
    by (intro fake_inv_step [OF assms(1)]) (auto simp: taken_def fake_inv_def)
next
  case (got pre h rest i q e)
  then show ?thesis
    using assms(1) pends_taken(2) [OF got(2)]
    by (intro fake_inv_step [OF assms(1)]) (auto simp: taken_def leased_def fake_inv_def AList.distinct_update)
qed

lemma pends_push:
  "pends (ss\<lparr>ss_host_queue := push_queue h i (ss_host_queue ss)\<rparr>) j g \<longleftrightarrow> pends ss j g \<or> (j = i \<and> g = h)"
  by (auto simp: pends_def push_queue_def split: option.splits)

lemma pends_cong:
  "ss_host_queue a = ss_host_queue b \<Longrightarrow> ss_inflight a = ss_inflight b \<Longrightarrow> pends a = pends b"
  by (simp add: pends_def fun_eq_iff)

lemma enqueue_pends: "pends (fake_enqueue i e h now ss) j g \<longleftrightarrow> pends ss j g \<or> (j = i \<and> g = h)"
  using pends_push [where ss = ss and h = h and i = i and j = j and g = g] pends_cong [of "fake_enqueue i e h now ss" "ss\<lparr>ss_host_queue := push_queue h i (ss_host_queue ss)\<rparr>"]
  by (simp add: fake_enqueue_def)

lemma count_one_frame [simp]:
  "ss_host_queue (fake_count_one cap h ss) = ss_host_queue ss" "ss_urls (fake_count_one cap h ss) = ss_urls ss"
  "ss_seen (fake_count_one cap h ss) = ss_seen ss" "ss_wake (fake_count_one cap h ss) = ss_wake ss"
  "ss_ready (fake_count_one cap h ss) = ss_ready ss" "ss_inflight (fake_count_one cap h ss) = ss_inflight ss"
  by (simp_all add: fake_count_one_def)

lemma fake_enqueue_inv:
  assumes "fake_inv F s ss" "i \<notin> ss_seen ss" "cu_host (ue_url e) = Some h" "shard_key_from_host (ff_sharding F) h = s"
  shows "fake_inv F s (fake_enqueue i e h now (fake_count_one cap h (ss\<lparr>ss_seen := insert i (ss_seen ss)\<rparr>)))"
proof -
  let ?ss = "fake_count_one cap h (ss\<lparr>ss_seen := insert i (ss_seen ss)\<rparr>)"
  have frame: "pends ?ss = pends ss" by (rule pends_cong) simp_all
  have fresh: "\<not> pends ss i g" for g using fake_inv_pend [OF assms(1), of i g] assms(2) by (auto simp: pend_ok_def)
  show ?thesis
  proof (rule fake_inv_step [OF assms(1)])
    show "pends (fake_enqueue i e h now ?ss) j g \<Longrightarrow> pends ss j g \<or> pend_ok F s (fake_enqueue i e h now ?ss) j g" for j g
      using assms(3,4) by (auto simp: enqueue_pends frame pend_ok_def) (auto simp: fake_enqueue_def)
    show "pends ss j g \<Longrightarrow> ss_urls (fake_enqueue i e h now ?ss) j = Some x \<Longrightarrow> ss_urls ss j = Some x" for j g x
      using fresh by (auto simp: fake_enqueue_def split: if_splits)
  qed (use assms in \<open>auto simp: fake_inv_def fake_enqueue_def push_queue_def or_insert_keys\<close>)
qed

lemma fake_advance_inv: "fake_inv F s ss \<Longrightarrow> fake_inv F s (fake_advance_shard h t ss)"
  by (rule fake_inv_step)
    (auto simp: fake_advance_shard_def fake_inv_def pends_def AList.distinct_update intro: distinct_removeAll split: if_splits)

lemma fake_ack_inv:
  "fake_inv F s ss \<Longrightarrow> fake_inv F s (ss\<lparr>ss_inflight := AList.delete i (ss_inflight ss), ss_urls := (ss_urls ss)(i := None)\<rparr>)"
  by (rule fake_inv_step) (auto simp: fake_inv_def pends_def dest: alist_delete_in split: if_splits)

lemma fold_delete_keys: "distinct (map fst m) \<Longrightarrow> distinct (map fst (fold AList.delete ks m))"
  by (induction ks arbitrary: m) (auto simp: AList.distinct_delete)

lemma fake_promote_inv:
  assumes "fake_inv F s ss" "mset (wo (ss_wake ss)) = mset (ss_wake ss)"
  shows "fake_inv F s (snd (fake_promote wo now ss))"
proof -
  have d: "distinct (map fst (ss_wake ss))" "distinct (ss_ready ss)" using assms(1) by (simp_all add: fake_inv_def)
  let ?hs = "map fst (filter (\<lambda>(host, score). score \<le> now \<and> host \<notin> set (ss_ready ss)) (wo (ss_wake ss)))"
  have "distinct ?hs" by (rule distinct_map_filter) (simp add: walk_keys [of wo "ss_wake ss"] assms(2) d(1))
  then show ?thesis
    using d by (intro fake_inv_step [OF assms(1)])
      (auto simp: fake_promote_def Let_def pends_def fold_delete_keys)
qed

lemma fake_reclaim_one_inv:
  assumes "fake_inv F s ss" "pend_ok F s ss i (if_host slot)"
  shows "fake_inv F s (fake_reclaim_one now (i, slot) ss)"
proof (rule fake_inv_step [OF assms(1)])
  show "pends (fake_reclaim_one now (i, slot) ss) j g \<Longrightarrow> pends ss j g \<or> pend_ok F s (fake_reclaim_one now (i, slot) ss) j g" for j g
    using assms(2) by (auto simp: fake_reclaim_one_def pends_def push_queue_def pend_ok_def split: if_splits option.splits dest: alist_delete_in)
qed (use assms in \<open>auto simp: fake_inv_def fake_reclaim_one_def push_queue_def or_insert_keys pend_ok_def\<close>)

lemma reclaim_fold_inv:
  "fake_inv F s ss \<Longrightarrow> \<forall>(i, slot) \<in> set xs. pend_ok F s ss i (if_host slot) \<Longrightarrow> fake_inv F s (fold (fake_reclaim_one now) xs ss)"
proof (induction xs arbitrary: ss)
  case (Cons x xs)
  obtain i slot where x: "x = (i, slot)" by (metis prod.exhaust)
  have "pend_ok F s (fake_reclaim_one now x ss) j g = pend_ok F s ss j g" for j g by (simp add: x fake_reclaim_one_def pend_ok_def)
  then show ?case using Cons fake_reclaim_one_inv [OF Cons.prems(1), of i slot now] x by auto
qed simp

lemma tick_inv:
  assumes "fake_inv F s ss" "\<And>m. mset (wo m) = mset m" "\<And>m. mset (io m) = mset m"
  shows "fake_inv F s (snd (fake_tick_shard wo io now ss))"
proof -
  let ?ss = "snd (fake_promote wo now ss)"
  have inv: "fake_inv F s ?ss" using fake_promote_inv [OF assms(1)] assms(2) by simp
  have "pend_ok F s ?ss i (if_host slot)" if "(i, slot) \<in> set (io (ss_inflight ?ss))" for i slot
  proof -
    have "(i, slot) \<in> set (ss_inflight ?ss)" using that assms(3) by (metis mset_eq_setD)
    then show ?thesis using fake_inv_pend [OF inv] by (auto simp: pends_def)
  qed
  then show ?thesis
    using reclaim_fold_inv [OF inv] by (auto simp: fake_tick_shard_def fake_reclaim_def Let_def split: prod.splits)
qed

subsection \<open>A host that waits\<close>

definition waits :: "string \<Rightarrow> u64 \<Rightarrow> shard_state \<Rightarrow> bool" where
  "waits h t ss \<longleftrightarrow> h \<notin> set (ss_ready ss) \<and> map_of (ss_wake ss) h = Some t"

text \<open>The invariant, with a host that waits on its shard when \<open>g\<close> names one.\<close>

definition holds :: "fake_frontier \<Rightarrow> (string \<times> u64) option \<Rightarrow> u32 \<Rightarrow> shard_state \<Rightarrow> bool" where
  "holds F g s ss \<longleftrightarrow> fake_inv F s ss \<and>
     (case g of None \<Rightarrow> True | Some (h, t) \<Rightarrow> s = shard_key_from_host (ff_sharding F) h \<longrightarrow> waits h t ss)"

definition all_hold :: "fake_frontier \<Rightarrow> (string \<times> u64) option \<Rightarrow> fake_state \<Rightarrow> bool" where
  "all_hold F g st \<longleftrightarrow> (\<forall>s ss. fk_shards st s = Some ss \<longrightarrow> holds F g s ss)"

datatype fake_call =
  FSubmit url_entry u64
| FBatch "url_entry list" u64
| FClaim worker_identity u64
| FAdvance string u64
| FAck attempt_id
| FTick "(string \<times> u64) list \<Rightarrow> (string \<times> u64) list" "(url_id \<times> inflight_slot) list \<Rightarrow> (url_id \<times> inflight_slot) list" u64

fun fake_effect :: "fake_frontier \<Rightarrow> fake_call \<Rightarrow> fake_state \<Rightarrow> fake_state" where
  "fake_effect F (FSubmit e now) st = snd (fake_submit F e now st)"
| "fake_effect F (FBatch es now) st = snd (fake_submit_batch F es now st)"
| "fake_effect F (FClaim w now) st = snd (fake_claim F w now st)"
| "fake_effect F (FAdvance h t) st = snd (fake_advance_wake h t st)"
| "fake_effect F (FAck a) st = snd (fake_ack a st)"
| "fake_effect F (FTick wo io now) st = snd (fake_tick F wo io now st)"

text \<open>A walk visits every entry once; a waiting host is left alone until its time.\<close>

fun call_fair :: "fake_call \<Rightarrow> bool" where
  "call_fair (FTick wo io now) = ((\<forall>m. mset (wo m) = mset m) \<and> (\<forall>m. mset (io m) = mset m))"
| "call_fair c = True"

fun call_before :: "(string \<times> u64) option \<Rightarrow> fake_call \<Rightarrow> bool" where
  "call_before (Some (h, t)) (FAdvance g until_ms) = (g \<noteq> h)"
| "call_before (Some (h, t)) (FTick wo io now) = (now < t)"
| "call_before g c = True"

lemma or_insert_lookup: "map_of m h = Some t \<Longrightarrow> map_of (or_insert k v m) h = Some t"
  by (simp add: or_insert_def)

lemma waits_enqueue: "waits h t ss \<Longrightarrow> waits h t (fake_enqueue i e g now (fake_count_one cap g (ss\<lparr>ss_seen := sn\<rparr>)))"
  by (simp add: waits_def fake_enqueue_def or_insert_lookup)

lemma waits_advance: "waits h t ss \<Longrightarrow> g \<noteq> h \<Longrightarrow> waits h t (fake_advance_shard g u ss)"
  by (auto simp: waits_def fake_advance_shard_def AList.update_conv')

lemma waits_reclaim: "waits h t ss \<Longrightarrow> waits h t (fold (fake_reclaim_one now) xs ss)"
proof (induction xs arbitrary: ss)
  case (Cons x xs)
  have "waits h t (fake_reclaim_one now x ss)" using Cons.prems by (auto simp: waits_def fake_reclaim_one_def or_insert_lookup split: prod.split)
  then show ?case using Cons.IH by simp
qed simp

lemma fold_delete_lookup: "h \<notin> set ks \<Longrightarrow> map_of (fold AList.delete ks m) h = map_of m h"
  by (induction ks arbitrary: m) (auto simp: AList.delete_conv')

lemma waits_tick:
  assumes "waits h t ss" "now < t" "distinct (map fst (ss_wake ss))" "mset (wo (ss_wake ss)) = mset (ss_wake ss)"
  shows "waits h t (snd (fake_tick_shard wo io now ss))"
proof -
  have "(h, x) \<in> set (wo (ss_wake ss)) \<Longrightarrow> x = t" for x
    using assms(1,3) mset_eq_setD [OF assms(4)] by (auto simp: waits_def map_of_eq_Some_iff)
  then have n: "h \<notin> set (map fst (filter (\<lambda>(host, score). score \<le> now \<and> host \<notin> set (ss_ready ss)) (wo (ss_wake ss))))"
    using assms(2) by auto
  have "waits h t (snd (fake_promote wo now ss))"
    using assms(1) n fold_delete_lookup [OF n, of "ss_wake ss"] by (simp add: waits_def fake_promote_def Let_def)
  then show ?thesis
    by (cases "fake_promote wo now ss") (simp add: fake_tick_shard_def fake_reclaim_def Let_def waits_reclaim)
qed

lemma waits_pop:
  assumes "waits h t ss" "pop_one_ready ss now lease = (r, ss')"
  shows "waits h t ss'"
  using assms(2) by (cases rule: pop_cases) (use assms(1) in \<open>auto simp: waits_def taken_def leased_def AList.update_conv'\<close>)

lemma pop_holds: "holds F g s ss \<Longrightarrow> pop_one_ready ss now lease = (r, ss') \<Longrightarrow> holds F g s ss'"
  using pop_inv waits_pop by (fastforce simp: holds_def split: option.splits)

lemma all_hold_upd: "all_hold F g st \<Longrightarrow> holds F g s ss \<Longrightarrow> all_hold F g (st\<lparr>fk_shards := (fk_shards st)(s \<mapsto> ss)\<rparr>)"
  by (simp add: all_hold_def)

lemma all_hold_frame [simp]: "all_hold F g (st\<lparr>fk_poisoned := b\<rparr>) = all_hold F g st" "all_hold F g (st\<lparr>fk_claim_cursor := k\<rparr>) = all_hold F g st"
  by (simp_all add: all_hold_def)

lemma sweep_holds:
  assumes "all_hold F g st" "fake_claim_sweep F now shards soonest st = (r, st')"
  shows "all_hold F g st' \<and> (\<forall>i e a. r = Answer (ClaimedUrl i e a) \<longrightarrow>
     (\<exists>s ss ss' h. holds F g s ss \<and> pop_one_ready ss now (ff_lease_timeout_ms F) = (Some (i, Some e, h), ss') \<and> fk_shards st' s = Some ss'))"
  using assms
proof (induction shards arbitrary: soonest st)
  case (Cons s shards)
  show ?case
  proof (cases "fk_shards st s")
    case (Some ss)
    obtain p ss' where p: "pop_one_ready ss now (ff_lease_timeout_ms F) = (p, ss')" by (metis surj_pair)
    have ss: "holds F g s ss" using Cons.prems(1) Some by (simp add: all_hold_def)
    let ?st = "st\<lparr>fk_shards := (fk_shards st)(s \<mapsto> ss')\<rparr>"
    have st: "all_hold F g ?st" using all_hold_upd [OF Cons.prems(1) pop_holds [OF ss p]] .
    consider (none) "p = None" | (lost) i h where "p = Some (i, None, h)" | (got) i e h where "p = Some (i, Some e, h)"
      by (metis option.exhaust prod.exhaust)
    then show ?thesis
    proof cases
      case none
      then show ?thesis using Cons.IH [OF st] Cons.prems(2) Some p by (simp add: Let_def)
    next
      case lost
      then have "r = Panicked" "st' = ?st\<lparr>fk_poisoned := True\<rparr>" using Cons.prems(2) Some p by auto
      then show ?thesis using st by simp
    next
      case got
      then have "r = Answer (ClaimedUrl i e (fake_encode_attempt s i))" "st' = ?st" using Cons.prems(2) Some p by auto
      then show ?thesis using st ss p got by (auto intro!: exI [of _ s] exI [of _ ss])
    qed
  qed (use Cons in simp)
qed (auto split: option.splits if_splits)


lemma shard_key_host: "cu_host u = Some h \<Longrightarrow> shard_key p u = shard_key_from_host p h"
  by (simp add: shard_key_def)

lemma enqueue_holds:
  assumes "holds F g s ss" "i \<notin> ss_seen ss" "cu_host (ue_url e) = Some h" "s = shard_key (ff_sharding F) (ue_url e)"
  shows "holds F g s (fake_enqueue i e h now (fake_count_one cap h (ss\<lparr>ss_seen := insert i (ss_seen ss)\<rparr>)))"
proof -
  have "shard_key_from_host (ff_sharding F) h = s" using assms(3,4) by (simp add: shard_key_host)
  then show ?thesis
    using assms(1) fake_enqueue_inv [OF _ assms(2,3), where F = F and s = s and cap = cap and now = now] waits_enqueue
    by (auto simp: holds_def split: option.splits)
qed

lemma batch_holds: "all_hold F g st \<Longrightarrow> fake_batch_loop F now es out st = (r, st') \<Longrightarrow> all_hold F g st'"
proof (induction es arbitrary: out st)
  case (Cons e es)
  let ?s = "shard_key (ff_sharding F) (ue_url e)" and ?i = "from_canonical (ff_blake3 F) (ue_url e)"
  show ?case
  proof (cases "isl (fake_assert_owned F ?s) \<or> cu_host (ue_url e) = None \<or> fk_shards st ?s = None")
    case True
    then show ?thesis using Cons.prems by (auto simp: Let_def isl_def split: sum.splits option.splits)
  next
    case False
    then obtain h ss where h: "cu_host (ue_url e) = Some h" and ss: "fk_shards st ?s = Some ss" by auto
    have ow: "fake_assert_owned F ?s = Inr ()" using False by (cases "fake_assert_owned F ?s") auto
    let ?cap = "max_urls_for (ff_scope F) h"
    let ?ss = "fake_enqueue ?i e h now (fake_count_one ?cap h (ss\<lparr>ss_seen := insert ?i (ss_seen ss)\<rparr>))"
    have "holds F g ?s ss" using Cons.prems(1) ss by (simp add: all_hold_def)
    then have "?i \<notin> ss_seen ss \<Longrightarrow> all_hold F g (st\<lparr>fk_shards := (fk_shards st)(?s \<mapsto> ?ss)\<rparr>)"
      using all_hold_upd [OF Cons.prems(1)] enqueue_holds [OF _ _ h] by blast
    then show ?thesis
      using Cons.IH Cons.prems h ss ow by (fastforce simp: Let_def split: if_splits)
  qed
qed simp

lemma on_shards_holds: "all_hold F g st \<Longrightarrow> (\<And>s ss. holds F g s ss \<Longrightarrow> holds F g s (f ss)) \<Longrightarrow> all_hold F g (on_shards f st)"
  by (auto simp: all_hold_def on_shards_def)

lemma ack_holds:
  "holds F g s ss \<Longrightarrow> holds F g s (ss\<lparr>ss_inflight := AList.delete i (ss_inflight ss), ss_urls := (ss_urls ss)(i := None)\<rparr>)"
  using fake_ack_inv by (auto simp: holds_def waits_def split: option.splits)

lemma advance_holds: "holds F g s ss \<Longrightarrow> call_before g (FAdvance h t) \<Longrightarrow> holds F g s (fake_advance_shard h t ss)"
  using fake_advance_inv waits_advance by (cases g) (auto simp: holds_def)

lemma tick_holds:
  assumes "holds F g s ss" "call_before g (FTick wo io now)" "call_fair (FTick wo io now)"
  shows "holds F g s (snd (fake_tick_shard wo io now ss))"
proof -
  have "fake_inv F s (snd (fake_tick_shard wo io now ss))" using tick_inv assms by (simp add: holds_def)
  moreover have "distinct (map fst (ss_wake ss))" using assms(1) by (simp add: holds_def fake_inv_def)
  ultimately show ?thesis
    using assms waits_tick [where ss = ss and wo = wo and io = io and now = now] by (cases g) (auto simp: holds_def)
qed

lemma submit_holds:
  assumes "all_hold F g st"
  shows "all_hold F g (snd (fake_submit F e now st))"
proof -
  let ?s = "shard_key (ff_sharding F) (ue_url e)" and ?i = "from_canonical (ff_blake3 F) (ue_url e)"
  have "all_hold F g (st\<lparr>fk_shards := (fk_shards st)(?s \<mapsto> fake_enqueue ?i e h now (ss\<lparr>ss_seen := insert ?i (ss_seen ss)\<rparr>))\<rparr>)"
    if "cu_host (ue_url e) = Some h" "fk_shards st ?s = Some ss" "?i \<notin> ss_seen ss" for h ss
  proof -
    have "holds F g ?s ss" using assms that(2) by (simp add: all_hold_def)
    from enqueue_holds [OF this that(3,1) refl, where cap = None and now = now] show ?thesis
      using all_hold_upd [OF assms] by (simp add: fake_count_one_def)
  qed
  then show ?thesis using assms by (auto simp: fake_submit_def Let_def split: sum.split option.split)
qed

lemma effect_holds:
  assumes "all_hold F g st" "call_before g c" "call_fair c"
  shows "all_hold F g (fake_effect F c st)"
proof (cases c)
  case (FSubmit e now)
  then show ?thesis using submit_holds [OF assms(1)] by simp
next
  case (FBatch es now)
  obtain r st' where "fake_batch_loop F now es submit_batch_default st = (r, st')" by (metis surj_pair)
  then show ?thesis using batch_holds [OF assms(1)] assms(1) FBatch by (simp add: fake_submit_batch_def)
next
  case (FClaim w now)
  then show ?thesis
    using assms(1) sweep_holds [of F g "st\<lparr>fk_claim_cursor := (fk_claim_cursor st + 1) mod 2 ^ 64\<rparr>"]
    by (auto simp: fake_claim_def Let_def) (metis prod.collapse)
next
  case (FAdvance h t)
  then show ?thesis using assms advance_holds on_shards_holds by (simp add: fake_advance_wake_def)
next
  case (FAck a)
  then show ?thesis
    using assms(1) all_hold_upd [OF assms(1)] ack_holds
    by (auto simp: fake_ack_def all_hold_def split: sum.split option.split)
next
  case (FTick wo io now)
  then show ?thesis using assms tick_holds on_shards_holds by (simp add: fake_tick_def)
qed


lemma effects_hold:
  "all_hold F g st \<Longrightarrow> list_all (call_before g) cs \<Longrightarrow> list_all call_fair cs \<Longrightarrow> all_hold F g (fold (fake_effect F) cs st)"
  by (induction cs arbitrary: st) (simp_all add: effect_holds)

lemma new_holds: "all_hold F None (snd (fake_new b p owned i c))"
proof -
  have "fk_shards (snd (fake_new b p owned i c)) s = Some ss \<Longrightarrow> ss = shard_state_default" for s ss
  proof -
    have "fold (\<lambda>s m. m(s \<mapsto> shard_state_default)) owned m s = Some ss \<Longrightarrow> m s = Some ss \<or> ss = shard_state_default" for m
      by (induction owned arbitrary: m) (fastforce split: if_splits)+
    then show "fk_shards (snd (fake_new b p owned i c)) s = Some ss \<Longrightarrow> ss = shard_state_default"
      by (fastforce simp: fake_new_def)
  qed
  moreover have "holds F None s shard_state_default" for s
    by (simp add: holds_def fake_inv_def shard_state_default_def pends_def)
  ultimately show ?thesis unfolding all_hold_def by blast
qed

lemma call_before_none [simp]: "call_before None c"
  by (cases c) simp_all

text \<open>A URL handed out is of a host that was ready; that host then waits until the lease runs out.\<close>

lemma pop_got:
  assumes "fake_inv F s ss" "pop_one_ready ss now lease = (Some (i, Some e, h), ss')"
  shows "cu_host (ue_url e) = Some h" "s = shard_key_from_host (ff_sharding F) h" "h \<in> set (ss_ready ss)"
    "waits h (min (now + lease) U64_MAX) ss'"
proof -
  obtain pre rest q where p: "ss_ready ss = pre @ h # rest" "ss_host_queue ss h = Some (i # q)" "ss_urls ss i = Some e"
      "ss' = leased (min (now + lease) U64_MAX) i h (taken rest h q ss)"
    using assms(2) by (cases rule: pop_cases) auto
  have "pends ss i h" using p(2) by (auto simp: pends_def)
  then have "pend_ok F s ss i h" by (rule fake_inv_pend [OF assms(1)])
  then show "cu_host (ue_url e) = Some h" "s = shard_key_from_host (ff_sharding F) h" using p(3) by (auto simp: pend_ok_def)
  show "h \<in> set (ss_ready ss)" using p(1) by simp
  have "distinct (ss_ready ss)" using assms(1) by (simp add: fake_inv_def)
  then show "waits h (min (now + lease) U64_MAX) ss'"
    using p(1,4) by (auto simp: waits_def leased_def taken_def AList.update_conv')
qed

lemma claim_got:
  assumes "all_hold F g st" "fake_claim F w now st = (Answer (ClaimedUrl i e a), st')"
  obtains s ss ss' h where "holds F g s ss" "pop_one_ready ss now (ff_lease_timeout_ms F) = (Some (i, Some e, h), ss')"
    "fk_shards st' s = Some ss'" "all_hold F g st'"
proof -
  have "fake_claim_sweep F now (sweep_order (ff_owned F) (fk_claim_cursor st mod length (ff_owned F))) None
      (st\<lparr>fk_claim_cursor := (fk_claim_cursor st + 1) mod 2 ^ 64\<rparr>) = (Answer (ClaimedUrl i e a), st')"
    using assms(2) by (auto simp: fake_claim_def Let_def split: if_splits)
  moreover have "all_hold F g (st\<lparr>fk_claim_cursor := (fk_claim_cursor st + 1) mod 2 ^ 64\<rparr>)" using assms(1) by simp
  ultimately show ?thesis using sweep_holds that by blast
qed

lemma claim_then_waits:
  assumes "all_hold F None st" "fake_claim F w now st = (Answer (ClaimedUrl i e a), st')" "cu_host (ue_url e) = Some h"
  shows "all_hold F (Some (h, min (now + ff_lease_timeout_ms F) U64_MAX)) st'"
proof -
  obtain s ss ss' g where c: "holds F None s ss" "pop_one_ready ss now (ff_lease_timeout_ms F) = (Some (i, Some e, g), ss')"
      "fk_shards st' s = Some ss'" "all_hold F None st'"
    using claim_got [OF assms(1,2)] .
  have "fake_inv F s ss" using c(1) by (simp add: holds_def)
  note got = pop_got [OF this c(2)]
  have "g = h" using got(1) assms(3) by simp
  then show ?thesis using c(3,4) got(2,4) by (auto simp: all_hold_def holds_def)
qed

lemma waiting_not_claimed:
  assumes "all_hold F (Some (h, t)) st" "fake_claim F w now st = (Answer (ClaimedUrl i e a), st')"
  shows "cu_host (ue_url e) \<noteq> Some h"
proof
  assume h: "cu_host (ue_url e) = Some h"
  obtain s ss ss' g where c: "holds F (Some (h, t)) s ss" "pop_one_ready ss now (ff_lease_timeout_ms F) = (Some (i, Some e, g), ss')"
    using claim_got [OF assms] .
  have "fake_inv F s ss" using c(1) by (simp add: holds_def)
  note got = pop_got [OF this c(2)]
  have "g = h" using got(1) h by simp
  then show False using c(1) got(2,3) by (simp add: holds_def waits_def)
qed



definition demo_fake :: fake_frontier where
  "demo_fake = fst (fake_new (\<lambda>s. [last s]) SingleShardPolicy [0] 0 0)"

definition entry_on :: "string \<Rightarrow> string \<Rightarrow> url_entry" where
  "entry_on h p = seed_entry \<lparr>cu_str = ''https://'' @ h @ p, cu_scheme = ''https'', cu_host = Some h, cu_path = p\<rparr>"

abbreviation demo_before :: "fake_call list" where
  "demo_before \<equiv> [FSubmit (entry_on ''e.test'' ''/a'') 5, FSubmit (entry_on ''e.test'' ''/b'') 5, FTick id id 6, FSubmit (entry_on ''f.test'' ''/c'') 7]"

abbreviation demo_after :: "fake_call list" where
  "demo_after \<equiv> [FSubmit (entry_on ''e.test'' ''/d'') 8, FTick id id 9]"

lemmas demo_fake_simps = demo_fake_def fake_new_def entry_on_def fake_submit_def fake_assert_owned_def shard_key_def from_canonical_def
  fake_enqueue_def shard_state_default_def push_queue_def or_insert_def fake_tick_def on_shards_def fake_tick_shard_def fake_promote_def
  fake_reclaim_def fake_claim_def sweep_order_def pop_one_ready_def fake_lease_timeout_def seed_entry_def Let_def


end
