(* ===== verification/Fetcher.thy ===== *)
theory Fetcher
  imports Failure_Classes "HOL-Library.AList"
begin

text \<open>
  \<^verbatim>\<open>crawlrs-fetch\<close> and the fake fetcher of \<^verbatim>\<open>crawlrs-fakes/src/fetcher.rs\<close>: one HTTP fetch, the proxy it
  goes through and the cap on its body. The HTTP client (\<^verbatim>\<open>wreq\<close>) and the proxy resolver are parameters:
  functions on a state \<open>'s\<close>. A response body arrives as a stream of chunks that need not end, so reading it
  is a partial function. Metrics are left out.
\<close>

subsection \<open>Classifiers\<close>

definition fetch_kind :: "canonical_url \<Rightarrow> string" where
  "fetch_kind url = (if cu_path url = ''/robots.txt'' then ''robots'' else ''page'')"

definition status_class :: "nat \<Rightarrow> string" where
  "status_class status =
     (if 200 \<le> status \<and> status \<le> 299 then ''2xx'' else if 300 \<le> status \<and> status \<le> 399 then ''3xx''
      else if 400 \<le> status \<and> status \<le> 499 then ''4xx'' else if 500 \<le> status \<and> status \<le> 599 then ''5xx'' else ''other'')"

text \<open>\<open>value.split(';').next()\<close>, trimmed\<close>

definition main_type :: "string \<Rightarrow> string" where
  "main_type v = trim (takeWhile (\<lambda>c. c \<noteq> CHR '';'') v)"

definition content_type :: "string option \<Rightarrow> string" where
  "content_type header =
     (case header of None \<Rightarrow> ''unknown''
      | Some value \<Rightarrow>
          let t = main_type value
          in if t = [] then ''unknown''
             else if eq_ignore_ascii_case t ''text/html'' \<or> eq_ignore_ascii_case t ''application/xhtml+xml'' then ''html''
             else ''non_html'')"



subsection \<open>Proxies\<close>

record proxy_selection =
  px_url :: string
  px_extra_headers :: "(string \<times> string) list"

datatype proxy_outcome = PxSuccess | PxBanned | PxTimeout | PxNetworkError

record 's proxy_resolver =
  pr_ca_pem :: "string option"
  pr_resolve :: "fetch_request \<Rightarrow> 's \<Rightarrow> (crawl_error + proxy_selection option) \<times> 's"
  pr_report :: "proxy_selection \<Rightarrow> proxy_outcome \<Rightarrow> 's \<Rightarrow> 's"

text \<open>The built-in resolvers. \<open>proxy_all\<close> is \<open>wreq::Proxy::all\<close>: the text of its error, or nothing.\<close>

definition validate_proxy_url :: "(string \<Rightarrow> string option) \<Rightarrow> string \<Rightarrow> crawl_error + unit" where
  "validate_proxy_url proxy_all url =
     (case proxy_all url of None \<Rightarrow> Inr ()
      | Some err \<Rightarrow> Inl (EFetch (''invalid proxy url '' @ url @ '': '' @ err)))"

definition no_proxy_resolver :: "'s proxy_resolver" where
  "no_proxy_resolver = \<lparr>pr_ca_pem = None, pr_resolve = (\<lambda>_ s. (Inr None, s)), pr_report = (\<lambda>_ _ s. s)\<rparr>"

definition env_proxy_vars :: "string list" where
  "env_proxy_vars = [''HTTPS_PROXY'', ''https_proxy'', ''HTTP_PROXY'', ''http_proxy'', ''ALL_PROXY'', ''all_proxy'']"

text \<open>\<open>env\<close> is the environment: \<open>None\<close> for a variable that is not set or not Unicode.\<close>

fun first_set :: "(string \<Rightarrow> string option) \<Rightarrow> string list \<Rightarrow> string option" where
  "first_set env [] = None"
| "first_set env (v # vs) = (case env v of Some x \<Rightarrow> Some x | None \<Rightarrow> first_set env vs)"

definition env_proxy_new :: "(string \<Rightarrow> string option) \<Rightarrow> (string \<Rightarrow> string option) \<Rightarrow> crawl_error + string option" where
  "env_proxy_new proxy_all env =
     (let url = (case first_set env env_proxy_vars of Some raw \<Rightarrow> if raw \<noteq> [] then Some raw else None | None \<Rightarrow> None) in
      case url of None \<Rightarrow> Inr None
      | Some raw \<Rightarrow> (case validate_proxy_url proxy_all raw of Inl e \<Rightarrow> Inl e | Inr _ \<Rightarrow> Inr url))"

definition env_proxy_resolver :: "string option \<Rightarrow> 's proxy_resolver" where
  "env_proxy_resolver url =
     \<lparr>pr_ca_pem = None,
      pr_resolve = (\<lambda>_ s. (Inr (map_option (\<lambda>u. \<lparr>px_url = u, px_extra_headers = []\<rparr>) url), s)),
      pr_report = (\<lambda>_ _ s. s)\<rparr>"

record gateway_proxy =
  gp_url :: string
  gp_header_fn :: "(fetch_request \<Rightarrow> (string \<times> string) list) option"
  gp_ca_pem :: "string option"

definition gateway_new :: "(string \<Rightarrow> string option) \<Rightarrow> string \<Rightarrow> crawl_error + gateway_proxy" where
  "gateway_new proxy_all url =
     (case validate_proxy_url proxy_all url of Inl e \<Rightarrow> Inl e
      | Inr _ \<Rightarrow> Inr \<lparr>gp_url = url, gp_header_fn = None, gp_ca_pem = None\<rparr>)"

definition gateway_with_header_fn :: "(fetch_request \<Rightarrow> (string \<times> string) list) \<Rightarrow> gateway_proxy \<Rightarrow> gateway_proxy" where
  "gateway_with_header_fn f g = g\<lparr>gp_header_fn := Some f\<rparr>"

definition gateway_with_ca_pem :: "string \<Rightarrow> gateway_proxy \<Rightarrow> gateway_proxy" where
  "gateway_with_ca_pem pem g = g\<lparr>gp_ca_pem := Some pem\<rparr>"

definition gateway_resolver :: "gateway_proxy \<Rightarrow> 's proxy_resolver" where
  "gateway_resolver g =
     \<lparr>pr_ca_pem = gp_ca_pem g,
      pr_resolve = (\<lambda>request s. (Inr (Some \<lparr>px_url = gp_url g,
        px_extra_headers = (case gp_header_fn g of Some compute_headers \<Rightarrow> compute_headers request | None \<Rightarrow> [])\<rparr>), s)),
      pr_report = (\<lambda>_ _ s. s)\<rparr>"

subsection \<open>Configuration and the client\<close>

record 's fetcher_config =
  fc_emulation :: "string option"
  fc_user_agent :: "string option"
  fc_default_timeout :: duration
  fc_connect_timeout :: duration
  fc_read_timeout :: duration
  fc_max_redirects :: nat
  fc_pool_max_idle_per_host :: nat
  fc_max_body_bytes :: u64
  fc_proxy :: "'s proxy_resolver"

definition fetcher_config_default :: "'s fetcher_config" where
  "fetcher_config_default =
     \<lparr>fc_emulation = None, fc_user_agent = None, fc_default_timeout = 60 * NANOS, fc_connect_timeout = 10 * NANOS,
      fc_read_timeout = 30 * NANOS, fc_max_redirects = 5, fc_pool_max_idle_per_host = 0,
      fc_max_body_bytes = 32 * 1024 * 1024, fc_proxy = no_proxy_resolver\<rparr>"

text \<open>What the client is built with.\<close>

record client_settings =
  cl_connect_timeout :: duration
  cl_read_timeout :: duration
  cl_timeout :: duration
  cl_tcp_keepalive :: duration
  cl_tcp_nodelay :: bool
  cl_pool_max_idle_per_host :: nat
  cl_redirect_limit :: nat
  cl_emulation :: "string option"
  cl_user_agent :: "string option"
  cl_trusted_ca :: "string option"

text \<open>\<open>pem_error\<close> and \<open>build_error\<close> are the texts of the client library's errors, if it has one.\<close>

definition fetcher_new ::
  "(string \<Rightarrow> string option) \<Rightarrow> (client_settings \<Rightarrow> string option) \<Rightarrow> 's fetcher_config \<Rightarrow> crawl_error + client_settings" where
  "fetcher_new pem_error build_error config =
     (let b = \<lparr>cl_connect_timeout = fc_connect_timeout config, cl_read_timeout = fc_read_timeout config,
               cl_timeout = fc_default_timeout config, cl_tcp_keepalive = 30 * NANOS, cl_tcp_nodelay = True,
               cl_pool_max_idle_per_host = fc_pool_max_idle_per_host config, cl_redirect_limit = fc_max_redirects config,
               cl_emulation = None, cl_user_agent = None, cl_trusted_ca = None\<rparr>;
          b = (case fc_emulation config of Some e \<Rightarrow> b\<lparr>cl_emulation := Some e\<rparr> | None \<Rightarrow> b);
          b = (case fc_user_agent config of Some ua \<Rightarrow> b\<lparr>cl_user_agent := Some ua\<rparr> | None \<Rightarrow> b);
          checked = (case pr_ca_pem (fc_proxy config) of None \<Rightarrow> Inr b
            | Some pem \<Rightarrow> (case pem_error pem of Some err \<Rightarrow> Inl (EFetch (''invalid CA PEM from proxy resolver: '' @ err))
                | None \<Rightarrow> Inr (b\<lparr>cl_trusted_ca := Some pem\<rparr>)))
      in case checked of Inl e \<Rightarrow> Inl e
         | Inr b \<Rightarrow> (case build_error b of Some err \<Rightarrow> Inl (EFetch (''wreq client build failed: '' @ err)) | None \<Rightarrow> Inr b))"

subsection \<open>One fetch\<close>

record wreq_error =
  we_timeout :: bool
  we_tls :: bool
  we_connection_reset :: bool
  we_connect :: bool
  we_text :: string

record wreq_request =
  wq_url :: string
  wq_timeout :: duration
  wq_random_emulation :: bool
  wq_headers :: "(string \<times> string) list"
  wq_proxy :: "string option"

record history_entry =
  he_previous :: string
  he_uri :: string
  he_status :: nat

text \<open>A header value is \<open>None\<close> when it is not visible ASCII. The stream is over at the first \<open>None\<close>.\<close>

record wreq_response =
  wr_status :: nat
  wr_uri :: string
  wr_headers :: "(string \<times> string option) list"
  wr_content_length :: "u64 option"
  wr_history :: "history_entry list option"
  wr_stream :: "nat \<Rightarrow> (wreq_error + string) option"

definition classify_outcome :: "nat \<Rightarrow> proxy_outcome" where
  "classify_outcome status = (if status = 403 \<or> status = 429 then PxBanned else PxSuccess)"

definition classify_wreq_error :: "wreq_error \<Rightarrow> failure_kind" where
  "classify_wreq_error err =
     (if we_timeout err then FkTimeout else if we_tls err then TlsError
      else if we_connection_reset err \<or> we_connect err then ConnectReset else FkOther)"

text \<open>The capacity the body buffer starts with.\<close>

definition body_preset :: "(string \<times> string option) list \<Rightarrow> u64 \<Rightarrow> nat" where
  "body_preset headers cap =
     (case map_of headers ''content-length'' of
        Some (Some v) \<Rightarrow> (case parse_uint U64_MAX v of Some n \<Rightarrow> min n cap | None \<Rightarrow> 0)
      | _ \<Rightarrow> 0)"

partial_function (option) read_loop ::
  "(nat \<Rightarrow> (wreq_error + string) option) \<Rightarrow> u64 \<Rightarrow> string \<Rightarrow> nat \<Rightarrow> string \<Rightarrow> (crawl_error + string) option" where
  "read_loop stream cap url n buf =
     (case stream n of None \<Rightarrow> Some (Inr buf)
      | Some (Inl err) \<Rightarrow> Some (Inl (ETransport (classify_wreq_error err) (''body read from '' @ url @ '' failed: '' @ we_text err)))
      | Some (Inr chunk) \<Rightarrow>
          if min (length buf + length chunk) U64_MAX > cap
          then Some (Inl (EFetch (''response body from '' @ url @ '' exceeds cap of '' @ show_nat cap @ '' bytes during streaming'')))
          else read_loop stream cap url (n + 1) (buf @ chunk))"

definition read_body :: "wreq_response \<Rightarrow> u64 \<Rightarrow> string \<Rightarrow> (crawl_error + string) option" where
  "read_body response cap url = read_loop (wr_stream response) cap url 0 []"

text \<open>
  The world of a fetch: the client's \<open>send\<close>, \<open>Proxy::all\<close>, the two clocks, and the order in which a hash map
  of headers is walked.
\<close>

record ('u, 's) fetch_env =
  fe_url :: "'u url_ops"
  fe_send :: "wreq_request \<Rightarrow> 's \<Rightarrow> (wreq_error + wreq_response) \<times> 's"
  fe_proxy_all :: "string \<Rightarrow> string option"
  fe_utc_now :: "'s \<Rightarrow> u64"
  fe_instant :: "'s \<Rightarrow> nat"
  fe_map_order :: "(string \<times> string) list \<Rightarrow> (string \<times> string) list"

definition collect_headers :: "(string \<times> string option) list \<Rightarrow> (string \<times> string) list" where
  "collect_headers hs = fold (\<lambda>(name, v) m. case v of Some x \<Rightarrow> AList.update name x m | None \<Rightarrow> m) hs []"

definition parse_or :: "'u url_ops \<Rightarrow> canonical_url \<Rightarrow> string \<Rightarrow> canonical_url" where
  "parse_or U requested s = (case url_parse U s of Inr u \<Rightarrow> view_of U u | Inl _ \<Rightarrow> requested)"

definition redirect_chain_of :: "'u url_ops \<Rightarrow> canonical_url \<Rightarrow> history_entry list option \<Rightarrow> redirect_hop list" where
  "redirect_chain_of U requested history =
     (case history of None \<Rightarrow> []
      | Some hs \<Rightarrow> map (\<lambda>h. \<lparr>hop_from = parse_or U requested (he_previous h), hop_to = parse_or U requested (he_uri h),
                          hop_status = he_status h\<rparr>) hs)"

definition report_opt :: "'s fetcher_config \<Rightarrow> proxy_selection option \<Rightarrow> proxy_outcome \<Rightarrow> 's \<Rightarrow> 's" where
  "report_opt config sel outcome s = (case sel of Some p \<Rightarrow> pr_report (fc_proxy config) p outcome s | None \<Rightarrow> s)"

definition build_request :: "'s fetcher_config \<Rightarrow> fetch_request \<Rightarrow> proxy_selection option \<Rightarrow> wreq_request" where
  "build_request config request sel =
     \<lparr>wq_url = cu_str (fq_url request), wq_timeout = fq_timeout request, wq_random_emulation = (fc_emulation config = None),
      wq_headers = fq_headers request @ (case sel of Some p \<Rightarrow> px_extra_headers p | None \<Rightarrow> []),
      wq_proxy = map_option px_url sel\<rparr>"

text \<open>The arm of a response whose headers have arrived.\<close>

definition fetch_received ::
  "('u, 's) fetch_env \<Rightarrow> 's fetcher_config \<Rightarrow> fetch_request \<Rightarrow> proxy_selection option \<Rightarrow> u64 \<Rightarrow> nat \<Rightarrow> wreq_response \<Rightarrow> 's \<Rightarrow>
   ((crawl_error + fetch_response) \<times> 's) option" where
  "fetch_received env config request sel started_at start_instant response s =
     (let status_code = wr_status response;
          response_headers = fe_map_order env (collect_headers (wr_headers response));
          cap = fc_max_body_bytes config in
      if (case wr_content_length response of Some n \<Rightarrow> n > cap | None \<Rightarrow> False) then
        Some (Inl (EFetch (''response body content-length '' @ show_nat (the (wr_content_length response)) @ '' exceeds cap '' @ show_nat cap)),
              report_opt config sel (classify_outcome status_code) s)
      else case read_body response cap (cu_str (fq_url request)) of
        None \<Rightarrow> None
      | Some (Inl read_error) \<Rightarrow> Some (Inl read_error, report_opt config sel PxNetworkError s)
      | Some (Inr body) \<Rightarrow>
          (let s' = report_opt config sel (classify_outcome status_code) s in
           Some (Inr \<lparr>fr_url = parse_or (fe_url env) (fq_url request) (wr_uri response), fr_status = status_code,
                      fr_headers = response_headers, fr_body = body,
                      fr_redirect_chain = redirect_chain_of (fe_url env) (fq_url request) (wr_history response),
                      fr_fetched_at = started_at, fr_duration = fe_instant env s' - start_instant\<rparr>, s')))"

text \<open>\<open>fetch\<close>; \<open>None\<close> is a body that never ends.\<close>

definition wreq_fetch ::
  "('u, 's) fetch_env \<Rightarrow> 's fetcher_config \<Rightarrow> fetch_request \<Rightarrow> 's \<Rightarrow> ((crawl_error + fetch_response) \<times> 's) option" where
  "wreq_fetch env config request s =
     (let started_at = fe_utc_now env s; start_instant = fe_instant env s in
      case pr_resolve (fc_proxy config) request s of
        (Inl e, s) \<Rightarrow> Some (Inl e, s)
      | (Inr sel, s) \<Rightarrow>
          (case (case sel of None \<Rightarrow> None | Some p \<Rightarrow> fe_proxy_all env (px_url p)) of
             Some err \<Rightarrow> Some (Inl (EFetch (''invalid proxy url '' @ px_url (the sel) @ '': '' @ err)), s)
           | None \<Rightarrow>
               (case fe_send env (build_request config request sel) s of
                  (Inr response, s) \<Rightarrow> fetch_received env config request sel started_at start_instant response s
                | (Inl send_error, s) \<Rightarrow>
                    Some (Inl (ETransport (classify_wreq_error send_error)
                                 (''request to '' @ cu_str (fq_url request) @ '' failed: '' @ we_text send_error)),
                          report_opt config sel (if we_timeout send_error then PxTimeout else PxNetworkError) s))))"


subsection \<open>The fake fetcher\<close>

record fake_fetcher =
  fx_responses :: "string \<rightharpoonup> fetch_response"
  fx_calls :: "string list"

definition fake_fetcher_new :: fake_fetcher where
  "fake_fetcher_new = \<lparr>fx_responses = Map.empty, fx_calls = []\<rparr>"

text \<open>Installing a response; \<open>None\<close> is the panic on a URL that does not parse.\<close>

definition fake_install ::
  "'u url_ops \<Rightarrow> u64 \<Rightarrow> string \<Rightarrow> nat \<Rightarrow> (string \<times> string) list \<Rightarrow> string \<Rightarrow> fake_fetcher \<Rightarrow> fake_fetcher option" where
  "fake_install U now url status headers body f =
     (case url_parse U url of Inl _ \<Rightarrow> None
      | Inr canon \<Rightarrow> Some (f\<lparr>fx_responses := (fx_responses f)(url \<mapsto>
          \<lparr>fr_url = view_of U canon, fr_status = status, fr_headers = headers, fr_body = body, fr_redirect_chain = [],
           fr_fetched_at = now, fr_duration = 0\<rparr>)\<rparr>))"

definition install_html :: "'u url_ops \<Rightarrow> u64 \<Rightarrow> string \<Rightarrow> string \<Rightarrow> fake_fetcher \<Rightarrow> fake_fetcher option" where
  "install_html U now url body = fake_install U now url 200 [(''content-type'', ''text/html'')] body"

definition install_response :: "'u url_ops \<Rightarrow> u64 \<Rightarrow> string \<Rightarrow> nat \<Rightarrow> string \<Rightarrow> fake_fetcher \<Rightarrow> fake_fetcher option" where
  "install_response U now url status body = fake_install U now url status [] body"

definition install_status_with_headers ::
  "'u url_ops \<Rightarrow> u64 \<Rightarrow> string \<Rightarrow> nat \<Rightarrow> (string \<times> string) list \<Rightarrow> fake_fetcher \<Rightarrow> fake_fetcher option" where
  "install_status_with_headers U now url status headers = fake_install U now url status headers []"

definition install_status :: "'u url_ops \<Rightarrow> u64 \<Rightarrow> string \<Rightarrow> nat \<Rightarrow> fake_fetcher \<Rightarrow> fake_fetcher option" where
  "install_status U now url status = install_status_with_headers U now url status []"

definition fake_fetch :: "fetch_request \<Rightarrow> fake_fetcher \<Rightarrow> (crawl_error + fetch_response) \<times> fake_fetcher" where
  "fake_fetch req f =
     (let url = cu_str (fq_url req); f = f\<lparr>fx_calls := fx_calls f @ [url]\<rparr>
      in (case fx_responses f url of Some resp \<Rightarrow> Inr resp
          | None \<Rightarrow> Inl (EFetch (''FakeFetcher: no canned response for '' @ url)), f))"

subsection \<open>Reading a body\<close>

text \<open>The chunks \<open>cs\<close> of a stream from its position \<open>n\<close> on.\<close>

definition streams :: "(nat \<Rightarrow> (wreq_error + string) option) \<Rightarrow> nat \<Rightarrow> string list \<Rightarrow> bool" where
  "streams stream n cs \<longleftrightarrow> (\<forall>i < length cs. stream (n + i) = Some (Inr (cs ! i))) \<and> stream (n + length cs) = None"

lemma streams_Nil [simp]: "streams stream n [] \<longleftrightarrow> stream n = None"
  by (simp add: streams_def)

lemma streams_Cons [simp]: "streams stream n (c # cs) \<longleftrightarrow> stream n = Some (Inr c) \<and> streams stream (Suc n) cs"
  by (auto simp: streams_def less_Suc_eq_0_disj)

text \<open>What is read is the whole stream and fits the cap.\<close>

lemma read_loop_whole:
  assumes "read_loop stream cap url n buf = Some (Inr b)"
  shows "(\<exists>cs. streams stream n cs \<and> b = buf @ concat cs) \<and> (length buf \<le> cap \<longrightarrow> cap < U64_MAX \<longrightarrow> length b \<le> cap)"
proof -
  let ?P = "\<lambda>stream cap (url :: string) n buf (r :: crawl_error + string). \<forall>b. r = Inr b \<longrightarrow>
    (\<exists>cs. streams stream n cs \<and> b = buf @ concat cs) \<and> (length buf \<le> cap \<longrightarrow> cap < U64_MAX \<longrightarrow> length b \<le> cap)"
  have "?P stream cap url n buf (Inr b)"
  proof (rule read_loop.raw_induct [where P = ?P, OF _ assms])
    fix rl stream cap url n buf r
    assume IH: "\<And>stream cap url n buf r. rl stream cap url n buf = Some r \<Longrightarrow> ?P stream cap url n buf r"
      and r: "(case stream n of None \<Rightarrow> Some (Inr buf)
        | Some (Inl err) \<Rightarrow> Some (Inl (ETransport (classify_wreq_error err) (''body read from '' @ url @ '' failed: '' @ we_text err)))
        | Some (Inr chunk) \<Rightarrow> if cap < min (length buf + length chunk) U64_MAX
            then Some (Inl (EFetch (''response body from '' @ url @ '' exceeds cap of '' @ show_nat cap @ '' bytes during streaming'')))
            else rl stream cap url (n + 1) (buf @ chunk)) = Some r"
    consider (stop) "stream n = None" | (err) e where "stream n = Some (Inl e)" | (chunk) c where "stream n = Some (Inr c)"
      by (metis option.exhaust sum.exhaust)
    then show "?P stream cap url n buf r"
    proof cases
      case chunk
      have "\<exists>cs. streams stream n cs \<and> (buf @ c) @ concat ds = buf @ concat cs" if "streams stream (n + 1) ds" for ds
        using that chunk by (intro exI [of _ "c # ds"]) simp
      then show ?thesis
        using r chunk IH [of stream cap url "n + 1" "buf @ c" r] by (fastforce split: if_splits)
    qed (use r in \<open>auto intro: exI [of _ "[]"]\<close>)
  qed
  then show ?thesis by blast
qed

lemma read_loop_total:
  assumes "\<forall>k. stream k \<noteq> Some (Inr [])" "cap < U64_MAX" "length buf \<le> cap"
  shows "\<exists>r. read_loop stream cap url n buf = Some r"
  using assms(3)
proof (induction "cap - length buf" arbitrary: n buf rule: less_induct)
  case less
  show ?case
  proof (cases "stream n")
    case (Some x)
    show ?thesis
    proof (cases x)
      case (Inr chunk)
      then have "chunk \<noteq> []" using assms(1) Some by auto
      then have "\<exists>r. read_loop stream cap url (n + 1) (buf @ chunk) = Some r" if "length buf + length chunk \<le> cap"
        using that by (intro less) (auto simp: neq_Nil_conv)
      then show ?thesis
        using Some Inr assms(2) by (subst read_loop.simps) (auto simp: min_def)
    qed (use Some in \<open>simp add: read_loop.simps\<close>)
  qed (simp add: read_loop.simps)
qed

lemma read_loop_exact:
  "streams stream n cs \<Longrightarrow> length buf + length (concat cs) \<le> cap \<Longrightarrow> read_loop stream cap url n buf = Some (Inr (buf @ concat cs))"
  by (induction cs arbitrary: n buf) (simp_all add: read_loop.simps)


subsection \<open>Properties\<close>

text \<open>The verdict a proxy gets for what the client answered.\<close>

definition proxy_verdict :: "u64 \<Rightarrow> string \<Rightarrow> wreq_error + wreq_response \<Rightarrow> proxy_outcome" where
  "proxy_verdict cap url answer =
     (case answer of Inl e \<Rightarrow> if we_timeout e then PxTimeout else PxNetworkError
      | Inr response \<Rightarrow>
          if (case wr_content_length response of Some n \<Rightarrow> n > cap | None \<Rightarrow> False) then classify_outcome (wr_status response)
          else case read_body response cap url of Some (Inl _) \<Rightarrow> PxNetworkError | _ \<Rightarrow> classify_outcome (wr_status response))"

lemma received_body:
  assumes "fetch_received env config request sel t i response s = Some (Inr resp, s')"
  shows "read_body response (fc_max_body_bytes config) (cu_str (fq_url request)) = Some (Inr (fr_body resp))"
  using assms by (auto simp: fetch_received_def Let_def split: if_splits option.splits sum.splits)

lemma received_total:
  assumes "read_body response (fc_max_body_bytes config) (cu_str (fq_url request)) = Some r"
  shows "\<exists>x s'. fetch_received env config request sel t i response s = Some (x, s')"
  using assms by (auto simp: fetch_received_def Let_def split: option.split sum.split)

text \<open>A fetch fails before there is a response, or the client's response decides it.\<close>

lemma fetch_cases:
  obtains (early) e s' where "wreq_fetch env config request s = Some (Inl e, s')"
  | (received) sel s1 response s2 t i where "pr_resolve (fc_proxy config) request s = (Inr sel, s1)"
      "fe_send env (build_request config request sel) s1 = (Inr response, s2)"
      "wreq_fetch env config request s = fetch_received env config request sel t i response s2"
proof -
  obtain r s1 where r: "pr_resolve (fc_proxy config) request s = (r, s1)" by (metis surj_pair)
  show thesis
  proof (cases r)
    case (Inr sel)
    obtain a s2 where a: "fe_send env (build_request config request sel) s1 = (a, s2)" by (metis surj_pair)
    show thesis
    proof (cases "case sel of None \<Rightarrow> None | Some p \<Rightarrow> fe_proxy_all env (px_url p)")
      case None
      show thesis
      proof (cases a)
        case (Inl e)
        then show thesis using that(1) r Inr a None by (simp add: wreq_fetch_def Let_def)
      next
        case (Inr response)
        then have "wreq_fetch env config request s =
            fetch_received env config request sel (fe_utc_now env s) (fe_instant env s) response s2"
          using r \<open>r = Inr sel\<close> a None by (simp add: wreq_fetch_def Let_def)
        then show thesis using that(2) r \<open>r = Inr sel\<close> a Inr by blast
      qed
    qed (use that(1) r Inr in \<open>simp add: wreq_fetch_def Let_def\<close>)
  qed (use r that(1) in \<open>simp add: wreq_fetch_def Let_def\<close>)
qed


text \<open>C32: the resolver hears of every fetch that went through its proxy exactly once, after the answer: a send error
  is a timeout or a network error, a delivered response is judged by its status, and a body that could not
  be read counts as a network error.\<close>

theorem fetch_reports_proxy_once:
  assumes "pr_resolve (fc_proxy config) request s = (Inr (Some p), s1)" "fe_proxy_all env (px_url p) = None"
    and "fe_send env (build_request config request (Some p)) s1 = (answer, s2)"
    and "wreq_fetch env config request s = Some (r, s')"
  shows "s' = pr_report (fc_proxy config) p (proxy_verdict (fc_max_body_bytes config) (cu_str (fq_url request)) answer) s2"
proof (cases answer)
  case (Inl e)
  then show ?thesis using assms by (simp add: wreq_fetch_def Let_def report_opt_def proxy_verdict_def)
next
  case (Inr response)
  then have "fetch_received env config request (Some p) (fe_utc_now env s) (fe_instant env s) response s2 = Some (r, s')"
    using assms by (simp add: wreq_fetch_def Let_def)
  then show ?thesis
    using Inr by (auto simp: fetch_received_def Let_def report_opt_def proxy_verdict_def split: if_splits option.splits sum.splits)
qed


text \<open>A server that streams for ever, through a proxy whose resolver logs its reports.\<close>

definition endless_env :: "(ref_url, proxy_outcome list) fetch_env" where
  "endless_env =
     \<lparr>fe_url = ref_url_ops,
      fe_send = (\<lambda>_ s. (Inr \<lparr>wr_status = 200, wr_uri = ''https://e.test/'', wr_headers = [], wr_content_length = None, wr_history = None,
                            wr_stream = (\<lambda>_. Some (Inr ''ab''))\<rparr>, s)),
      fe_proxy_all = (\<lambda>_. None), fe_utc_now = (\<lambda>_. 7), fe_instant = length, fe_map_order = id\<rparr>"

definition logging_config :: "proxy_outcome list fetcher_config" where
  "logging_config = fetcher_config_default\<lparr>fc_max_body_bytes := 5,
     fc_proxy := \<lparr>pr_ca_pem = None, pr_resolve = (\<lambda>_ s. (Inr (Some \<lparr>px_url = ''http://p'', px_extra_headers = []\<rparr>), s)),
                 pr_report = (\<lambda>_ o' s. s @ [o'])\<rparr>\<rparr>"

definition demo_request :: fetch_request where
  "demo_request = fetch_request_new \<lparr>cu_str = ''https://e.test/'', cu_scheme = ''https'', cu_host = Some ''e.test'', cu_path = ''/''\<rparr>"

lemma logging_config_sel [simp]:
  "fc_max_body_bytes logging_config = 5"
  "pr_resolve (fc_proxy logging_config) q s = (Inr (Some \<lparr>px_url = ''http://p'', px_extra_headers = []\<rparr>), s)"
  "pr_report (fc_proxy logging_config) p v s = s @ [v]"
  by (simp_all add: logging_config_def)

lemma endless_env_sel [simp]:
  "fe_send endless_env q s = (Inr \<lparr>wr_status = 200, wr_uri = ''https://e.test/'', wr_headers = [], wr_content_length = None,
     wr_history = None, wr_stream = (\<lambda>_. Some (Inr ''ab''))\<rparr>, s)"
  "fe_proxy_all endless_env x = None"
  by (simp_all add: endless_env_def)


theorem fetch_reports_proxy_once_witness:
  "\<exists>r. wreq_fetch endless_env logging_config demo_request [] = Some (r, [PxNetworkError])"
proof -
  obtain r s' where r: "wreq_fetch endless_env logging_config demo_request [] = Some (r, s')"
    by (simp add: wreq_fetch_def fetch_received_def read_body_def read_loop.simps Let_def)
  have "s' = [PxNetworkError]"
    using fetch_reports_proxy_once [OF _ _ _ r, of "\<lparr>px_url = ''http://p'', px_extra_headers = []\<rparr>" "[]"]
    by (simp add: proxy_verdict_def read_body_def read_loop.simps)
  then show ?thesis using r by blast
qed

end
