(* ===== verification/Html_Parser.thy ===== *)
theory Html_Parser
  imports Fetcher "HOL-Library.Sublist"
begin

text \<open>
  \<^verbatim>\<open>crawlrs-parse\<close>: what is taken from a page. The streaming tokenizer (\<^verbatim>\<open>lol_html\<close>) is a parameter: the
  sequence of handler calls it makes on a body. The handlers, the whitespace collapsing, the link
  resolution with its filters and the deny list of extensions are the program's own. Strings are UTF-8
  bytes; \<open>chars\<close> splits them into scalars where the code walks over characters.
\<close>

subsection \<open>Characters\<close>

definition utf8_width :: "char \<Rightarrow> nat" where
  "utf8_width c = (let b = of_char c :: nat in if b < 192 then 1 else if b < 224 then 2 else if b < 240 then 3 else 4)"

lemma utf8_width_pos [simp]: "0 < utf8_width c"
  by (simp add: utf8_width_def Let_def)

function chars :: "string \<Rightarrow> string list" where
  "chars [] = []"
| "chars (c # cs) = take (utf8_width c) (c # cs) # chars (drop (utf8_width c) (c # cs))"
  by pat_completeness auto
termination
  by (relation "measure length") (auto simp: utf8_width_def Let_def)

text \<open>\<open>char::is_whitespace\<close> on the UTF-8 form of a scalar\<close>

definition is_whitespace :: "string \<Rightarrow> bool" where
  "is_whitespace ch =
     (case map of_char ch :: nat list of
        [b] \<Rightarrow> (9 \<le> b \<and> b \<le> 13) \<or> b = 32
      | [b, c] \<Rightarrow> b = 194 \<and> (c = 133 \<or> c = 160)
      | [b, c, d] \<Rightarrow> (b = 225 \<and> c = 154 \<and> d = 128) \<or> (b = 226 \<and> c = 128 \<and> ((128 \<le> d \<and> d \<le> 138) \<or> d = 168 \<or> d = 169 \<or> d = 175)) \<or>
          (b = 226 \<and> c = 129 \<and> d = 159) \<or> (b = 227 \<and> c = 128 \<and> d = 128)
      | _ \<Rightarrow> False)"

definition str_trim_start :: "string \<Rightarrow> string" where
  "str_trim_start s = concat (dropWhile is_whitespace (chars s))"

definition str_trim_end :: "string \<Rightarrow> string" where
  "str_trim_end s = concat (rev (dropWhile is_whitespace (rev (chars s))))"

definition str_trim :: "string \<Rightarrow> string" where
  "str_trim s = str_trim_start (str_trim_end s)"

subsection \<open>Denied extensions\<close>

definition DENY_EXTENSIONS :: "string list" where
  "DENY_EXTENSIONS =
    [''7z'', ''7zip'', ''bz2'', ''gz'', ''rar'', ''tar'', ''xz'', ''zip'',
     ''ai'', ''bmp'', ''cdr'', ''drw'', ''dxf'', ''eps'', ''gif'', ''ico'', ''jpeg'', ''jpg'', ''mng'', ''pct'', ''png'',
     ''ps'', ''psp'', ''pst'', ''svg'', ''tif'', ''tiff'', ''webp'',
     ''aac'', ''aiff'', ''au'', ''mid'', ''mp3'', ''ogg'', ''ra'', ''wav'', ''wma'',
     ''3gp'', ''asf'', ''asx'', ''avi'', ''flv'', ''m4a'', ''m4v'', ''mov'', ''mp4'', ''mpg'', ''qt'', ''rm'', ''swf'',
     ''webm'', ''wmv'',
     ''doc'', ''docb'', ''docm'', ''docx'', ''dotm'', ''dotx'', ''odg'', ''odp'', ''ods'', ''odt'', ''potm'', ''potx'',
     ''pps'', ''ppt'', ''pptm'', ''pptx'', ''xls'', ''xlsm'', ''xltm'', ''xltx'', ''xlsx'',
     ''apk'', ''bat'', ''bin'', ''cpl'', ''css'', ''dmg'', ''exe'', ''hta'', ''iso'', ''jar'', ''js'', ''msi'', ''msp'', ''pdf'',
     ''py'', ''rb'', ''rss'', ''sh'']"

text \<open>\<open>path.rsplit('/').find(|seg| !seg.is_empty())\<close> and the part after \<open>rfind('.')\<close>\<close>

definition last_segment :: "string \<Rightarrow> string option" where
  "last_segment path =
     (let r = dropWhile (\<lambda>c. c = CHR ''/'') (rev path)
      in if r = [] then None else Some (rev (takeWhile (\<lambda>c. c \<noteq> CHR ''/'') r)))"

definition extension_of :: "string \<Rightarrow> string option" where
  "extension_of seg = (if CHR ''.'' \<in> set seg then Some (rev (takeWhile (\<lambda>c. c \<noteq> CHR ''.'') (rev seg))) else None)"

definition is_ascii_upper :: "char \<Rightarrow> bool" where
  "is_ascii_upper c = (let b = of_char c :: nat in 65 \<le> b \<and> b \<le> 90)"

definition denies :: "string \<Rightarrow> bool" where
  "denies path =
     (case last_segment path of None \<Rightarrow> False
      | Some seg \<Rightarrow>
          (case extension_of seg of None \<Rightarrow> False
           | Some ext \<Rightarrow>
               if ext = [] then False
               else if list_ex is_ascii_upper ext then ascii_lower ext \<in> set DENY_EXTENSIONS
               else ext \<in> set DENY_EXTENSIONS))"

subsection \<open>Extraction\<close>

text \<open>The handler calls: text in a title, an attribute of a \<open>base\<close> or an \<open>a\<close> element, the start of a \<open>script\<close>
  or \<open>style\<close> element (with the error when no end tag can be awaited), its end, and text in the body.\<close>

datatype html_event =
  TitleText string
| BaseElement "string option"
| AnchorElement "string option"
| ExcludedStart "string option"
| ExcludedEnd
| BodyText string

record extracted =
  ex_title :: "string option"
  ex_base_href :: "string option"
  ex_raw_links :: "string list"
  ex_collapsed_text :: string

record extract_state =
  es_out :: extracted
  es_excluded_depth :: nat
  es_last_ws :: bool

definition extract_start :: extract_state where
  "extract_start =
     \<lparr>es_out = \<lparr>ex_title = None, ex_base_href = None, ex_raw_links = [], ex_collapsed_text = []\<rparr>, es_excluded_depth = 0, es_last_ws = True\<rparr>"

fun push_char :: "string \<Rightarrow> string \<times> bool \<Rightarrow> string \<times> bool" where
  "push_char ch (buf, last_ws) =
     (if is_whitespace ch then (if \<not> last_ws then (buf @ '' '', True) else (buf, last_ws)) else (buf @ ch, False))"

fun handle_event :: "html_event \<Rightarrow> extract_state \<Rightarrow> string + extract_state" where
  "handle_event (TitleText chunk) st =
     Inr (st\<lparr>es_out := (es_out st)\<lparr>ex_title := Some (case ex_title (es_out st) of Some t \<Rightarrow> t @ chunk | None \<Rightarrow> chunk)\<rparr>\<rparr>)"
| "handle_event (BaseElement href) st =
     Inr (case href of Some h \<Rightarrow> st\<lparr>es_out := (es_out st)\<lparr>ex_base_href := Some h\<rparr>\<rparr> | None \<Rightarrow> st)"
| "handle_event (AnchorElement href) st =
     Inr (case href of Some h \<Rightarrow> st\<lparr>es_out := (es_out st)\<lparr>ex_raw_links := ex_raw_links (es_out st) @ [h]\<rparr>\<rparr> | None \<Rightarrow> st)"
| "handle_event (ExcludedStart err) st =
     (case err of Some e \<Rightarrow> Inl e | None \<Rightarrow> Inr (st\<lparr>es_excluded_depth := es_excluded_depth st + 1\<rparr>))"
| "handle_event ExcludedEnd st = Inr (st\<lparr>es_excluded_depth := es_excluded_depth st - 1\<rparr>)"
| "handle_event (BodyText chunk) st =
     Inr (if es_excluded_depth st = 0
          then let (buf, ws) = fold push_char (chars chunk) (ex_collapsed_text (es_out st), es_last_ws st)
               in st\<lparr>es_out := (es_out st)\<lparr>ex_collapsed_text := buf\<rparr>, es_last_ws := ws\<rparr>
          else st)"

fun run_events :: "html_event list \<Rightarrow> extract_state \<Rightarrow> string + extract_state" where
  "run_events [] st = Inr st"
| "run_events (ev # evs) st = (case handle_event ev st of Inl e \<Rightarrow> Inl e | Inr st \<Rightarrow> run_events evs st)"

text \<open>The tokenizer: the calls it makes for a body while writing and at its end, and the error, if any,
  it reports after them.\<close>

record tokenizer =
  tk_write :: "string \<Rightarrow> html_event list \<times> string option"
  tk_end :: "string \<Rightarrow> html_event list \<times> string option"

definition run_phase :: "html_event list \<times> string option \<Rightarrow> extract_state \<Rightarrow> string + extract_state" where
  "run_phase p st =
     (case run_events (fst p) st of Inl e \<Rightarrow> Inl e | Inr st \<Rightarrow> (case snd p of Some e \<Rightarrow> Inl e | None \<Rightarrow> Inr st))"

definition extract_html :: "tokenizer \<Rightarrow> string \<Rightarrow> crawl_error + extracted" where
  "extract_html T body =
     (case run_phase (tk_write T body) extract_start of
        Inl err \<Rightarrow> Inl (EParse (''lol_html write failed: '' @ err))
      | Inr st \<Rightarrow>
          (case run_phase (tk_end T body) st of
             Inl err \<Rightarrow> Inl (EParse (''lol_html end failed: '' @ err))
           | Inr st \<Rightarrow>
               let out = es_out st; text = ex_collapsed_text out
               in Inr (if ends_with text '' '' then out\<lparr>ex_collapsed_text := butlast text\<rparr> else out)))"

subsection \<open>Links\<close>

fun resolve_loop :: "'u url_ops \<Rightarrow> 'u \<Rightarrow> string list \<Rightarrow> string list \<Rightarrow> 'u list \<Rightarrow> nat \<Rightarrow> 'u list \<times> nat" where
  "resolve_loop U base [] seen out denied = (out, denied)"
| "resolve_loop U base (href # raw) seen out denied =
     (let trimmed = str_trim href in
      if trimmed = [] \<or> hd trimmed = CHR ''#'' then resolve_loop U base raw seen out denied
      else case url_parse_relative U base trimmed of
        Inl _ \<Rightarrow> resolve_loop U base raw seen out denied
      | Inr resolved \<Rightarrow>
          if \<not> url_is_http U resolved then resolve_loop U base raw seen out denied
          else if denies (op_path U resolved) then resolve_loop U base raw seen out (denied + 1)
          else if op_as_str U resolved \<notin> set seen
            then resolve_loop U base raw (op_as_str U resolved # seen) (out @ [resolved]) denied
          else resolve_loop U base raw seen out denied)"

definition resolve_links :: "'u url_ops \<Rightarrow> string list \<Rightarrow> 'u \<Rightarrow> 'u list \<times> nat" where
  "resolve_links U raw base = resolve_loop U base raw [] [] 0"

subsection \<open>The parser\<close>

definition BINARY_CONTENT_TYPES :: "string list" where
  "BINARY_CONTENT_TYPES =
    [''application/pdf'', ''application/zip'', ''application/gzip'', ''application/x-gzip'', ''application/x-tar'',
     ''application/x-7z-compressed'', ''application/x-rar-compressed'', ''application/x-bzip2'', ''application/octet-stream'',
     ''application/msword'', ''application/vnd.ms-excel'',
     ''application/vnd.openxmlformats-officedocument.wordprocessingml.document'',
     ''application/vnd.openxmlformats-officedocument.spreadsheetml.sheet'',
     ''application/vnd.openxmlformats-officedocument.presentationml.presentation'']"

definition BINARY_CONTENT_TYPE_PREFIXES :: "string list" where
  "BINARY_CONTENT_TYPE_PREFIXES = [''image/'', ''audio/'', ''video/'', ''font/'']"

definition is_binary_content_type :: "string \<Rightarrow> bool" where
  "is_binary_content_type ct =
     (let trimmed = main_type ct in
      if trimmed = [] then False
      else if list_ex (eq_ignore_ascii_case trimmed) BINARY_CONTENT_TYPES then True
      else list_ex (\<lambda>prefix. length prefix \<le> length trimmed \<and> eq_ignore_ascii_case (take (length prefix) trimmed) prefix)
             BINARY_CONTENT_TYPE_PREFIXES)"

text \<open>\<open>valid_utf8\<close> is \<^verbatim>\<open>simdutf8\<close>'s check.\<close>

definition parse_skip_reason :: "(string \<Rightarrow> bool) \<Rightarrow> fetch_response \<Rightarrow> string option" where
  "parse_skip_reason valid_utf8 response =
     (let ct = (case List.find (\<lambda>(name, _). eq_ignore_ascii_case name ''content-type'') (fr_headers response) of
                  Some (_, value) \<Rightarrow> value | None \<Rightarrow> '''')
      in if is_binary_content_type ct then Some ''binary_content_type''
         else if fr_body response \<noteq> [] \<and> \<not> valid_utf8 (fr_body response) then Some ''invalid_utf8''
         else None)"

record 'u parser_env =
  pe_url :: "'u url_ops"
  pe_tokenizer :: tokenizer
  pe_valid_utf8 :: "string \<Rightarrow> bool"

definition effective_base :: "'u url_ops \<Rightarrow> 'u \<Rightarrow> string option \<Rightarrow> 'u" where
  "effective_base U url base_href =
     (case base_href of Some href \<Rightarrow> (case url_parse_relative U url href of Inr base \<Rightarrow> base | Inl _ \<Rightarrow> url) | None \<Rightarrow> url)"

definition trim_title :: "string option \<Rightarrow> string option" where
  "trim_title t = (case t of None \<Rightarrow> None | Some raw \<Rightarrow> let raw = str_trim raw in if raw = [] then None else Some raw)"

text \<open>\<open>parse\<close>; \<open>url\<close> is the URL value behind \<open>fr_url response\<close>.\<close>

definition html_parse :: "'u parser_env \<Rightarrow> 'u \<Rightarrow> fetch_response \<Rightarrow> crawl_error + parsed_document" where
  "html_parse P url response =
     (case parse_skip_reason (pe_valid_utf8 P) response of
        Some _ \<Rightarrow> Inr \<lparr>pd_url = fr_url response, pd_status = fr_status response, pd_title = None, pd_text = None,
                       pd_outbound_links = [], pd_fetched_at = fr_fetched_at response\<rparr>
      | None \<Rightarrow>
          (case extract_html (pe_tokenizer P) (fr_body response) of
             Inl e \<Rightarrow> Inl e
           | Inr ex \<Rightarrow>
               let (links, _) = resolve_links (pe_url P) (ex_raw_links ex) (effective_base (pe_url P) url (ex_base_href ex))
               in Inr \<lparr>pd_url = fr_url response, pd_status = fr_status response, pd_title = trim_title (ex_title ex),
                       pd_text = (if ex_collapsed_text ex = [] then None else Some (ex_collapsed_text ex)),
                       pd_outbound_links = map (view_of (pe_url P)) links, pd_fetched_at = fr_fetched_at response\<rparr>))"


subsection \<open>The deny list\<close>

lemma deny_extensions_plain: "ext \<in> set DENY_EXTENSIONS \<Longrightarrow> ext \<noteq> [] \<and> CHR ''/'' \<notin> set ext \<and> CHR ''.'' \<notin> set ext"
proof -
  have "list_all (\<lambda>ext. ext \<noteq> [] \<and> CHR ''/'' \<notin> set ext \<and> CHR ''.'' \<notin> set ext) DENY_EXTENSIONS"
    by (simp add: DENY_EXTENSIONS_def)
  then show "ext \<in> set DENY_EXTENSIONS \<Longrightarrow> ext \<noteq> [] \<and> CHR ''/'' \<notin> set ext \<and> CHR ''.'' \<notin> set ext"
    by (auto simp: list_all_iff)
qed

lemma ascii_lower_no_upper: "\<not> list_ex is_ascii_upper s \<Longrightarrow> ascii_lower s = s"
  by (induction s) (auto simp: ascii_lower_def ascii_lower_char_def is_ascii_upper_def Let_def)

lemma ascii_lower_plain: "c \<in> set s \<Longrightarrow> \<not> is_ascii_upper c \<Longrightarrow> c \<in> set (ascii_lower s)"
  by (force simp: ascii_lower_def ascii_lower_char_def is_ascii_upper_def Let_def)

lemma extension_denied:
  "(if ext = [] then False else if list_ex is_ascii_upper ext then ascii_lower ext \<in> set DENY_EXTENSIONS else ext \<in> set DENY_EXTENSIONS) =
   (ascii_lower ext \<in> set DENY_EXTENSIONS)"
  using deny_extensions_plain [of "[]"] ascii_lower_no_upper [of ext] by (auto simp: ascii_lower_def)

lemma last_segment_append:
  assumes "CHR ''/'' \<notin> set ext" "set slashes \<subseteq> {CHR ''/''}"
  shows "\<exists>name. last_segment (pre @ CHR ''.'' # ext @ slashes) = Some (name @ CHR ''.'' # ext)"
proof -
  have s: "dropWhile (\<lambda>c. c = CHR ''/'') (rev slashes @ x) = dropWhile (\<lambda>c. c = CHR ''/'') x" for x
    using assms(2) by (intro dropWhile_append2) auto
  have e: "dropWhile (\<lambda>c. c = CHR ''/'') (rev ext @ CHR ''.'' # rev pre) = rev ext @ CHR ''.'' # rev pre"
    using assms(1) by (auto simp: dropWhile_eq_self_iff hd_append hd_rev) (metis last_in_set)
  have t: "takeWhile (\<lambda>c. c \<noteq> CHR ''/'') (rev ext @ CHR ''.'' # rev pre) = rev ext @ CHR ''.'' # takeWhile (\<lambda>c. c \<noteq> CHR ''/'') (rev pre)"
    using assms(1) takeWhile_append2 [of "rev ext" "\<lambda>c. c \<noteq> CHR ''/''" "CHR ''.'' # rev pre"] by fastforce
  show ?thesis
  proof (intro exI)
    show "last_segment (pre @ CHR ''.'' # ext @ slashes) = Some (rev (takeWhile (\<lambda>c. c \<noteq> CHR ''/'') (rev pre)) @ CHR ''.'' # ext)"
      using s [of "rev ext @ CHR ''.'' # rev pre"] e t by (simp add: last_segment_def Let_def)
  qed
qed

lemma last_segment_split:
  assumes "last_segment path = Some seg"
  shows "\<exists>pre slashes. path = pre @ seg @ slashes \<and> set slashes \<subseteq> {CHR ''/''}"
proof -
  let ?s = "takeWhile (\<lambda>c. c = CHR ''/'') (rev path)" and ?r = "dropWhile (\<lambda>c. c = CHR ''/'') (rev path)"
  have "rev path = ?s @ takeWhile (\<lambda>c. c \<noteq> CHR ''/'') ?r @ dropWhile (\<lambda>c. c \<noteq> CHR ''/'') ?r" by simp
  then have "rev (rev path) = rev (?s @ takeWhile (\<lambda>c. c \<noteq> CHR ''/'') ?r @ dropWhile (\<lambda>c. c \<noteq> CHR ''/'') ?r)" by (rule arg_cong)
  then have "path = rev (dropWhile (\<lambda>c. c \<noteq> CHR ''/'') ?r) @ rev (takeWhile (\<lambda>c. c \<noteq> CHR ''/'') ?r) @ rev ?s"
    by (simp only: rev_rev_ident rev_append append.assoc)
  moreover have "seg = rev (takeWhile (\<lambda>c. c \<noteq> CHR ''/'') ?r)" using assms by (auto simp: last_segment_def Let_def split: if_splits)
  moreover have "set (rev ?s) \<subseteq> {CHR ''/''}" by (auto dest: set_takeWhileD)
  ultimately show ?thesis by metis
qed

lemma extension_split:
  assumes "extension_of seg = Some ext"
  shows "\<exists>name. seg = name @ CHR ''.'' # ext"
proof -
  have dot: "CHR ''.'' \<in> set (rev seg)" and e: "ext = rev (takeWhile (\<lambda>c. c \<noteq> CHR ''.'') (rev seg))"
    using assms by (auto simp: extension_of_def split: if_splits)
  then obtain rest where "dropWhile (\<lambda>c. c \<noteq> CHR ''.'') (rev seg) = CHR ''.'' # rest"
    by (cases "dropWhile (\<lambda>c. c \<noteq> CHR ''.'') (rev seg)") (auto simp: dropWhile_eq_Cons_conv dropWhile_eq_Nil_conv)
  then have "rev seg = rev ext @ CHR ''.'' # rest" using takeWhile_dropWhile_id [of "\<lambda>c. c \<noteq> CHR ''.''" "rev seg"] e by simp
  then have "rev (rev seg) = rev (rev ext @ CHR ''.'' # rest)" by simp
  then have "seg = rev rest @ CHR ''.'' # ext" by simp
  then show ?thesis ..
qed

lemma extension_append: "CHR ''.'' \<notin> set ext \<Longrightarrow> extension_of (name @ CHR ''.'' # ext) = Some ext"
  using takeWhile_append2 [of "rev ext" "\<lambda>c. c \<noteq> CHR ''.''" "CHR ''.'' # rev name"] by (fastforce simp: extension_of_def)

lemma denies_iff:
  "denies path \<longleftrightarrow> (\<exists>pre ext slashes. path = pre @ CHR ''.'' # ext @ slashes \<and> set slashes \<subseteq> {CHR ''/''} \<and> ascii_lower ext \<in> set DENY_EXTENSIONS)"
    (is "_ \<longleftrightarrow> ?R")
proof
  assume "denies path"
  then obtain seg ext where "last_segment path = Some seg" "extension_of seg = Some ext" and d: "ascii_lower ext \<in> set DENY_EXTENSIONS"
    unfolding denies_def extension_denied by (auto split: option.splits)
  then show ?R using last_segment_split extension_split d by (metis append.assoc append_Cons)
next
  assume ?R
  then obtain pre ext slashes where p: "path = pre @ CHR ''.'' # ext @ slashes" "set slashes \<subseteq> {CHR ''/''}" "ascii_lower ext \<in> set DENY_EXTENSIONS"
    by blast
  have plain: "CHR ''/'' \<notin> set ext" "CHR ''.'' \<notin> set ext"
    using deny_extensions_plain [OF p(3)] ascii_lower_plain [of _ ext] by (auto simp: is_ascii_upper_def)
  obtain name where "last_segment path = Some (name @ CHR ''.'' # ext)" using last_segment_append [OF plain(1) p(2)] p(1) by blast
  then show "denies path" unfolding denies_def extension_denied using p(3) extension_append [OF plain(2)] by simp
qed


subsection \<open>Links\<close>

text \<open>What one \<open>href\<close> leads to.\<close>

definition link_target :: "'u url_ops \<Rightarrow> 'u \<Rightarrow> string \<Rightarrow> 'u option" where
  "link_target U base href =
     (let trimmed = str_trim href in
      if trimmed = [] \<or> hd trimmed = CHR ''#'' then None
      else case url_parse_relative U base trimmed of Inl _ \<Rightarrow> None | Inr u \<Rightarrow> if url_is_http U u then Some u else None)"

text \<open>The first element for every key.\<close>

fun first_by :: "('a \<Rightarrow> 'k) \<Rightarrow> 'k list \<Rightarrow> 'a list \<Rightarrow> 'a list" where
  "first_by f seen [] = []"
| "first_by f seen (x # xs) = (if f x \<in> set seen then first_by f seen xs else x # first_by f (f x # seen) xs)"

lemma first_by_keys: "set (map f (first_by f seen xs)) = set (map f xs) - set seen" "distinct (map f (first_by f seen xs))"
proof (induction xs arbitrary: seen)
  case (Cons x xs)
  { case 1 then show ?case using Cons(1) by auto }
  { case 2 then show ?case using Cons(1) [of "f x # seen"] Cons(2) by (auto simp: image_iff) }
qed simp_all

lemma first_by_subseq: "subseq (first_by f seen xs) xs"
  by (induction xs arbitrary: seen) auto

lemma first_by_set: "set (first_by f seen xs) \<subseteq> set xs"
  by (induction xs arbitrary: seen) auto

lemma resolve_loop_spec:
  "resolve_loop U base raw seen out d =
     (let ts = List.map_filter (link_target U base) raw
      in (out @ first_by (op_as_str U) seen (filter (\<lambda>u. \<not> denies (op_path U u)) ts), d + length (filter (\<lambda>u. denies (op_path U u)) ts)))"
proof (induction raw arbitrary: seen out d)
  case (Cons href raw)
  show ?case
    using Cons.IH
    by (cases "link_target U base href")
      (auto simp: link_target_def Let_def List.map_filter_simps split: if_splits sum.splits)
qed (simp add: List.map_filter_simps)

lemma resolve_links_spec:
  fixes U base raw
  defines "ts \<equiv> List.map_filter (link_target U base) raw"
  shows "resolve_links U raw base =
    (first_by (op_as_str U) [] (filter (\<lambda>u. \<not> denies (op_path U u)) ts), length (filter (\<lambda>u. denies (op_path U u)) ts))"
  by (simp add: resolve_links_def resolve_loop_spec ts_def Let_def)

lemma map_filter_in: "x \<in> set (List.map_filter f xs) \<longleftrightarrow> (\<exists>y \<in> set xs. f y = Some x)"
  by (force simp: List.map_filter_def)

lemma link_target_good: "link_target U base href = Some u \<Longrightarrow> url_is_http U u \<and> length (op_as_str U u) \<le> MAX_URL_LEN"
  by (auto simp: link_target_def url_parse_relative_def Let_def split: if_splits sum.splits)

subsection \<open>Visible text\<close>

fun words_from :: "string \<Rightarrow> string list \<Rightarrow> string list" where
  "words_from cur [] = (if cur = [] then [] else [cur])"
| "words_from cur (c # cs) =
     (if is_whitespace c then (if cur = [] then words_from [] cs else cur # words_from [] cs) else words_from (cur @ c) cs)"

fun unwords :: "string list \<Rightarrow> string" where
  "unwords [] = []"
| "unwords [w] = w"
| "unwords (w # ws) = w @ '' '' @ unwords ws"

lemma unwords_Cons: "unwords (w # ws) = (if ws = [] then w else w @ '' '' @ unwords ws)"
  by (cases ws) simp_all

definition strip_space :: "string \<Rightarrow> string" where
  "strip_space s = (if ends_with s '' '' then butlast s else s)"

text \<open>A scalar that can stand in a string: its first byte gives its width, the others are continuation bytes.\<close>

definition scalar_ok :: "string \<Rightarrow> bool" where
  "scalar_ok ch \<longleftrightarrow> ch \<noteq> [] \<and> length ch = utf8_width (hd ch) \<and> (\<forall>c \<in> set (tl ch). (128 :: nat) \<le> of_char c)"

definition utf8_ok :: "string \<Rightarrow> bool" where
  "utf8_ok s \<longleftrightarrow> (\<forall>ch \<in> set (chars s). scalar_ok ch)"

lemma chars_concat [simp]: "concat (chars s) = s"
  by (induction s rule: chars.induct) simp_all

lemma chars_append: "utf8_ok a \<Longrightarrow> chars (a @ b) = chars a @ chars b"
proof (induction a rule: chars.induct)
  case (2 c cs)
  have w: "length (take (utf8_width c) (c # cs)) = utf8_width c"
    using 2(2) by (auto simp: utf8_ok_def scalar_ok_def hd_take)
  then have l: "utf8_width c \<le> length (c # cs)" by simp
  have "utf8_ok (drop (utf8_width c) (c # cs))" using 2(2) by (simp add: utf8_ok_def)
  then have IH: "chars (drop (utf8_width c) (c # cs) @ b) = chars (drop (utf8_width c) (c # cs)) @ chars b" by (rule 2(1))
  have "chars ((c # cs) @ b) = take (utf8_width c) ((c # cs) @ b) # chars (drop (utf8_width c) ((c # cs) @ b))" by simp
  also have "\<dots> = take (utf8_width c) (c # cs) # chars (drop (utf8_width c) (c # cs) @ b)"
    using l by (simp only: take_append drop_append) simp
  finally show ?case using IH by simp
qed simp

lemma scalar_last:
  assumes "scalar_ok ch" "\<not> is_whitespace ch"
  shows "last ch \<noteq> CHR '' ''"
proof (cases "tl ch = []")
  case True
  then obtain c where "ch = [c]" using assms(1) by (cases ch) (auto simp: scalar_ok_def)
  then show ?thesis using assms(2) by (auto simp: is_whitespace_def)
next
  case False
  then have "last ch \<in> set (tl ch)" by (metis last_in_set last_tl)
  then show ?thesis using assms(1) by (auto simp: scalar_ok_def)
qed

lemma ends_with_space: "ends_with s '' '' \<longleftrightarrow> s \<noteq> [] \<and> last s = CHR '' ''"
  by (cases s rule: rev_cases) (auto simp: ends_with_def)

text \<open>The buffer is what is done, \<open>pre\<close>, and the word being read, \<open>cur\<close>.\<close>

lemma push_chars_words:
  assumes "\<forall>ch \<in> set cs. scalar_ok ch" "cur = [] \<or> last cur \<noteq> CHR '' ''"
  shows "strip_space (fst (fold push_char cs (pre @ cur, cur = []))) =
    (let ws = words_from cur cs in if ws = [] then strip_space pre else pre @ unwords ws)"
  using assms
proof (induction cs arbitrary: pre cur)
  case Nil
  then show ?case by (auto simp: strip_space_def ends_with_space)
next
  case (Cons c cs)
  have ok: "\<forall>ch \<in> set cs. scalar_ok ch" "scalar_ok c" using Cons.prems(1) by simp_all
  show ?case
  proof (cases "is_whitespace c")
    case ws: True
    show ?thesis
    proof (cases "cur = []")
      case True
      then show ?thesis using ws Cons.IH [OF ok(1), of "[]" pre] by simp
    next
      case False
      then show ?thesis
        using ws Cons.IH [OF ok(1), of "[]" "pre @ cur @ '' ''"]
        by (auto simp: Let_def unwords_Cons strip_space_def ends_with_space butlast_append)
    qed
  next
    case False
    then have "cur @ c = [] \<or> last (cur @ c) \<noteq> CHR '' ''" "c \<noteq> []"
      using scalar_last [OF ok(2)] ok(2) by (auto simp: scalar_ok_def)
    then show ?thesis using False Cons.IH [OF ok(1), of "cur @ c" pre] by simp
  qed
qed


lemma collapse_words:
  assumes "\<forall>ch \<in> set cs. scalar_ok ch"
  shows "strip_space (fst (fold push_char cs ([], True))) = unwords (words_from [] cs)"
  using push_chars_words [OF assms, of "[]" "[]"] by (auto simp: Let_def strip_space_def ends_with_space split: if_splits)

text \<open>The text chunks outside every excluded element, and the values of the anchors.\<close>

fun visible :: "nat \<Rightarrow> html_event list \<Rightarrow> string list" where
  "visible d [] = []"
| "visible d (BodyText chunk # evs) = (if d = 0 then [chunk] else []) @ visible d evs"
| "visible d (ExcludedStart e # evs) = visible (d + 1) evs"
| "visible d (ExcludedEnd # evs) = visible (d - 1) evs"
| "visible d (_ # evs) = visible d evs"

fun anchors :: "html_event list \<Rightarrow> string list" where
  "anchors [] = []"
| "anchors (AnchorElement (Some h) # evs) = h # anchors evs"
| "anchors (_ # evs) = anchors evs"

fun base_ref :: "string option \<Rightarrow> html_event list \<Rightarrow> string option" where
  "base_ref b [] = b"
| "base_ref b (BaseElement (Some h) # evs) = base_ref (Some h) evs"
| "base_ref b (_ # evs) = base_ref b evs"

lemma run_events_append: "run_events (a @ b) st = (case run_events a st of Inl e \<Rightarrow> Inl e | Inr st \<Rightarrow> run_events b st)"
  by (induction a arbitrary: st) (auto split: sum.splits)

lemma run_events_spec:
  assumes "run_events evs st = Inr st'"
  shows "(ex_collapsed_text (es_out st'), es_last_ws st') =
      fold push_char (concat (map chars (visible (es_excluded_depth st) evs))) (ex_collapsed_text (es_out st), es_last_ws st) \<and>
    ex_raw_links (es_out st') = ex_raw_links (es_out st) @ anchors evs \<and>
    ex_base_href (es_out st') = base_ref (ex_base_href (es_out st)) evs"
  using assms
proof (induction evs arbitrary: st)
  case (Cons ev evs)
  obtain st1 where st1: "handle_event ev st = Inr st1" "run_events evs st1 = Inr st'"
    using Cons.prems by (auto split: sum.splits)
  show ?case
    using Cons.IH [OF st1(2)] st1(1) by (cases ev) (auto split: option.splits if_splits prod.splits)
qed simp

lemma extract_Inr:
  assumes "extract_html T body = Inr ex"
  defines "evs \<equiv> fst (tk_write T body) @ fst (tk_end T body)"
  shows "ex_collapsed_text ex = strip_space (fst (fold push_char (concat (map chars (visible 0 evs))) ([], True)))"
    "ex_raw_links ex = anchors evs" "ex_base_href ex = base_ref None evs"
proof -
  obtain st st' where st: "run_events (fst (tk_write T body)) extract_start = Inr st" "run_events (fst (tk_end T body)) st = Inr st'"
    and ex: "ex = (es_out st')\<lparr>ex_collapsed_text := strip_space (ex_collapsed_text (es_out st'))\<rparr>"
    using assms(1) by (auto simp: extract_html_def run_phase_def Let_def strip_space_def split: sum.splits option.splits if_splits)
  have "run_events evs extract_start = Inr st'" using st by (simp add: evs_def run_events_append)
  from run_events_spec [OF this] show
    "ex_collapsed_text ex = strip_space (fst (fold push_char (concat (map chars (visible 0 evs))) ([], True)))"
    "ex_raw_links ex = anchors evs" "ex_base_href ex = base_ref None evs"
    unfolding ex by (auto simp: extract_start_def dest: arg_cong [where f = fst])
qed

lemma chars_concat_map: "\<forall>c \<in> set cs. utf8_ok c \<Longrightarrow> concat (map chars cs) = chars (concat cs) \<and> utf8_ok (concat cs)"
  by (induction cs) (auto simp: chars_append, auto simp: utf8_ok_def chars_append)

subsection \<open>Properties\<close>

text \<open>A response the fetcher files under HTML is never taken for binary content.\<close>

lemma html_not_binary: "content_type (Some v) = ''html'' \<Longrightarrow> \<not> is_binary_content_type v"
proof -
  assume "content_type (Some v) = ''html''"
  then have "ascii_lower (main_type v) = ''text/html'' \<or> ascii_lower (main_type v) = ''application/xhtml+xml''"
    by (auto simp: content_type_def eq_ignore_ascii_case_def ascii_lower_def ascii_lower_char_def Let_def split: if_splits)
  moreover have "ascii_lower (take n t) = take n (ascii_lower t)" for n t by (simp add: ascii_lower_def take_map)
  moreover have "list_all (\<lambda>t. ascii_lower t \<noteq> ''text/html'' \<and> ascii_lower t \<noteq> ''application/xhtml+xml'') BINARY_CONTENT_TYPES"
    "list_all (\<lambda>p. ascii_lower p \<noteq> take (length p) ''text/html'' \<and> ascii_lower p \<noteq> take (length p) ''application/xhtml+xml'') BINARY_CONTENT_TYPE_PREFIXES"
    by code_simp+
  ultimately show "\<not> is_binary_content_type v"
    by (auto simp: is_binary_content_type_def eq_ignore_ascii_case_def Let_def list_ex_iff list_all_iff)
qed

text \<open>C33: the text of a page is its visible text with the whitespace collapsed. Whatever the chunks the tokenizer
  hands out, the text of a parsed document is the words of the concatenated chunks outside scripts and
  styles, joined by single spaces, and there is no text when there are no words.\<close>

theorem parse_text_words:
  fixes P :: "'u parser_env" and response :: fetch_response
  defines "evs \<equiv> fst (tk_write (pe_tokenizer P) (fr_body response)) @ fst (tk_end (pe_tokenizer P) (fr_body response))"
  assumes "parse_skip_reason (pe_valid_utf8 P) response = None" "\<forall>c \<in> set (visible 0 evs). utf8_ok c"
    and "html_parse P url response = Inr doc"
  shows "pd_text doc = (let t = unwords (words_from [] (chars (concat (visible 0 evs)))) in if t = [] then None else Some t)"
proof -
  obtain ex where ex: "extract_html (pe_tokenizer P) (fr_body response) = Inr ex"
      "pd_text doc = (if ex_collapsed_text ex = [] then None else Some (ex_collapsed_text ex))"
    using assms(2,4) by (auto simp: html_parse_def split: sum.splits prod.splits)
  have cs: "concat (map chars (visible 0 evs)) = chars (concat (visible 0 evs))" "utf8_ok (concat (visible 0 evs))"
    using chars_concat_map [OF assms(3)] by simp_all
  have "ex_collapsed_text ex = unwords (words_from [] (chars (concat (visible 0 evs))))"
    using extract_Inr(1) [OF ex(1)] cs collapse_words [of "chars (concat (visible 0 evs))"] by (simp add: evs_def utf8_ok_def)
  then show ?thesis using ex(2) by simp
qed

text \<open>C34: the links of a parsed document are exactly the distinct http(s) targets of its anchors that no denied
  extension ends, each within the length limit, in the order of the page.\<close>

theorem parse_links_exact:
  fixes P :: "'u parser_env" and response :: fetch_response
  defines "evs \<equiv> fst (tk_write (pe_tokenizer P) (fr_body response)) @ fst (tk_end (pe_tokenizer P) (fr_body response))"
  assumes "parse_skip_reason (pe_valid_utf8 P) response = None" "html_parse P url response = Inr doc"
  shows "let base = effective_base (pe_url P) url (base_ref None evs);
        targets = List.map_filter (link_target (pe_url P) base) (anchors evs);
        kept = map (view_of (pe_url P)) (filter (\<lambda>u. \<not> denies (op_path (pe_url P) u)) targets)
      in subseq (pd_outbound_links doc) kept \<and> distinct (map cu_str (pd_outbound_links doc)) \<and>
         set (map cu_str (pd_outbound_links doc)) = set (map cu_str kept) \<and>
         (\<forall>u \<in> set (pd_outbound_links doc). is_http u \<and> \<not> denies (cu_path u) \<and> length (cu_str u) \<le> MAX_URL_LEN)"
proof -
  obtain ex where ex: "extract_html (pe_tokenizer P) (fr_body response) = Inr ex"
      "pd_outbound_links doc = map (view_of (pe_url P)) (fst (resolve_links (pe_url P) (ex_raw_links ex) (effective_base (pe_url P) url (ex_base_href ex))))"
    using assms(2,3) by (auto simp: html_parse_def split: sum.splits prod.splits)
  let ?base = "effective_base (pe_url P) url (base_ref None evs)"
  let ?ts = "List.map_filter (link_target (pe_url P) ?base) (anchors evs)"
  let ?ks = "filter (\<lambda>u. \<not> denies (op_path (pe_url P) u)) ?ts"
  have links: "pd_outbound_links doc = map (view_of (pe_url P)) (first_by (op_as_str (pe_url P)) [] ?ks)"
    using ex(2) extract_Inr(2,3) [OF ex(1)] by (simp add: resolve_links_spec evs_def)
  have str: "map cu_str (map (view_of (pe_url P)) us) = map (op_as_str (pe_url P)) us" for us by (simp add: view_of_def)
  have sub: "set (first_by (op_as_str (pe_url P)) [] ?ks) \<subseteq> set ?ks"
    by (rule first_by_set)
  show ?thesis
  proof (unfold Let_def links, intro conjI ballI)
    show "subseq (map (view_of (pe_url P)) (first_by (op_as_str (pe_url P)) [] ?ks)) (map (view_of (pe_url P)) ?ks)"
      by (rule subseq_map [OF first_by_subseq])
    show "distinct (map cu_str (map (view_of (pe_url P)) (first_by (op_as_str (pe_url P)) [] ?ks)))"
      unfolding str by (rule first_by_keys(2))
    show "set (map cu_str (map (view_of (pe_url P)) (first_by (op_as_str (pe_url P)) [] ?ks))) = set (map cu_str (map (view_of (pe_url P)) ?ks))"
      unfolding str first_by_keys(1) by simp
    fix v assume "v \<in> set (map (view_of (pe_url P)) (first_by (op_as_str (pe_url P)) [] ?ks))"
    then obtain u where u: "u \<in> set ?ks" "v = view_of (pe_url P) u" using sub by auto
    then obtain href where "link_target (pe_url P) ?base href = Some u" by (auto simp: map_filter_in)
    then show "is_http v" "\<not> denies (cu_path v)" "length (cu_str v) \<le> MAX_URL_LEN"
      using link_target_good u by (fastforce simp: view_of_def is_http_def url_is_http_def)+
  qed
qed


definition demo_parser :: "ref_url parser_env" where
  "demo_parser =
     \<lparr>pe_url = ref_url_ops,
      pe_tokenizer = \<lparr>tk_write = (\<lambda>_. ([BodyText ''  Hi'', ExcludedStart None, BodyText ''x'', ExcludedEnd, AnchorElement (Some '' /a#t ''),
        AnchorElement (Some ''/m.PDF''), BodyText '' '', BodyText '' you '', AnchorElement (Some ''/a'')], None)), tk_end = (\<lambda>_. ([], None))\<rparr>,
      pe_valid_utf8 = (\<lambda>_. True)\<rparr>"

definition demo_page :: fetch_response where
  "demo_page = \<lparr>fr_url = \<lparr>cu_str = ''https://e.test/'', cu_scheme = ''https'', cu_host = Some ''e.test'', cu_path = ''/''\<rparr>, fr_status = 200,
     fr_headers = [], fr_body = [], fr_redirect_chain = [], fr_fetched_at = 0, fr_duration = 0\<rparr>"

definition demo_page_url :: ref_url where
  "demo_page_url = \<lparr>ru_scheme = ''https'', ru_username = [], ru_password = None, ru_host = ''e.test'', ru_path = ''/'',
     ru_query = None, ru_fragment = None\<rparr>"

lemma demo_page_parses: "parse_skip_reason (pe_valid_utf8 demo_parser) demo_page = None" "\<not> isl (html_parse demo_parser demo_page_url demo_page)"
  by code_simp+

theorem parse_text_words_witness:
  "\<exists>doc. html_parse demo_parser demo_page_url demo_page = Inr doc \<and> pd_text doc = Some ''Hi you''"
proof -
  obtain doc where doc: "html_parse demo_parser demo_page_url demo_page = Inr doc" using demo_page_parses(2) by (metis sum.collapse(2))
  let ?evs = "fst (tk_write (pe_tokenizer demo_parser) (fr_body demo_page)) @ fst (tk_end (pe_tokenizer demo_parser) (fr_body demo_page))"
  have "list_all utf8_ok (visible 0 ?evs)" "unwords (words_from [] (chars (concat (visible 0 ?evs)))) = ''Hi you''" by code_simp+
  then show ?thesis
    using parse_text_words [of demo_parser demo_page demo_page_url doc] demo_page_parses(1) doc by (auto simp: list_all_iff Let_def)
qed

theorem parse_links_exact_witness:
  "\<exists>doc. html_parse demo_parser demo_page_url demo_page = Inr doc \<and> set (map cu_str (pd_outbound_links doc)) = {''https://e.test/a''}"
proof -
  obtain doc where doc: "html_parse demo_parser demo_page_url demo_page = Inr doc" using demo_page_parses(2) by (metis sum.collapse(2))
  let ?evs = "fst (tk_write (pe_tokenizer demo_parser) (fr_body demo_page)) @ fst (tk_end (pe_tokenizer demo_parser) (fr_body demo_page))"
  let ?base = "effective_base (pe_url demo_parser) demo_page_url (base_ref None ?evs)"
  have "set (map cu_str (map (view_of (pe_url demo_parser)) (filter (\<lambda>u. \<not> denies (op_path (pe_url demo_parser) u))
      (List.map_filter (link_target (pe_url demo_parser) ?base) (anchors ?evs))))) = {''https://e.test/a''}"
    by code_simp
  then show ?thesis using parse_links_exact [OF demo_page_parses(1) doc, unfolded Let_def] doc by metis
qed

end
