(* ===== verification/Store_Spec.thy ===== *)
theory Store_Spec
  imports Failure_Classes "HOL-Library.AList"
begin

text \<open>
  What the buffering document stores share. \<^verbatim>\<open>crawlrs-store/src/path.rs\<close> names the files, \<^verbatim>\<open>rotation.rs\<close>
  decides when one is closed, \<^verbatim>\<open>error.rs\<close> wraps the errors. An object store is a parameter with the law
  \<open>object_backend\<close>. The contract \<open>buffered_store\<close> says what one write and one flush do to the file that is
  open for a shard and to the objects; its lemma is that no accepted record is lost. The composite and the
  in-memory store are here too.
\<close>

subsection \<open>Paths and rotation\<close>

record path_builder =
  pb_base :: string
  pb_run_id :: string
  pb_worker_id :: string

definition trim_end_slashes :: "string \<Rightarrow> string" where
  "trim_end_slashes s = rev (dropWhile (\<lambda>c. c = CHR ''/'') (rev s))"

text \<open>\<open>{:013}\<close>\<close>

definition pad13 :: "nat \<Rightarrow> string" where
  "pad13 n = (let s = show_nat n in replicate (13 - length s) CHR ''0'' @ s)"

definition raw_path :: "path_builder \<Rightarrow> string \<Rightarrow> string \<Rightarrow> u32 \<Rightarrow> u64 \<Rightarrow> string" where
  "raw_path pb format ext shard startts_ms =
     trim_end_slashes (pb_base pb) @ ''/run='' @ pb_run_id pb @ ''/shard='' @ show_nat shard @ ''/worker='' @ pb_worker_id pb @ ''/'' @
     format @ ''/part-'' @ pad13 startts_ms @ ''.'' @ ext"

text \<open>\<open>path_from\<close> is \<open>object_store::path::Path::from\<close>.\<close>

definition compose :: "(string \<Rightarrow> string) \<Rightarrow> path_builder \<Rightarrow> string \<Rightarrow> string \<Rightarrow> u32 \<Rightarrow> u64 \<Rightarrow> string" where
  "compose path_from pb format ext shard startts_ms = path_from (raw_path pb format ext shard startts_ms)"

definition path_parquet :: "(string \<Rightarrow> string) \<Rightarrow> path_builder \<Rightarrow> u32 \<Rightarrow> u64 \<Rightarrow> string" where
  "path_parquet path_from pb = compose path_from pb ''parquet'' ''parquet''"

definition path_warc :: "(string \<Rightarrow> string) \<Rightarrow> path_builder \<Rightarrow> u32 \<Rightarrow> u64 \<Rightarrow> string" where
  "path_warc path_from pb = compose path_from pb ''warc'' ''warc.gz''"

record rotation_policy =
  rp_max_bytes :: nat
  rp_max_rows :: nat
  rp_max_duration :: duration

definition rotation_policy_default :: rotation_policy where
  "rotation_policy_default = \<lparr>rp_max_bytes = 128 * 1024 * 1024, rp_max_rows = 100000, rp_max_duration = 30 * 60 * 1000000000\<rparr>"

text \<open>\<open>elapsed\<close> is the time since the file was opened.\<close>

definition should_rotate :: "rotation_policy \<Rightarrow> nat \<Rightarrow> nat \<Rightarrow> duration \<Rightarrow> bool" where
  "should_rotate rp rows bytes elapsed = (rows \<ge> rp_max_rows rp \<or> bytes \<ge> rp_max_bytes rp \<or> elapsed \<ge> rp_max_duration rp)"

datatype store_error = SeArrow string | SeParquet string | SeObjectStore string

fun store_error_to :: "store_error \<Rightarrow> crawl_error" where
  "store_error_to (SeArrow t) = EStore (''arrow error: '' @ t)"
| "store_error_to (SeParquet t) = EStore (''parquet error: '' @ t)"
| "store_error_to (SeObjectStore t) = EStore (''object_store error: '' @ t)"

lemma show_nat_slash: "CHR ''/'' \<notin> set (show_nat n)"
  by (rule show_nat_no_sep) (simp add: digit_val_def)

lemma read_digits_zeros: "read_digits 0 (replicate k CHR ''0'' @ s) = read_digits 0 s"
  by (induction k) (simp_all add: digit_val_def)

lemma pad13_inject: "pad13 m = pad13 n \<Longrightarrow> m = n"
proof -
  have "read_digits 0 (pad13 n) = Some n" for n by (simp add: pad13_def Let_def read_digits_zeros read_digits_show)
  then show "pad13 m = pad13 n \<Longrightarrow> m = n" by (metis option.inject)
qed

lemma raw_path_inject:
  assumes "raw_path pb fmt ext s t = raw_path pb fmt ext s' t'"
  shows "s = s' \<and> t = t'"
proof -
  have e: "show_nat s @ CHR ''/'' # (''worker='' @ pb_worker_id pb @ ''/'' @ fmt @ ''/part-'' @ pad13 t @ ''.'' @ ext) =
      show_nat s' @ CHR ''/'' # (''worker='' @ pb_worker_id pb @ ''/'' @ fmt @ ''/part-'' @ pad13 t' @ ''.'' @ ext)"
    using assms by (simp add: raw_path_def)
  have "Some (show_nat s, ''worker='' @ pb_worker_id pb @ ''/'' @ fmt @ ''/part-'' @ pad13 t @ ''.'' @ ext) =
      Some (show_nat s', ''worker='' @ pb_worker_id pb @ ''/'' @ fmt @ ''/part-'' @ pad13 t' @ ''.'' @ ext)"
    using arg_cong [OF e, of "split_once CHR ''/''"] by (simp only: split_once_append [OF show_nat_slash])
  then have "s = s'" "pad13 t = pad13 t'" by simp_all
  then show ?thesis using pad13_inject by blast
qed

subsection \<open>The object store\<close>

text \<open>A successful put stores the bytes; no put touches another object.\<close>

locale object_backend =
  fixes put :: "string \<Rightarrow> string \<Rightarrow> 'b \<Rightarrow> (string + unit) \<times> 'b" and obj :: "'b \<Rightarrow> string \<rightharpoonup> string"
  assumes put_ok: "put p c b = (Inr (), b') \<Longrightarrow> obj b' p = Some c"
    and put_frame: "put p c b = (r, b') \<Longrightarrow> q \<noteq> p \<Longrightarrow> obj b' q = obj b q"

subsection \<open>The contract of a buffering store\<close>

text \<open>
  \<open>active\<close> is what the open file of a shard holds, with the time its path is made of; \<open>stored\<close> is what can be read
  from an object. An accepted write adds its item to the open file, or to a new one, and either leaves the file
  open or stores it whole; a successful flush stores every open file.
\<close>

locale buffered_store =
  fixes st_write :: "'c \<Rightarrow> 'r \<Rightarrow> 's \<Rightarrow> (crawl_error + string) \<times> 's"
    and st_flush :: "'o \<Rightarrow> 's \<Rightarrow> (crawl_error + unit) \<times> 's"
    and sinv :: "'s \<Rightarrow> bool" and fair :: "'o \<Rightarrow> bool" and good :: "'c \<Rightarrow> 'r \<Rightarrow> bool"
    and active :: "'s \<Rightarrow> u32 \<Rightarrow> (u64 \<times> 'i set) option"
    and stored :: "'s \<Rightarrow> string \<Rightarrow> 'i set"
    and item :: "'r \<Rightarrow> 'i" and shard :: "'r \<Rightarrow> u32" and now :: "'c \<Rightarrow> u64" and path :: "u32 \<Rightarrow> u64 \<Rightarrow> string"
  assumes path_inject: "path s t = path s' t' \<Longrightarrow> s = s' \<and> t = t'"
    and write_ok: "sinv st \<Longrightarrow> good c r \<Longrightarrow> st_write c r st = (Inr p, st') \<Longrightarrow> sinv st' \<and>
      (\<exists>t is is'. (active st (shard r) = Some (t, is) \<or> (active st (shard r) = None \<and> t = now c \<and> is = {})) \<and>
         p = path (shard r) t \<and> insert (item r) is \<subseteq> is' \<and>
         ((active st' = (active st)(shard r := Some (t, is')) \<and> stored st' = stored st) \<or>
          (active st' = (active st)(shard r := None) \<and> is' \<subseteq> stored st' p \<and> (\<forall>q. q \<noteq> p \<longrightarrow> stored st' q = stored st q))))"
    and flush_ok: "sinv st \<Longrightarrow> fair ord \<Longrightarrow> st_flush ord st = (Inr (), st') \<Longrightarrow> sinv st' \<and> active st' = (\<lambda>_. None) \<and>
      (\<forall>s t is. active st s = Some (t, is) \<longrightarrow> is \<subseteq> stored st' (path s t)) \<and>
      (\<forall>q. (\<forall>s t is. active st s = Some (t, is) \<longrightarrow> q \<noteq> path s t) \<longrightarrow> stored st' q = stored st q)"

text \<open>
  The states a store reaches when every call succeeds, with the paths it returned and what was written. A file
  is opened at a time its shard has not used before.
\<close>

inductive store_run ::
  "('c \<Rightarrow> 'r \<Rightarrow> 's \<Rightarrow> (crawl_error + string) \<times> 's) \<Rightarrow> ('o \<Rightarrow> 's \<Rightarrow> (crawl_error + unit) \<times> 's) \<Rightarrow> ('s \<Rightarrow> u32 \<Rightarrow> (u64 \<times> 'i set) option) \<Rightarrow>
   ('o \<Rightarrow> bool) \<Rightarrow> ('c \<Rightarrow> 'r \<Rightarrow> bool) \<Rightarrow> ('r \<Rightarrow> u32) \<Rightarrow> ('c \<Rightarrow> u64) \<Rightarrow> (u32 \<Rightarrow> u64 \<Rightarrow> string) \<Rightarrow> 's \<Rightarrow> (string \<times> 'r) list \<Rightarrow> 's \<Rightarrow> bool"
  for st_write st_flush active fair good shard now path st\<^sub>0 where
  start: "store_run st_write st_flush active fair good shard now path st\<^sub>0 [] st\<^sub>0"
| accept: "store_run st_write st_flush active fair good shard now path st\<^sub>0 h st \<Longrightarrow> good c r \<Longrightarrow> st_write c r st = (Inr p, st') \<Longrightarrow>
    active st (shard r) = None \<longrightarrow> path (shard r) (now c) \<notin> fst ` set h \<Longrightarrow>
    store_run st_write st_flush active fair good shard now path st\<^sub>0 ((p, r) # h) st'"
| settle: "store_run st_write st_flush active fair good shard now path st\<^sub>0 h st \<Longrightarrow> fair ord \<Longrightarrow> st_flush ord st = (Inr (), st') \<Longrightarrow>
    store_run st_write st_flush active fair good shard now path st\<^sub>0 h st'"

context buffered_store
begin

text \<open>Where an accepted record is: in the open file its path names, or in the object of that path, which no
  open file will replace.\<close>

definition placed :: "'s \<Rightarrow> string \<Rightarrow> 'i \<Rightarrow> bool" where
  "placed st p x \<longleftrightarrow> (\<exists>s t is. active st s = Some (t, is) \<and> p = path s t \<and> x \<in> is) \<or>
     ((\<forall>s t is. active st s = Some (t, is) \<longrightarrow> p \<noteq> path s t) \<and> x \<in> stored st p)"

definition kept :: "(string \<times> 'r) list \<Rightarrow> 's \<Rightarrow> bool" where
  "kept h st \<longleftrightarrow> (\<forall>p r. (p, r) \<in> set h \<longrightarrow> placed st p (item r))"

lemma placed_frame:
  assumes "placed st p x" "stored st' p = stored st p"
    and "\<And>s. active st' s \<noteq> active st s \<Longrightarrow> (\<forall>t is. active st s = Some (t, is) \<or> active st' s = Some (t, is) \<longrightarrow> p \<noteq> path s t)"
  shows "placed st' p x"
  using assms(1) unfolding placed_def
proof (elim disjE exE conjE)
  fix s t "is" assume a: "active st s = Some (t, is)" "p = path s t" "x \<in> is"
  then have "active st' s = active st s" using assms(3) by blast
  then show "(\<exists>s t is. active st' s = Some (t, is) \<and> p = path s t \<and> x \<in> is) \<or>
     ((\<forall>s t is. active st' s = Some (t, is) \<longrightarrow> p \<noteq> path s t) \<and> x \<in> stored st' p)" using a by metis
next
  assume a: "\<forall>s t is. active st s = Some (t, is) \<longrightarrow> p \<noteq> path s t" "x \<in> stored st p"
  have "p \<noteq> path s t" if "active st' s = Some (t, is)" for s t "is"
    using that a(1) assms(3) by (cases "active st' s = active st s") auto
  then show "(\<exists>s t is. active st' s = Some (t, is) \<and> p = path s t \<and> x \<in> is) \<or>
     ((\<forall>s t is. active st' s = Some (t, is) \<longrightarrow> p \<noteq> path s t) \<and> x \<in> stored st' p)" using a(2) assms(2) by blast
qed

lemma placed_here:
  assumes "placed st (path s t) x" "active st s = Some (t, is)"
  shows "x \<in> is"
  using assms path_inject by (fastforce simp: placed_def)

lemma kept_write:
  assumes "kept h st" "sinv st" "good c r" "st_write c r st = (Inr p, st')"
    and "active st (shard r) = None \<longrightarrow> path (shard r) (now c) \<notin> fst ` set h"
  shows "kept ((p, r) # h) st'"
proof -
  obtain t "is" is' where w: "active st (shard r) = Some (t, is) \<or> (active st (shard r) = None \<and> t = now c \<and> is = {})"
      "p = path (shard r) t" "insert (item r) is \<subseteq> is'"
      "(active st' = (active st)(shard r := Some (t, is')) \<and> stored st' = stored st) \<or>
       (active st' = (active st)(shard r := None) \<and> is' \<subseteq> stored st' p \<and> (\<forall>q. q \<noteq> p \<longrightarrow> stored st' q = stored st q))"
    using write_ok [OF assms(2,3,4)] by blast
  have mine: "placed st' p x" if "x \<in> is'" for x
    using w(4)
  proof (elim disjE conjE)
    assume "active st' = (active st)(shard r := Some (t, is'))"
    then show ?thesis using that w(2) by (auto simp: placed_def)
  next
    assume a: "active st' = (active st)(shard r := None)" "is' \<subseteq> stored st' p"
    have "p \<noteq> path s' t'" if "active st' s' = Some (t', j)" for s' t' j
      using a(1) that w(2) path_inject by (metis fun_upd_apply option.distinct(1))
    then show ?thesis using a(2) that by (auto simp: placed_def)
  qed
  have "placed st' q (item x)" if q: "(q, x) \<in> set h" for q x
  proof (cases "q = p")
    case True
    have "active st (shard r) \<noteq> None" using assms(5) q True w(1,2) by force
    then have "active st (shard r) = Some (t, is)" using w(1) by auto
    then have "item x \<in> is" using placed_here [of st "shard r" t "item x" "is"] assms(1) q True w(2) by (auto simp: kept_def)
    then show ?thesis using mine True w(3) by blast
  next
    case False
    have "active st' s = active st s" if "s \<noteq> shard r" for s using w(4) that by auto
    moreover have "q \<noteq> path (shard r) t'" if "active st (shard r) = Some (t', j) \<or> active st' (shard r) = Some (t', j)" for t' j
      using w(1,2,4) that False by auto
    moreover have "placed st q (item x)" "stored st' q = stored st q" using assms(1) q w(4) False by (auto simp: kept_def)
    ultimately show ?thesis by (intro placed_frame [of st q "item x" st']) metis+
  qed
  then show ?thesis using mine w(3) by (auto simp: kept_def)
qed

text \<open>Changes that touch neither the open files nor the objects of the history.\<close>

lemma kept_frame:
  assumes "kept h st" "active st' = active st" "\<forall>(p, r) \<in> set h. stored st' p = stored st p"
  shows "kept h st'"
  unfolding kept_def
proof (intro allI impI)
  fix p r assume "(p, r) \<in> set h"
  then have "placed st p (item r)" "stored st' p = stored st p" using assms(1,3) by (auto simp: kept_def)
  then show "placed st' p (item r)" by (rule placed_frame) (simp add: assms(2))
qed

lemma kept_flush:
  assumes "kept h st" "sinv st" "fair ord" "st_flush ord st = (Inr (), st')"
  shows "(p, r) \<in> set h \<Longrightarrow> item r \<in> stored st' p" "kept h st'"
proof -
  have f: "active st' = (\<lambda>_. None)" "\<forall>s t is. active st s = Some (t, is) \<longrightarrow> is \<subseteq> stored st' (path s t)"
      "\<forall>q. (\<forall>s t is. active st s = Some (t, is) \<longrightarrow> q \<noteq> path s t) \<longrightarrow> stored st' q = stored st q"
    using flush_ok [OF assms(2,3,4)] by simp_all
  show s: "item r \<in> stored st' p" if "(p, r) \<in> set h" for p r
  proof -
    have "placed st p (item r)" using assms(1) that by (simp add: kept_def)
    then show ?thesis using f(2,3) unfolding placed_def by blast
  qed
  show "kept h st'" using s f(1) by (simp add: kept_def placed_def)
qed

lemma run_kept:
  assumes "store_run st_write st_flush active fair good shard now path st\<^sub>0 h st" "sinv st\<^sub>0"
  shows "sinv st \<and> kept h st"
  using assms
proof (induction rule: store_run.induct)
  case start
  then show ?case by (simp add: kept_def)
next
  case (accept h st c r p st')
  then show ?case using kept_write [of h st c r p st'] write_ok [of st c r p st'] by metis
next
  case (settle h st ord st')
  then show ?case using kept_flush(2) [of h st ord st'] flush_ok [of st ord st'] by metis
qed

text \<open>Nothing accepted is lost: after a flush every record is in the object of the path its write returned.\<close>

lemma flushed_complete:
  assumes "store_run st_write st_flush active fair good shard now path st\<^sub>0 h st" "sinv st\<^sub>0" "fair ord" "st_flush ord st = (Inr (), st')"
    and "(p, r) \<in> set h"
  shows "item r \<in> stored st' p"
  using kept_flush(1) [of h st ord st' p r] run_kept [OF assms(1,2)] assms(3-5) by blast

end


subsection \<open>One open file per shard\<close>

text \<open>
  The state behind the lock, with the object store, and the shape both buffering stores give to a write and a
  flush: \<open>push\<close> adds the record to the open file or to a new one, \<open>full\<close> says whether the file is closed,
  \<open>flush_one\<close> uploads a file. A file is off the map before it is uploaded.
\<close>

record ('f, 'b) shard_buffers =
  sb_files :: "(u32 \<times> 'f) list"
  sb_backend :: 'b

definition buffer_write ::
  "(u32 \<Rightarrow> 'f \<Rightarrow> 'b \<Rightarrow> (crawl_error + string) \<times> 'b) \<Rightarrow> ('c \<Rightarrow> 'r \<Rightarrow> 'f option \<Rightarrow> 'f) \<Rightarrow> ('c \<Rightarrow> 'f \<Rightarrow> bool) \<Rightarrow> (u32 \<Rightarrow> u64 \<Rightarrow> string) \<Rightarrow>
   ('f \<Rightarrow> u64) \<Rightarrow> ('r \<Rightarrow> u32) \<Rightarrow> 'c \<Rightarrow> 'r \<Rightarrow> ('f, 'b) shard_buffers \<Rightarrow> (crawl_error + string) \<times> ('f, 'b) shard_buffers" where
  "buffer_write flush_one push full path start shard c r st =
     (let f = push c r (map_of (sb_files st) (shard r)) in
      if full c f
      then (case flush_one (shard r) f (sb_backend st) of
              (Inl e, b) \<Rightarrow> (Inl e, st\<lparr>sb_files := AList.delete (shard r) (sb_files st), sb_backend := b\<rparr>)
            | (Inr _, b) \<Rightarrow> (Inr (path (shard r) (start f)), st\<lparr>sb_files := AList.delete (shard r) (sb_files st), sb_backend := b\<rparr>))
      else (Inr (path (shard r) (start f)), st\<lparr>sb_files := AList.update (shard r) f (sb_files st)\<rparr>))"

fun flush_files :: "(u32 \<Rightarrow> 'f \<Rightarrow> 'b \<Rightarrow> (crawl_error + string) \<times> 'b) \<Rightarrow> (u32 \<times> 'f) list \<Rightarrow> 'b \<Rightarrow> (crawl_error + unit) \<times> 'b" where
  "flush_files flush_one [] b = (Inr (), b)"
| "flush_files flush_one ((s, f) # fs) b =
     (case flush_one s f b of (Inl e, b) \<Rightarrow> (Inl e, b) | (Inr _, b) \<Rightarrow> flush_files flush_one fs b)"

definition buffer_flush ::
  "(u32 \<Rightarrow> 'f \<Rightarrow> 'b \<Rightarrow> (crawl_error + string) \<times> 'b) \<Rightarrow> ((u32 \<times> 'f) list \<Rightarrow> (u32 \<times> 'f) list) \<Rightarrow> ('f, 'b) shard_buffers \<Rightarrow>
   (crawl_error + unit) \<times> ('f, 'b) shard_buffers" where
  "buffer_flush flush_one ord st =
     (let (r, b) = flush_files flush_one (ord (sb_files st)) (sb_backend st) in (r, st\<lparr>sb_files := [], sb_backend := b\<rparr>))"

abbreviation any_order :: "('a list \<Rightarrow> 'a list) \<Rightarrow> bool" where
  "any_order ord \<equiv> \<forall>m. mset (ord m) = mset m"

definition buffers_inv :: "('f \<Rightarrow> bool) \<Rightarrow> ('f, 'b) shard_buffers \<Rightarrow> bool" where
  "buffers_inv ok st \<longleftrightarrow> distinct (map fst (sb_files st)) \<and> (\<forall>(s, f) \<in> set (sb_files st). ok f)"

definition buffers_active :: "('f \<Rightarrow> u64) \<Rightarrow> ('f \<Rightarrow> 'i set) \<Rightarrow> ('f, 'b) shard_buffers \<Rightarrow> u32 \<Rightarrow> (u64 \<times> 'i set) option" where
  "buffers_active start held st s = map_option (\<lambda>f. (start f, held f)) (map_of (sb_files st) s)"

definition buffers_stored :: "('b \<Rightarrow> string \<Rightarrow> 'i set) \<Rightarrow> ('f, 'b) shard_buffers \<Rightarrow> string \<Rightarrow> 'i set" where
  "buffers_stored found st = found (sb_backend st)"

text \<open>\<open>held\<close> is what an open file holds, \<open>found\<close> what a reader finds in the object of a path.\<close>

locale shard_files =
  fixes flush_one :: "u32 \<Rightarrow> 'f \<Rightarrow> 'b \<Rightarrow> (crawl_error + string) \<times> 'b"
    and push :: "'c \<Rightarrow> 'r \<Rightarrow> 'f option \<Rightarrow> 'f" and full :: "'c \<Rightarrow> 'f \<Rightarrow> bool"
    and start :: "'f \<Rightarrow> u64" and held :: "'f \<Rightarrow> 'i set" and found :: "'b \<Rightarrow> string \<Rightarrow> 'i set" and ok :: "'f \<Rightarrow> bool"
    and good :: "'c \<Rightarrow> 'r \<Rightarrow> bool" and item :: "'r \<Rightarrow> 'i" and shard :: "'r \<Rightarrow> u32" and now :: "'c \<Rightarrow> u64" and path :: "u32 \<Rightarrow> u64 \<Rightarrow> string"
  assumes path_inject: "path s t = path s' t' \<Longrightarrow> s = s' \<and> t = t'"
    and push_new: "good c r \<Longrightarrow> ok (push c r None) \<and> start (push c r None) = now c \<and> item r \<in> held (push c r None)"
    and push_open: "good c r \<Longrightarrow> ok f \<Longrightarrow> ok (push c r (Some f)) \<and> start (push c r (Some f)) = start f \<and>
      insert (item r) (held f) \<subseteq> held (push c r (Some f))"
    and flush_one_ok: "ok f \<Longrightarrow> flush_one s f b = (Inr p, b') \<Longrightarrow>
      p = path s (start f) \<and> held f \<subseteq> found b' p \<and> (\<forall>q. q \<noteq> p \<longrightarrow> found b' q = found b q)"
begin

lemma flush_files_ok:
  assumes "flush_files flush_one fs b = (Inr (), b')" "distinct (map fst fs)" "\<forall>(s, f) \<in> set fs. ok f"
  shows "(\<forall>(s, f) \<in> set fs. held f \<subseteq> found b' (path s (start f))) \<and>
    (\<forall>q. (\<forall>(s, f) \<in> set fs. q \<noteq> path s (start f)) \<longrightarrow> found b' q = found b q)"
  using assms
proof (induction fs arbitrary: b)
  case (Cons x fs)
  obtain s f where x: "x = (s, f)" by (metis prod.exhaust)
  obtain p b1 where 1: "flush_one s f b = (Inr p, b1)" "flush_files flush_one fs b1 = (Inr (), b')"
    using Cons.prems(1) x by (auto split: prod.splits sum.splits)
  have one: "p = path s (start f)" "held f \<subseteq> found b1 p" "\<forall>q. q \<noteq> p \<longrightarrow> found b1 q = found b q"
    using flush_one_ok [OF _ 1(1)] Cons.prems(3) x by auto
  have IH: "\<forall>(s, f) \<in> set fs. held f \<subseteq> found b' (path s (start f))"
      "\<forall>q. (\<forall>(s, f) \<in> set fs. q \<noteq> path s (start f)) \<longrightarrow> found b' q = found b1 q"
    using Cons.IH [OF 1(2)] Cons.prems(2,3) by simp_all
  have "\<forall>(s', f') \<in> set fs. p \<noteq> path s' (start f')"
    using Cons.prems(2) x one(1) path_inject by (fastforce simp: rev_image_eqI)
  then have "found b' p = found b1 p" using IH(2) by simp
  then show ?case using IH one x by auto
qed simp

lemma push_ok:
  assumes "good c r" "buffers_inv ok st"
  defines "f \<equiv> push c r (map_of (sb_files st) (shard r))"
  shows "ok f" "\<exists>is. (buffers_active start held st (shard r) = Some (start f, is) \<or>
      (buffers_active start held st (shard r) = None \<and> start f = now c \<and> is = {})) \<and> insert (item r) is \<subseteq> held f"
proof -
  have o: "map_of (sb_files st) (shard r) = Some g \<Longrightarrow> ok g" for g
    using assms(2) map_of_SomeD by (fastforce simp: buffers_inv_def)
  show "ok f" "\<exists>is. (buffers_active start held st (shard r) = Some (start f, is) \<or>
      (buffers_active start held st (shard r) = None \<and> start f = now c \<and> is = {})) \<and> insert (item r) is \<subseteq> held f"
    using push_new [OF assms(1)] push_open [OF assms(1)] o
    by (cases "map_of (sb_files st) (shard r)"; auto simp: f_def buffers_active_def)+
qed

lemma buffer_write_ok:
  assumes "buffers_inv ok st" "good c r" "buffer_write flush_one push full path start shard c r st = (Inr p, st')"
  shows "buffers_inv ok st' \<and>
    (\<exists>t is is'. (buffers_active start held st (shard r) = Some (t, is) \<or> (buffers_active start held st (shard r) = None \<and> t = now c \<and> is = {})) \<and>
       p = path (shard r) t \<and> insert (item r) is \<subseteq> is' \<and>
       ((buffers_active start held st' = (buffers_active start held st)(shard r := Some (t, is')) \<and> buffers_stored found st' = buffers_stored found st) \<or>
        (buffers_active start held st' = (buffers_active start held st)(shard r := None) \<and> is' \<subseteq> buffers_stored found st' p \<and>
         (\<forall>q. q \<noteq> p \<longrightarrow> buffers_stored found st' q = buffers_stored found st q))))"
proof -
  let ?f = "push c r (map_of (sb_files st) (shard r))"
  note app = push_ok [OF assms(2,1)]
  have d: "distinct (map fst (sb_files st))" and ar: "\<forall>(s, f) \<in> set (sb_files st). ok f"
    using assms(1) by (simp_all add: buffers_inv_def)
  consider (kept) "p = path (shard r) (start ?f)" "st' = st\<lparr>sb_files := AList.update (shard r) ?f (sb_files st)\<rparr>"
    | (rotated) b where "p = path (shard r) (start ?f)" "flush_one (shard r) ?f (sb_backend st) = (Inr p, b)"
        "st' = st\<lparr>sb_files := AList.delete (shard r) (sb_files st), sb_backend := b\<rparr>"
    using assms(3) flush_one_ok [OF app(1)] by (fastforce simp: buffer_write_def Let_def split: if_splits prod.splits sum.splits)
  then show ?thesis
  proof cases
    case kept
    have "buffers_inv ok st'"
      using kept(2) d ar app(1) by (force simp: buffers_inv_def AList.distinct_update dest!: alist_update_in)
    moreover have "buffers_active start held st' = (buffers_active start held st)(shard r := Some (start ?f, held ?f))"
      "buffers_stored found st' = buffers_stored found st"
      using kept(2) by (auto simp: buffers_active_def buffers_stored_def AList.update_conv' fun_eq_iff)
    ultimately show ?thesis using app(2) kept(1) by blast
  next
    case rotated
    have "buffers_inv ok st'" using rotated(3) d ar by (auto simp: buffers_inv_def AList.distinct_delete dest: alist_delete_in)
    moreover have "buffers_active start held st' = (buffers_active start held st)(shard r := None)"
      using rotated(3) by (auto simp: buffers_active_def AList.delete_conv' fun_eq_iff)
    moreover have "held ?f \<subseteq> buffers_stored found st' p" "\<forall>q. q \<noteq> p \<longrightarrow> buffers_stored found st' q = buffers_stored found st q"
      using rotated(3) flush_one_ok [OF app(1) rotated(2)] by (auto simp: buffers_stored_def)
    ultimately show ?thesis using app(2) rotated(1) by blast
  qed
qed

lemma buffer_flush_ok:
  assumes "buffers_inv ok st" "any_order ord" "buffer_flush flush_one ord st = (Inr (), st')"
  shows "buffers_inv ok st' \<and> buffers_active start held st' = (\<lambda>_. None) \<and>
    (\<forall>s t is. buffers_active start held st s = Some (t, is) \<longrightarrow> is \<subseteq> buffers_stored found st' (path s t)) \<and>
    (\<forall>q. (\<forall>s t is. buffers_active start held st s = Some (t, is) \<longrightarrow> q \<noteq> path s t) \<longrightarrow> buffers_stored found st' q = buffers_stored found st q)"
proof -
  let ?fs = "ord (sb_files st)"
  obtain b where b: "flush_files flush_one ?fs (sb_backend st) = (Inr (), b)" "st' = st\<lparr>sb_files := [], sb_backend := b\<rparr>"
    using assms(3) by (auto simp: buffer_flush_def split: prod.splits)
  have d: "distinct (map fst (sb_files st))" using assms(1) by (simp add: buffers_inv_def)
  have m: "mset ?fs = mset (sb_files st)" using assms(2) by simp
  have d': "distinct (map fst ?fs)" and s: "set ?fs = set (sb_files st)"
    using walk_keys [of ord "sb_files st", OF m d] mset_eq_setD [OF m] by simp_all
  have look: "map_of (sb_files st) k = Some f \<longleftrightarrow> (k, f) \<in> set ?fs" for k f using d s by simp
  have "\<forall>(s, f) \<in> set ?fs. ok f" using assms(1) s by (simp add: buffers_inv_def)
  note fl = flush_files_ok [OF b(1) d' this]
  show ?thesis
    using b(2) fl look by (fastforce simp: buffers_inv_def buffers_active_def buffers_stored_def)
qed

end

sublocale shard_files \<subseteq> buffers: buffered_store "buffer_write flush_one push full path start shard" "buffer_flush flush_one" "buffers_inv ok"
  any_order good "buffers_active start held" "buffers_stored found" item shard now path
  by unfold_locales (fact path_inject buffer_write_ok buffer_flush_ok)+

subsection \<open>The composite and the in-memory store\<close>

record 's doc_store =
  so_write :: "store_record \<Rightarrow> 's \<Rightarrow> (crawl_error + string) \<times> 's"
  so_flush :: "'s \<Rightarrow> (crawl_error + unit) \<times> 's"

definition multi_new :: "'s doc_store list \<Rightarrow> crawl_error + 's doc_store list" where
  "multi_new stores = (if stores = [] then Inl (EStore ''MultiStore requires at least one inner store'') else Inr stores)"

fun multi_write_loop :: "'s doc_store list \<Rightarrow> store_record \<Rightarrow> string list \<Rightarrow> 's \<Rightarrow> (crawl_error + string list) \<times> 's" where
  "multi_write_loop [] record paths s = (Inr paths, s)"
| "multi_write_loop (store # stores) record paths s =
     (case so_write store record s of (Inl e, s) \<Rightarrow> (Inl e, s)
      | (Inr path, s) \<Rightarrow> multi_write_loop stores record (paths @ [path]) s)"

text \<open>\<open>hd\<close> is the first path; a composite has at least one store.\<close>

definition multi_write :: "'s doc_store list \<Rightarrow> store_record \<Rightarrow> 's \<Rightarrow> (crawl_error + string) \<times> 's" where
  "multi_write stores record s =
     (case multi_write_loop stores record [] s of (Inl e, s) \<Rightarrow> (Inl e, s) | (Inr paths, s) \<Rightarrow> (Inr (hd paths), s))"

fun multi_flush_loop :: "'s doc_store list \<Rightarrow> string list \<Rightarrow> 's \<Rightarrow> string list \<times> 's" where
  "multi_flush_loop [] errors s = (errors, s)"
| "multi_flush_loop (store # stores) errors s =
     (case so_flush store s of (Inl e, s) \<Rightarrow> multi_flush_loop stores (errors @ [show_error e]) s
      | (Inr _, s) \<Rightarrow> multi_flush_loop stores errors s)"

fun join_texts :: "string \<Rightarrow> string list \<Rightarrow> string" where
  "join_texts sep [] = []"
| "join_texts sep [t] = t"
| "join_texts sep (t # ts) = t @ sep @ join_texts sep ts"

definition multi_flush :: "'s doc_store list \<Rightarrow> 's \<Rightarrow> (crawl_error + unit) \<times> 's" where
  "multi_flush stores s =
     (let (errors, s) = multi_flush_loop stores [] s
      in if errors = [] then (Inr (), s)
         else (Inl (EStore (show_nat (length errors) @ '' of '' @ show_nat (length stores) @ '' stores failed to flush: '' @ join_texts ''; '' errors)), s))"

definition multi_store :: "'s doc_store list \<Rightarrow> 's doc_store" where
  "multi_store stores = \<lparr>so_write = multi_write stores, so_flush = multi_flush stores\<rparr>"

record memory_store =
  ms_written :: "parsed_document list"
  ms_fail_writes :: bool

definition memory_store_new :: memory_store where
  "memory_store_new = \<lparr>ms_written = [], ms_fail_writes = False\<rparr>"

definition set_write_failure :: "bool \<Rightarrow> memory_store \<Rightarrow> memory_store" where
  "set_write_failure failing s = s\<lparr>ms_fail_writes := failing\<rparr>"

definition memory_urls :: "memory_store \<Rightarrow> string list" where
  "memory_urls s = map (\<lambda>d. cu_str (pd_url d)) (ms_written s)"

definition memory_write :: "store_record \<Rightarrow> memory_store \<Rightarrow> (crawl_error + string) \<times> memory_store" where
  "memory_write record s =
     (if ms_fail_writes s then (Inl (EStore ''injected write failure''), s)
      else (Inr (''memory://'' @ cu_str (pd_url (sr_doc record))), s\<lparr>ms_written := ms_written s @ [sr_doc record]\<rparr>))"

definition in_memory_store :: "memory_store doc_store" where
  "in_memory_store = \<lparr>so_write = memory_write, so_flush = (\<lambda>s. (Inr (), s))\<rparr>"

text \<open>Every store is flushed, whatever the others answer: the state after a flush is the state after flushing
  each store in turn.\<close>

lemma multi_flush_loop_all: "snd (multi_flush_loop stores errors s) = fold (\<lambda>store s. snd (so_flush store s)) stores s"
  by (induction stores arbitrary: errors s) (auto split: prod.split sum.split)

lemma multi_flush_all: "snd (multi_flush stores s) = fold (\<lambda>store s. snd (so_flush store s)) stores s"
  using multi_flush_loop_all [of stores "[]" s] by (auto simp: multi_flush_def split: prod.splits)

text \<open>A composite write answers the first store's path, and no later store sees the record after a failure.\<close>

lemma multi_write_loop_paths:
  "multi_write_loop stores record paths s = (Inr ps, s') \<Longrightarrow> length ps = length paths + length stores \<and> take (length paths) ps = paths"
proof (induction stores arbitrary: paths s)
  case (Cons store stores)
  obtain r s1 where r: "so_write store record s = (r, s1)" by (metis surj_pair)
  obtain p where p: "r = Inr p" using Cons.prems r by (cases r) auto
  then have "length ps = length (paths @ [p]) + length stores \<and> take (length (paths @ [p])) ps = paths @ [p]"
    using Cons.IH [of "paths @ [p]" s1] Cons.prems r by simp
  moreover from this have "take (length paths) ps = paths"
    by (metis append_eq_conv_conj append_take_drop_id append.assoc)
  ultimately show ?case by simp
qed simp

lemma multi_write_primary:
  assumes "multi_write (store # stores) record s = (Inr p, s')"
  shows "\<exists>s1. so_write store record s = (Inr p, s1)"
proof -
  obtain r s1 where r: "so_write store record s = (r, s1)" by (metis surj_pair)
  then obtain q ps where q: "r = Inr q" "multi_write_loop stores record [q] s1 = (Inr ps, s')" "p = hd ps"
    using assms by (cases r) (auto simp: multi_write_def split: prod.splits sum.splits)
  then have "take 1 ps = [q]" using multi_write_loop_paths [OF q(2)] by simp
  then have "hd ps = q" by (cases ps) auto
  then show ?thesis using r q by simp
qed

end
