(* ===== verification/Crawl_Config.thy ===== *)
theory Crawl_Config
  imports Crawl_System Fetcher Store_Spec
begin

text \<open>
  \<^verbatim>\<open>crawlrs-bin/src/config.rs\<close>, the pure half of \<^verbatim>\<open>crawlrs-bin/src/factory.rs\<close> and
  \<^verbatim>\<open>crawlrs-frontier/src/pool.rs\<close>: the tables of \<^verbatim>\<open>crawl.toml\<close> with their defaults, the overlay of
  environment variables, validation, and what the parts of a crawler are configured with. The TOML parser, the
  file system and the environment are parameters; an \<open>anyhow\<close> error is the list of its messages, outermost
  first.
\<close>

type_synonym anyhow = "string list"
type_synonym environment = "string \<Rightarrow> string option"

definition with_context :: "string \<Rightarrow> anyhow + 'a \<Rightarrow> anyhow + 'a" where
  "with_context msg r = (case r of Inl e \<Rightarrow> Inl (msg # e) | Inr x \<Rightarrow> Inr x)"



subsection \<open>The tables of the configuration file\<close>

datatype secret = Secret string

fun expose :: "secret \<Rightarrow> string" where
  "expose (Secret s) = s"

definition secret_debug :: "secret \<Rightarrow> string" where
  "secret_debug _ = [CHR 0x22] @ ''***'' @ [CHR 0x22]"

record redis_table =
  rt_url :: secret
  rt_pool_size :: u32

record postgres_table =
  pt_url :: secret
  pt_pool_size :: u32

definition default_redis_pool_size :: u32 where "default_redis_pool_size = 16"
definition default_postgres_pool_size :: u32 where "default_postgres_pool_size = 8"

record fetch_table =
  ft_max_body_bytes :: u64
  ft_user_agent :: "string option"
  ft_default_timeout :: duration
  ft_read_timeout :: duration

definition fetch_table_default :: fetch_table where
  "fetch_table_default =
     \<lparr>ft_max_body_bytes = 10 * 1024 * 1024, ft_user_agent = None, ft_default_timeout = 60 * NANOS, ft_read_timeout = 30 * NANOS\<rparr>"

text \<open>A hash map of the file is a list of pairs with distinct keys. The overrides of \<^verbatim>\<open>[crawl.per_domain]\<close> have the
  fields of the scope's own overrides.\<close>

record crawl_table =
  ct_max_depth :: "u32 option"
  ct_max_urls :: "u64 option"
  ct_per_domain :: "(string \<times> crawl_override) list"

definition crawl_table_default :: crawl_table where
  "crawl_table_default = \<lparr>ct_max_depth = None, ct_max_urls = None, ct_per_domain = []\<rparr>"

record access_table =
  at_blocklist :: "string list"

record backoff_table =
  bo_initial_backoff :: duration
  bo_max_backoff :: duration
  bo_multiplier :: rat
  bo_failure_threshold :: u32

definition backoff_table_default :: backoff_table where
  "backoff_table_default =
     \<lparr>bo_initial_backoff = 30 * NANOS, bo_max_backoff = 600 * NANOS, bo_multiplier = 2, bo_failure_threshold = 10\<rparr>"

record politeness_override_table =
  ov_host_delay :: "duration option"
  ov_obey_robots_txt :: "bool option"
  ov_robots_ttl :: "duration option"

record politeness_table =
  pl_enabled :: bool
  pl_host_delay :: duration
  pl_obey_robots_txt :: bool
  pl_robots_ttl :: duration
  pl_backoff :: backoff_table
  pl_per_domain :: "(string \<times> politeness_override_table) list"

definition politeness_table_default :: politeness_table where
  "politeness_table_default =
     \<lparr>pl_enabled = True, pl_host_delay = 1 * NANOS, pl_obey_robots_txt = True, pl_robots_ttl = 24 * 60 * 60 * NANOS,
      pl_backoff = backoff_table_default, pl_per_domain = []\<rparr>"

record runtime_table =
  rn_workers :: nat
  rn_max_retries :: u32
  rn_link_dispatch :: link_dispatch

definition runtime_table_default :: runtime_table where
  "runtime_table_default = \<lparr>rn_workers = 4, rn_max_retries = 5, rn_link_dispatch = Direct\<rparr>"

record frontier_table =
  fn_lease_timeout :: duration
  fn_promoter_tick :: duration
  fn_bloom_capacity :: u64
  fn_bloom_fpr :: rat

definition frontier_table_default :: frontier_table where
  "frontier_table_default =
     \<lparr>fn_lease_timeout = 60 * NANOS, fn_promoter_tick = 50 * 1000000, fn_bloom_capacity = 1000000, fn_bloom_fpr = 1 / 1000\<rparr>"

record rotation_table =
  ro_max_bytes :: nat
  ro_max_rows :: nat
  ro_max_duration :: duration

definition rotation_table_default :: rotation_table where
  "rotation_table_default = \<lparr>ro_max_bytes = 128 * 1024 * 1024, ro_max_rows = 100000, ro_max_duration = 30 * 60 * NANOS\<rparr>"

record s3_backend =
  s3_endpoint :: "string option"
  s3_bucket :: string
  s3_region :: string
  s3_access_key_id :: "secret option"
  s3_secret_access_key :: "secret option"
  s3_allow_http :: bool
  s3_virtual_hosted_style_request :: bool

datatype store_backend = LocalBackend string | S3Backend s3_backend

definition store_backend_default :: store_backend where
  "store_backend_default = LocalBackend ''/var/lib/crawlrs/data''"

record store_table =
  sx_parquet :: bool
  sx_warc :: bool
  sx_backend :: store_backend
  sx_base_prefix :: string
  sx_worker_id :: "string option"
  sx_rotation :: rotation_table

definition store_table_default :: store_table where
  "store_table_default =
     \<lparr>sx_parquet = True, sx_warc = True, sx_backend = store_backend_default, sx_base_prefix = ''crawlrs'', sx_worker_id = None,
      sx_rotation = rotation_table_default\<rparr>"

record server_table =
  sv_listen :: string

definition server_table_default :: server_table where
  "server_table_default = \<lparr>sv_listen = ''0.0.0.0:9090''\<rparr>"

record sharding_table =
  sd_num_shards :: u32
  sd_owned_shards :: "u32 list option"

definition sharding_table_default :: sharding_table where
  "sharding_table_default = \<lparr>sd_num_shards = 8, sd_owned_shards = None\<rparr>"

record crawlrs_config =
  cc_run_id :: string
  cc_redis :: redis_table
  cc_postgres :: postgres_table
  cc_fetch :: fetch_table
  cc_crawl :: crawl_table
  cc_access :: access_table
  cc_politeness :: politeness_table
  cc_runtime :: runtime_table
  cc_frontier :: frontier_table
  cc_store :: store_table
  cc_server :: server_table
  cc_sharding :: sharding_table

subsection \<open>Loading\<close>

text \<open>\<open>usize\<close> has 64 bits.\<close>

definition overlay_backend :: "environment \<Rightarrow> store_backend \<Rightarrow> store_backend" where
  "overlay_backend env b =
     (case b of LocalBackend path \<Rightarrow> LocalBackend path
      | S3Backend s3 \<Rightarrow>
         (let s3 = (case env ''CRAWLRS_S3_ENDPOINT'' of Some v \<Rightarrow> s3\<lparr>s3_endpoint := Some v\<rparr> | None \<Rightarrow> s3);
              s3 = (case env ''CRAWLRS_S3_ACCESS_KEY_ID'' of Some v \<Rightarrow> s3\<lparr>s3_access_key_id := Some (Secret v)\<rparr> | None \<Rightarrow> s3);
              s3 = (case env ''CRAWLRS_S3_SECRET_ACCESS_KEY'' of Some v \<Rightarrow> s3\<lparr>s3_secret_access_key := Some (Secret v)\<rparr> | None \<Rightarrow> s3)
          in S3Backend s3))"

definition apply_env_overlay :: "environment \<Rightarrow> crawlrs_config \<Rightarrow> crawlrs_config" where
  "apply_env_overlay env c =
     (let c = (case env ''CRAWLRS_RUN_ID'' of Some v \<Rightarrow> c\<lparr>cc_run_id := v\<rparr> | None \<Rightarrow> c);
          c = (case env ''CRAWLRS_REDIS_URL'' of Some v \<Rightarrow> c\<lparr>cc_redis := (cc_redis c)\<lparr>rt_url := Secret v\<rparr>\<rparr> | None \<Rightarrow> c);
          c = (case env ''CRAWLRS_POSTGRES_URL'' of Some v \<Rightarrow> c\<lparr>cc_postgres := (cc_postgres c)\<lparr>pt_url := Secret v\<rparr>\<rparr> | None \<Rightarrow> c);
          c = (case env ''CRAWLRS_LISTEN'' of Some v \<Rightarrow> c\<lparr>cc_server := (cc_server c)\<lparr>sv_listen := v\<rparr>\<rparr> | None \<Rightarrow> c);
          c = (case env ''CRAWLRS_WORKERS'' of None \<Rightarrow> c
               | Some v \<Rightarrow> (case parse_uint U64_MAX v of Some n \<Rightarrow> c\<lparr>cc_runtime := (cc_runtime c)\<lparr>rn_workers := n\<rparr>\<rparr> | None \<Rightarrow> c))
      in c\<lparr>cc_store := (cc_store c)\<lparr>sx_backend := overlay_backend env (sx_backend (cc_store c))\<rparr>\<rparr>)"

definition no_identity :: string where
  "no_identity = ''[politeness].obey_robots_txt = true requires [fetch].user_agent to be set. Random emulation produces a different wire User-Agent per request, so there is no stable identity for robots.txt to match against. Either pin [fetch].user_agent to a stable string (recommended for any crawl that wants to be a good citizen), or set [politeness].obey_robots_txt = false (stealth mode).''"

definition validate_config :: "crawlrs_config \<Rightarrow> anyhow + unit" where
  "validate_config c =
     (if pl_obey_robots_txt (cc_politeness c) \<and> ft_user_agent (cc_fetch c) = None then Inl [no_identity] else Inr ())"

definition show_bool :: "bool \<Rightarrow> string" where
  "show_bool b = (if b then ''true'' else ''false'')"

definition config_summary :: "crawlrs_config \<Rightarrow> string" where
  "config_summary c =
     ''run_id='' @ cc_run_id c @ '' workers='' @ show_nat (rn_workers (cc_runtime c)) @
     '' shards='' @ show_nat (sd_num_shards (cc_sharding c)) @ '' parquet='' @ show_bool (sx_parquet (cc_store c)) @
     '' warc='' @ show_bool (sx_warc (cc_store c)) @ '' listen='' @ sv_listen (cc_server c)"

definition load_config ::
  "(string \<Rightarrow> string + string) \<Rightarrow> (string \<Rightarrow> string + crawlrs_config) \<Rightarrow> environment \<Rightarrow> string \<Rightarrow> anyhow + crawlrs_config" where
  "load_config read_to_string from_toml env path =
     (case read_to_string path of Inl e \<Rightarrow> Inl [''reading config file '' @ path, e]
      | Inr text \<Rightarrow>
         (case from_toml text of Inl e \<Rightarrow> Inl [''parsing TOML config '' @ path, e]
          | Inr c \<Rightarrow>
             (let c = apply_env_overlay env c in case validate_config c of Inl e \<Rightarrow> Inl e | Inr _ \<Rightarrow> Inr c)))"

subsection \<open>What the parts are configured with\<close>

definition build_fetcher_config :: "crawlrs_config \<Rightarrow> 's fetcher_config" where
  "build_fetcher_config c =
     fetcher_config_default\<lparr>fc_max_body_bytes := ft_max_body_bytes (cc_fetch c), fc_user_agent := ft_user_agent (cc_fetch c),
       fc_default_timeout := ft_default_timeout (cc_fetch c), fc_read_timeout := ft_read_timeout (cc_fetch c),
       fc_proxy := no_proxy_resolver\<rparr>"

definition build_politeness_config :: "crawlrs_config \<Rightarrow> politeness_config" where
  "build_politeness_config c =
     (let p = cc_politeness c; b = pl_backoff p in
      \<lparr>pc_enabled = pl_enabled p, pc_host_delay = pl_host_delay p, pc_obey_robots_txt = pl_obey_robots_txt p,
       pc_robots_ttl = pl_robots_ttl p,
       pc_user_agent = (case ft_user_agent (cc_fetch c) of Some ua \<Rightarrow> ua | None \<Rightarrow> pc_user_agent politeness_config_default),
       pc_backoff = \<lparr>bp_initial_backoff = bo_initial_backoff b, bp_max_backoff = bo_max_backoff b,
                     bp_multiplier = bo_multiplier b, bp_failure_threshold = bo_failure_threshold b\<rparr>,
       pc_per_domain = map (\<lambda>(host, ov). (host, \<lparr>po_host_delay = ov_host_delay ov, po_obey_robots_txt = ov_obey_robots_txt ov,
                                               po_robots_ttl = ov_robots_ttl ov\<rparr>)) (pl_per_domain p)\<rparr>)"

definition build_crawl_scope :: "crawlrs_config \<Rightarrow> crawl_scope" where
  "build_crawl_scope c =
     \<lparr>cs_max_depth = ct_max_depth (cc_crawl c), cs_max_urls = ct_max_urls (cc_crawl c),
      cs_per_domain = map_of (map (\<lambda>(host, ov). (host, \<lparr>co_max_depth = co_max_depth ov, co_max_urls = co_max_urls ov\<rparr>))
        (ct_per_domain (cc_crawl c)))\<rparr>"

definition build_blocklist :: "crawlrs_config \<Rightarrow> blocklist" where
  "build_blocklist c = \<lparr>bl_hosts = at_blocklist (cc_access c)\<rparr>"

subsection \<open>Pods and shards\<close>

definition rsplit_once :: "char \<Rightarrow> string \<Rightarrow> (string \<times> string) option" where
  "rsplit_once sep s = (case split_once sep (rev s) of None \<Rightarrow> None | Some (a, b) \<Rightarrow> Some (rev b, rev a))"

definition pod_ordinal_from_env :: "environment \<Rightarrow> u32" where
  "pod_ordinal_from_env env =
     (let hostname = (case env ''HOSTNAME'' of Some h \<Rightarrow> h | None \<Rightarrow> []) in
      case Option.bind (rsplit_once (CHR ''-'') hostname) (\<lambda>(_, digits). parse_uint U32_MAX digits) of
        Some n \<Rightarrow> n | None \<Rightarrow> 0)"

definition pod_name_ordinal :: "environment \<Rightarrow> u32 option" where
  "pod_name_ordinal env =
     (case env ''POD_NAME'' of None \<Rightarrow> None
      | Some name \<Rightarrow> (case rsplit_once (CHR ''-'') name of None \<Rightarrow> None | Some (_, digits) \<Rightarrow> parse_uint U32_MAX digits))"

definition pod_ordinal_string :: "environment \<Rightarrow> string option" where
  "pod_ordinal_string env = map_option show_nat (pod_name_ordinal env)"

definition build_runtime_config :: "environment \<Rightarrow> crawlrs_config \<Rightarrow> crawler_config" where
  "build_runtime_config env c =
     crawler_config_default\<lparr>wc_workers := rn_workers (cc_runtime c), wc_max_retries := rn_max_retries (cc_runtime c),
       wc_pod_ordinal := pod_ordinal_from_env env, wc_link_dispatch := rn_link_dispatch (cc_runtime c),
       wc_promoter_tick := fn_promoter_tick (cc_frontier c)\<rparr>"

text \<open>\<open>(start..stop).step_by(step)\<close>; the guard of the caller keeps \<open>step\<close> positive.\<close>

function step_by :: "u32 \<Rightarrow> u32 \<Rightarrow> nat \<Rightarrow> u32 list" where
  "step_by start stop step = (if start < stop \<and> 0 < step then start # step_by (start + step) stop step else [])"
  by auto
termination by (relation "measure (\<lambda>(start, stop, step). stop - start)") auto

declare step_by.simps [simp del]

definition derive_owned_shards :: "u32 \<Rightarrow> u32 list option \<Rightarrow> u32 option \<Rightarrow> u32 option \<Rightarrow> anyhow + u32 list" where
  "derive_owned_shards shards explicit ordinal replicas =
     (case explicit of
        Some listed \<Rightarrow>
          (case List.find (\<lambda>shard. shard \<ge> shards) listed of
             Some shard \<Rightarrow> Inl [''owned_shards entry '' @ show_nat shard @ '' >= num_shards '' @ show_nat shards]
           | None \<Rightarrow> Inr listed)
      | None \<Rightarrow>
          (case ordinal of None \<Rightarrow> Inr [0..<shards]
           | Some ordinal \<Rightarrow>
              (let replicas = (case replicas of Some r \<Rightarrow> r | None \<Rightarrow> shards);
                   owned = (if replicas = 0 then [] else step_by ordinal shards replicas)
               in if owned = [] then
                    Inl [''POD_NAME ordinal '' @ show_nat ordinal @ '' >= num_shards '' @ show_nat shards @
                         '' with replicas='' @ show_nat replicas @ ''; nothing to own'']
                  else Inr owned)))"

definition replicas_from_env :: "environment \<Rightarrow> u32 option" where
  "replicas_from_env env = Option.bind (env ''CRAWLRS_REPLICAS'') (parse_uint U32_MAX)"

definition owned_shards_of :: "environment \<Rightarrow> crawlrs_config \<Rightarrow> anyhow + u32 list" where
  "owned_shards_of env c =
     derive_owned_shards (sd_num_shards (cc_sharding c)) (sd_owned_shards (cc_sharding c)) (pod_name_ordinal env) (replicas_from_env env)"

definition POOL_HEADROOM :: u32 where "POOL_HEADROOM = 2"

text \<open>The sum wraps in a release build.\<close>

definition validate_pool_size :: "u32 \<Rightarrow> u32 \<Rightarrow> (u32 \<times> u32) + unit" where
  "validate_pool_size pool_max workers =
     (let required = (workers + POOL_HEADROOM) mod 2 ^ 32
      in if pool_max < required then Inl (pool_max, required) else Inr ())"


subsection \<open>One replica for every host\<close>

lemma set_step_by: "0 < step \<Longrightarrow> set (step_by start stop step) = {s. start \<le> s \<and> s < stop \<and> s mod step = start mod step}"
proof (induction start stop step rule: step_by.induct)
  case (1 start stop step)
  have split: "s = start \<or> start + step \<le> s" if "start \<le> s" "s mod step = start mod step" for s
  proof (cases "s = start")
    case False
    then have "0 < s - start" "step dvd s - start" using that by (auto simp: mod_eq_dvd_iff_nat)
    then have "step \<le> s - start" by (rule dvd_imp_le [rotated])
    then show ?thesis using that(1) by arith
  qed simp
  show ?case
  proof (cases "start < stop")
    case True
    then show ?thesis using 1 split by (subst step_by.simps) (auto simp: mod_add_self2)
  next
    case False
    then show ?thesis by (subst step_by.simps) auto
  qed
qed

lemma distinct_step_by: "distinct (step_by start stop step)"
proof (induction start stop step rule: step_by.induct)
  case (1 start stop step)
  then show ?case by (subst step_by.simps) (auto simp: set_step_by)
qed

lemma derive_strided:
  assumes "0 < r" "k < n"
  shows "derive_owned_shards n None (Some k) (Some r) = Inr (step_by k n r)"
proof -
  have "k \<in> set (step_by k n r)" using assms by (simp add: set_step_by)
  then have "step_by k n r \<noteq> []" by auto
  then show ?thesis using assms(1) by (simp add: derive_owned_shards_def)
qed

lemma derive_find_none: "derive_owned_shards n explicit ordinal replicas = Inr owned \<Longrightarrow> \<forall>s \<in> set owned. s < n"
  by (auto simp: derive_owned_shards_def Let_def find_None_iff not_le set_step_by simp del: show_nat.simps split: option.splits if_splits)

text \<open>C8: the replicas of a deployment share the shards without overlap. With at most as many replicas as shards every
  pod has shards of its own to serve, the frontier accepts them, and for every host there is exactly one pod
  that owns the host's shard.\<close>

theorem replicas_partition_hosts:
  assumes "0 < replicas" "replicas \<le> shards" "\<forall>shard. reserve (replies shard) = Inr ()"
  shows "\<exists>owned. (\<forall>k < replicas. derive_owned_shards shards None (Some k) (Some replicas) = Inr (owned k) \<and>
       distinct (owned k) \<and> owned k \<noteq> [] \<and>
       \<not> isl (rf_new ops (HostHashShardPolicy shards) (owned k) scope blake3 replies)) \<and>
     (\<forall>host. \<exists>!k. k < replicas \<and> shard_key_from_host (HostHashShardPolicy shards) host \<in> set (owned k))"
proof (intro exI conjI allI impI)
  let ?owned = "\<lambda>k. step_by k shards replicas"
  fix k assume "k < replicas"
  then have k: "k < shards" using assms(2) by simp
  show "derive_owned_shards shards None (Some k) (Some replicas) = Inr (?owned k)"
    using derive_strided assms(1) k by blast
  show "distinct (?owned k)" by (rule distinct_step_by)
  have "k \<in> set (?owned k)" using k assms(1) by (simp add: set_step_by)
  then show "?owned k \<noteq> []" by auto
  have "List.find (\<lambda>shard. shard \<ge> shards) (?owned k) = None"
    using assms(1) by (simp add: find_None_iff set_step_by not_le)
  moreover have "reserve_all replies ss = Inr ()" for ss
    using assms(3) by (induction ss) auto
  ultimately show "\<not> isl (rf_new ops (HostHashShardPolicy shards) (?owned k) scope blake3 replies)"
    by (simp add: rf_new_def)
next
  fix host
  let ?s = "shard_key_from_host (HostHashShardPolicy shards) host"
  have "?s < shards" using assms by simp
  show "\<exists>!k. k < replicas \<and> ?s \<in> set (step_by k shards replicas)"
  proof (rule ex1I [of _ "?s mod replicas"])
    show "?s mod replicas < replicas \<and> ?s \<in> set (step_by (?s mod replicas) shards replicas)"
      using \<open>?s < shards\<close> assms(1) by (simp add: set_step_by del: shard_key_from_host.simps)
  next
    fix k assume "k < replicas \<and> ?s \<in> set (step_by k shards replicas)"
    then show "k = ?s mod replicas" using assms(1) by (simp add: set_step_by del: shard_key_from_host.simps)
  qed
qed

theorem replicas_partition_hosts_witness:
  "\<exists>owned :: nat \<Rightarrow> nat list. owned 1 = [1, 4, 7] \<and> (\<exists>!k. k < 3 \<and> shard_key_from_host (HostHashShardPolicy 8) ''e.test'' \<in> set (owned k))"
proof -
  have seven: "step_by 1 8 3 = [1, 4, 7]" by (simp add: step_by.simps)
  have "(0::nat) < 3" "(3::nat) \<le> 8" "\<forall>shard::nat. reserve ((\<lambda>_. ReserveOk) shard) = Inr ()" by simp_all
  from replicas_partition_hosts [OF this, of mem_hq undefined undefined]
  obtain owned where o: "\<forall>k < 3. derive_owned_shards 8 None (Some k) (Some 3) = Inr (owned k)"
      "\<exists>!k. k < 3 \<and> shard_key_from_host (HostHashShardPolicy 8) ''e.test'' \<in> set (owned k)"
    by blast
  have "owned 1 = [1, 4, 7]" using o(1) [rule_format, of 1] derive_strided [of 3 1 8] seven by simp
  then show ?thesis using o(2) by (intro exI [of _ owned] conjI)
qed

text \<open>More pods than shards: the pods past the last shard refuse to start, whatever the stride.\<close>

lemma surplus_pod_refused: "shards \<le> k \<Longrightarrow> isl (derive_owned_shards shards None (Some k) replicas)"
  by (auto simp: derive_owned_shards_def step_by.simps simp del: show_nat.simps split: option.splits)

subsection \<open>One identity on the wire and in robots.txt\<close>



text \<open>A file with the required tables only, and one with an agent.\<close>

definition plain_config :: crawlrs_config where
  "plain_config =
     \<lparr>cc_run_id = ''r1'', cc_redis = \<lparr>rt_url = Secret ''redis://localhost'', rt_pool_size = default_redis_pool_size\<rparr>,
      cc_postgres = \<lparr>pt_url = Secret ''postgres://localhost/crawlrs'', pt_pool_size = default_postgres_pool_size\<rparr>,
      cc_fetch = fetch_table_default, cc_crawl = crawl_table_default, cc_access = \<lparr>at_blocklist = []\<rparr>,
      cc_politeness = politeness_table_default, cc_runtime = runtime_table_default, cc_frontier = frontier_table_default,
      cc_store = store_table_default, cc_server = server_table_default, cc_sharding = sharding_table_default\<rparr>"

definition named_config :: crawlrs_config where
  "named_config = plain_config\<lparr>cc_fetch := fetch_table_default\<lparr>ft_user_agent := Some ''bot/1''\<rparr>\<rparr>"

definition load_demo :: "crawlrs_config \<Rightarrow> anyhow + crawlrs_config" where
  "load_demo c = load_config (\<lambda>_. Inr ''file'') (\<lambda>_. Inr c) Map.empty ''crawl.toml''"

lemmas config_demo = load_demo_def load_config_def apply_env_overlay_def overlay_backend_def validate_config_def named_config_def plain_config_def
  fetch_table_default_def politeness_table_default_def backoff_table_default_def store_table_default_def store_backend_default_def

lemma named_config_loads: "load_demo named_config = Inr named_config"
  by (simp add: config_demo)

lemma named_config_sel: "effective_obey_robots (from_parts noop_parts (build_politeness_config named_config)) ''e.test''"
  "pl_per_domain (cc_politeness named_config) = []"
  by (simp_all add: config_demo effective_obey_robots_def from_parts_def build_politeness_config_def)


text \<open>The file with the required tables only is refused: robots.txt is obeyed by default and no agent is.\<close>

lemma plain_config_refused: "load_demo plain_config = Inl [no_identity]"
  by (simp add: config_demo)

text \<open>Validation looks at the global switch only: an override that obeys robots.txt for one host loads without an
  agent, and the rules applied there are those of a name that is on no request.\<close>

lemma override_without_identity:
  fixes h :: string
  defines "c \<equiv> plain_config\<lparr>cc_politeness := politeness_table_default\<lparr>pl_obey_robots_txt := False,
    pl_per_domain := [(h, \<lparr>ov_host_delay = None, ov_obey_robots_txt = Some True, ov_robots_ttl = None\<rparr>)]\<rparr>\<rparr>"
  shows "load_demo c = Inr c" "effective_obey_robots (from_parts parts (build_politeness_config c)) h"
    "fc_user_agent (build_fetcher_config c) = None"
  by (simp_all add: c_def config_demo effective_obey_robots_def from_parts_def build_politeness_config_def build_fetcher_config_def
      fetcher_config_default_def)


subsection \<open>The frontier of a configuration\<close>

text \<open>What the factory meets on the side of Redis: the error of parsing its URL, of opening the pool and of
  \<^verbatim>\<open>BF.RESERVE\<close> on a key with a rate and a capacity; then the server, the client's conversions and postcard, and
  BLAKE3. The texts of the host queue's errors are those of the client.\<close>

record 'db redis_side =
  rx_manager_error :: "string \<Rightarrow> string option"
  rx_pool_error :: "u32 \<Rightarrow> string option"
  rx_reserve :: "string \<Rightarrow> rat \<Rightarrow> u64 \<Rightarrow> reserve_reply"
  rx_redis :: "'db redis"
  rx_conv :: redis_conv
  rx_codec :: url_codec
  rx_blake3 :: "string \<Rightarrow> string"
  rx_hq_text :: "hq_error \<Rightarrow> string"

definition build_redis_pool :: "'db redis_side \<Rightarrow> crawlrs_config \<Rightarrow> anyhow + unit" where
  "build_redis_pool R c =
     (let url = expose (rt_url (cc_redis c)) in
      if starts_with url ''redis-sentinel://'' then
        Inl [''redis-sentinel:// URLs aren't supported yet; use redis:// against a Sentinel-aware proxy or pin a primary'']
      else case rx_manager_error R url of Some e \<Rightarrow> Inl [''parsing Redis URL'', e]
        | None \<Rightarrow> (case rx_pool_error R (rt_pool_size (cc_redis c)) of Some e \<Rightarrow> Inl [''building Redis bb8 pool'', e] | None \<Rightarrow> Inr ()))"

definition frontier_of ::
  "'db redis_side \<Rightarrow> crawlrs_config \<Rightarrow> sharding_policy \<Rightarrow> u32 list \<Rightarrow> anyhow + 'db redis_frontier" where
  "frontier_of R c policy owned =
     (case rf_new \<lparr>hq_redis = rx_redis R, hq_conv = rx_conv R, hq_codec = rx_codec R, hq_run = cc_run_id c\<rparr> policy owned
             (build_crawl_scope c) (rx_blake3 R)
             (\<lambda>shard. rx_reserve R (seen_key (cc_run_id c) shard) (fn_bloom_fpr (cc_frontier c)) (fn_bloom_capacity (cc_frontier c))) of
        Inl e \<Rightarrow> Inl [''constructing RedisFrontier'', show_error (rf_to_error (rx_hq_text R) e)]
      | Inr F \<Rightarrow> Inr (with_lease_timeout (fn_lease_timeout (cc_frontier c)) F))"

text \<open>\<open>build_frontier\<close> of the seed command owns every shard; \<open>None\<close> is the panic of a policy without shards.\<close>

definition build_frontier :: "'db redis_side \<Rightarrow> crawlrs_config \<Rightarrow> (anyhow + 'db redis_frontier) option" where
  "build_frontier R c =
     (case host_hash_new (sd_num_shards (cc_sharding c)) of None \<Rightarrow> None
      | Some policy \<Rightarrow>
          Some (case build_redis_pool R c of Inl e \<Rightarrow> Inl e
                | Inr _ \<Rightarrow> frontier_of R c policy [0..<sd_num_shards (cc_sharding c)]))"

lemma frontier_of_sel:
  assumes "frontier_of R c policy owned = Inr F"
  shows "rf_sharding F = policy" "rf_owned F = owned" "rf_blake3 F = rx_blake3 R" "rf_scope F = build_crawl_scope c"
    "rf_lease_timeout F = fn_lease_timeout (cc_frontier c)"
    "rf_ops F = \<lparr>hq_redis = rx_redis R, hq_conv = rx_conv R, hq_codec = rx_codec R, hq_run = cc_run_id c\<rparr>"
    "\<forall>shard \<in> set owned. shard < shard_count policy"
  using assms by (auto simp: frontier_of_def rf_new_def with_lease_timeout_def find_None_iff not_le split: sum.splits option.splits)

lemma build_frontier_sel:
  assumes "build_frontier R c = Some (Inr F)"
  shows "rf_sharding F = HostHashShardPolicy (sd_num_shards (cc_sharding c))" "rf_owned F = [0..<sd_num_shards (cc_sharding c)]"
    "0 < sd_num_shards (cc_sharding c)" "rf_blake3 F = rx_blake3 R" "rf_scope F = build_crawl_scope c"
    "rf_ops F = \<lparr>hq_redis = rx_redis R, hq_conv = rx_conv R, hq_codec = rx_codec R, hq_run = cc_run_id c\<rparr>"
  using assms frontier_of_sel [of R c _ "[0..<sd_num_shards (cc_sharding c)]" F]
  by (auto simp: build_frontier_def host_hash_new_def split: option.splits sum.splits if_splits)

text \<open>A missing RedisBloom module reads like any other fault of the filter: the message of the cause is dropped.\<close>

lemma bloom_cause_lost:
  assumes "0 < shard_count policy" "rx_reserve R (seen_key (cc_run_id c) 0) (fn_bloom_fpr (cc_frontier c)) (fn_bloom_capacity (cc_frontier c)) = ReserveErr m"
    and "\<not> contains m ''item exists''"
  shows "frontier_of R c policy [0] = Inl [''constructing RedisFrontier'', show_error (EFrontier ''bloom'')]"
  using assms by (simp add: frontier_of_def rf_new_def rf_to_error_def show_frontier_error_def)


end
