(* ===== verification/Seeding.thy ===== *)
theory Seeding
  imports Crawl_Config Outbox_Relay
begin

text \<open>
  \<^verbatim>\<open>crawlrs-bin/src/seed.rs\<close> and the factory's \<open>build_frontier\<close>: reading a seeds file and submitting it in batches. Any
  frontier is a submit function on a state; \<open>None\<close> is a panic. File access and the Redis pool are parameters.
\<close>

subsection \<open>The seeds file\<close>

text \<open>\<open>str::lines\<close>: pieces between newlines without a final empty one, and without a carriage return before the newline.\<close>

definition strip_cr :: "string \<Rightarrow> string" where
  "strip_cr l = (if l \<noteq> [] \<and> List.last l = CHR 0x0D then butlast l else l)"

definition text_lines :: "string \<Rightarrow> string list" where
  "text_lines s =
     (let ps = split_char (CHR 0x0A) s in
      map strip_cr (butlast ps) @ (if List.last ps = [] then [] else [List.last ps]))"

text \<open>The entries and the number of lines skipped as malformed.\<close>

fun seed_loop :: "'u url_ops \<Rightarrow> string list \<Rightarrow> url_entry list \<Rightarrow> u64 \<Rightarrow> url_entry list \<times> u64" where
  "seed_loop U [] entries skipped = (entries, skipped)"
| "seed_loop U (raw_line # lines) entries skipped =
     (let line = trim raw_line in
      if line = [] \<or> starts_with line ''#'' then seed_loop U lines entries skipped
      else case url_parse U line of
        Inr url \<Rightarrow> seed_loop U lines (entries @ [seed_entry (view_of U url)]) skipped
      | Inl _ \<Rightarrow> seed_loop U lines entries (skipped + 1))"

definition read_seeds :: "'u url_ops \<Rightarrow> (string \<Rightarrow> string + string) \<Rightarrow> string \<Rightarrow> anyhow + url_entry list" where
  "read_seeds U read_to_string path =
     (case read_to_string path of Inl e \<Rightarrow> Inl [''reading seeds file '' @ path, e]
      | Inr contents \<Rightarrow> Inr (fst (seed_loop U (text_lines contents) [] 0)))"

subsection \<open>Submitting in batches\<close>

text \<open>\<open>slice::chunks\<close>, which panics on the size 0.\<close>

function chunks :: "nat \<Rightarrow> 'a list \<Rightarrow> 'a list list" where
  "chunks n xs = (if xs = [] \<or> n = 0 then [] else take n xs # chunks n (drop n xs))"
  by auto
termination by (relation "measure (\<lambda>(n, xs). length xs)") auto

declare chunks.simps [simp del]

record seed_totals =
  tl_queued :: u64
  tl_rejected :: u64
  tl_failed :: u64
  tl_attempted :: u64
  tl_succeeded :: u64

definition seed_totals_zero :: seed_totals where
  "seed_totals_zero = \<lparr>tl_queued = 0, tl_rejected = 0, tl_failed = 0, tl_attempted = 0, tl_succeeded = 0\<rparr>"

fun batches_loop ::
  "(url_entry list \<Rightarrow> 's \<Rightarrow> ('e + submit_batch_outcome) \<times> 's) \<Rightarrow> url_entry list list \<Rightarrow> seed_totals \<Rightarrow> 's \<Rightarrow> seed_totals \<times> 's" where
  "batches_loop submit [] t s = (t, s)"
| "batches_loop submit (chunk # rest) t s =
     (let t = t\<lparr>tl_attempted := tl_attempted t + 1\<rparr> in
      case submit chunk s of
        (Inr outcome, s) \<Rightarrow>
          batches_loop submit rest
            (t\<lparr>tl_succeeded := tl_succeeded t + 1, tl_queued := tl_queued t + sb_queued outcome,
               tl_rejected := tl_rejected t + length (sb_rejected_urls outcome)\<rparr>) s
      | (Inl e, s) \<Rightarrow> batches_loop submit rest (t\<lparr>tl_failed := tl_failed t + length chunk\<rparr>) s)"

definition bloom_duplicates :: "nat \<Rightarrow> seed_totals \<Rightarrow> u64" where
  "bloom_duplicates submitted t = submitted - (tl_queued t + tl_rejected t + tl_failed t)"

definition submit_in_batches ::
  "(url_entry list \<Rightarrow> 's \<Rightarrow> ('e + submit_batch_outcome) \<times> 's) \<Rightarrow> url_entry list \<Rightarrow> nat \<Rightarrow> 's \<Rightarrow>
   ((anyhow + unit) \<times> seed_totals \<times> 's) option" where
  "submit_in_batches submit entries batch_size s =
     (if batch_size = 0 then None
      else let (t, s) = batches_loop submit (chunks batch_size entries) seed_totals_zero s
           in Some (if tl_succeeded t = 0
                    then Inl [''all '' @ show_nat (tl_attempted t) @ '' seed batch(es) failed; nothing was loaded''] else Inr (), t, s))"

text \<open>What the call of one batch meets: the order of the map from shards to entries, the clock and the faults.\<close>

record seed_turn =
  sn_order :: "u32 list \<Rightarrow> u32 list"
  sn_now_ms :: int
  sn_fault :: "u32 \<Rightarrow> fault"

definition frontier_submit ::
  "'db redis_frontier \<Rightarrow> (nat \<Rightarrow> seed_turn) \<Rightarrow> url_entry list \<Rightarrow> nat \<times> 'db \<Rightarrow>
   (redis_frontier_error + submit_batch_outcome) \<times> nat \<times> 'db" where
  "frontier_submit F turns es s =
     (let T = turns (fst s); (r, db) = rf_submit_batch F (sn_order T) es (sn_now_ms T) (sn_fault T) (snd s)
      in (r, Suc (fst s), db))"

definition seed_command ::
  "'u url_ops \<Rightarrow> 'db redis_side \<Rightarrow> (string \<Rightarrow> string + string) \<Rightarrow> (string \<Rightarrow> string + crawlrs_config) \<Rightarrow> environment \<Rightarrow>
   (nat \<Rightarrow> seed_turn) \<Rightarrow> string \<Rightarrow> string \<Rightarrow> nat \<Rightarrow> 'db \<Rightarrow> ((anyhow + unit) \<times> 'db) option" where
  "seed_command U R read_to_string from_toml env turns config_path path batch_size db =
     (case with_context (''loading config '' @ config_path) (load_config read_to_string from_toml env config_path) of
        Inl e \<Rightarrow> Some (Inl e, db)
      | Inr c \<Rightarrow>
         (case build_frontier R c of None \<Rightarrow> None
          | Some (Inl e) \<Rightarrow> Some (Inl (''factory::build_frontier'' # e), db)
          | Some (Inr F) \<Rightarrow>
             (case read_seeds U read_to_string path of Inl e \<Rightarrow> Some (Inl e, db)
              | Inr entries \<Rightarrow>
                  if entries = [] then Some (Inr (), db)
                  else case submit_in_batches (frontier_submit F turns) entries batch_size (0, db) of None \<Rightarrow> None
                    | Some (r, _, _, db) \<Rightarrow> Some (r, db))))"

subsection \<open>What a frontier promises a loader\<close>

definition refused :: "(url_entry \<Rightarrow> bool) \<Rightarrow> url_entry list \<Rightarrow> bool" where
  "refused fine es = (\<exists>e \<in> set es. \<not> fine e)"

text \<open>A frontier takes a batch of well-formed entries when each of them is \<open>fine\<close>, refuses one with an entry that is not,
  and counts no entry twice.\<close>

locale batch_frontier =
  fixes submit :: "url_entry list \<Rightarrow> 's \<Rightarrow> ('e + submit_batch_outcome) \<times> 's"
    and valid fine :: "url_entry \<Rightarrow> bool"
  assumes takes: "\<forall>e \<in> set es. valid e \<and> fine e \<Longrightarrow> \<not> isl (fst (submit es s))"
    and refuses: "e \<in> set es \<Longrightarrow> \<not> fine e \<Longrightarrow> isl (fst (submit es s))"
    and accounts: "\<forall>e \<in> set es. valid e \<Longrightarrow> submit es s = (Inr out, s') \<Longrightarrow> sb_queued out + length (sb_rejected_urls out) \<le> length es"
begin

lemma batch_cases:
  assumes "\<forall>e \<in> set es. valid e"
  obtains (Taken) out s' where "\<not> refused fine es" "submit es s = (Inr out, s')" "sb_queued out + length (sb_rejected_urls out) \<le> length es"
  | (Refused) x s' where "refused fine es" "submit es s = (Inl x, s')"
proof -
  obtain r s' where r: "submit es s = (r, s')" by (metis surj_pair)
  have "isl r = refused fine es"
    using takes [of es s] refuses [of _ es s] assms r by (auto simp: refused_def)
  then show thesis using r accounts [OF assms, of s] that by (cases r) auto
qed

lemma totals:
  "\<forall>e \<in> set (concat cs). valid e \<Longrightarrow> batches_loop submit cs t s = (t', s') \<Longrightarrow>
   tl_failed t' = tl_failed t + sum_list (map length (filter (refused fine) cs)) \<and>
   tl_succeeded t' = tl_succeeded t + length (filter (\<lambda>c. \<not> refused fine c) cs) \<and>
   tl_attempted t' = tl_attempted t + length cs \<and>
   tl_queued t' + tl_rejected t' + tl_failed t' \<le> tl_queued t + tl_rejected t + tl_failed t + length (concat cs) \<and>
   s' = fold (\<lambda>c s. snd (submit c s)) cs s"
proof (induction cs arbitrary: t s)
  case (Cons c cs)
  from Cons.prems(1) have v: "\<forall>e \<in> set c. valid e" and vs: "\<forall>e \<in> set (concat cs). valid e" by auto
  from v show ?case
  proof (cases rule: batch_cases [where s = s])
    case (Taken out s1)
    with Cons.IH [OF vs, of _ s1] Cons.prems(2) show ?thesis by fastforce
  next
    case (Refused x s1)
    with Cons.IH [OF vs, of _ s1] Cons.prems(2) show ?thesis by fastforce
  qed
qed simp

end

lemma concat_chunks: "0 < n \<Longrightarrow> concat (chunks n xs) = xs"
proof (induction n xs rule: chunks.induct)
  case (1 n xs)
  then show ?case by (cases "xs = []") (simp_all add: chunks.simps)
qed

lemma chunks_nonempty: "0 < n \<Longrightarrow> xs \<noteq> [] \<Longrightarrow> chunks n xs \<noteq> []"
  by (simp add: chunks.simps)

lemma chunks_bound: "c \<in> set (chunks n xs) \<Longrightarrow> c \<noteq> [] \<and> length c \<le> n"
proof (induction n xs rule: chunks.induct)
  case (1 n xs)
  then show ?case by (cases "xs = [] \<or> n = 0") (auto simp: chunks.simps [of n xs])
qed


subsection \<open>Seeding the Redis frontier\<close>

text \<open>The loader's frontier owns every shard, so an entry is refused exactly when it has no host.\<close>

definition has_host :: "url_entry \<Rightarrow> bool" where
  "has_host e = (cu_host (ue_url e) \<noteq> None)"

definition seed_valid :: "'db redis_frontier \<Rightarrow> url_entry \<Rightarrow> bool" where
  "seed_valid F e = (\<not> isl (codec_encode (hq_codec (rf_ops F)) e) \<and> url_id_ok (from_canonical (rf_blake3 F) (ue_url e)))"

definition calm_turn :: "seed_turn \<Rightarrow> bool" where
  "calm_turn T = (sn_fault T = (\<lambda>_. NoFault) \<and> (\<forall>ks. distinct ks \<longrightarrow> distinct (sn_order T ks)))"

locale seed_frontier =
  fixes F :: "'db redis_frontier" and turns :: "nat \<Rightarrow> seed_turn"
  assumes live: "live_host_queue (rf_ops F)" and policy: "policy_ok (rf_sharding F)"
    and owns: "{..<shard_count (rf_sharding F)} \<subseteq> set (rf_owned F)" and calm: "calm_turn (turns i)"
begin

lemma shard_of_iff: "isl (rf_shard_of F e) \<longleftrightarrow> \<not> has_host e"
  using shard_key_of_host_opt_bound [OF policy, of "cu_host (ue_url e)"] owns
  by (auto simp: rf_shard_of_def has_host_def Let_def shard_key_def split: option.split)

lemma submit_takes: "\<forall>e \<in> set es. seed_valid F e \<and> has_host e \<Longrightarrow> \<not> isl (fst (frontier_submit F turns es s))"
  using submit_batch_ok [OF live, of es "sn_order (turns (fst s))" "sn_now_ms (turns (fst s))" "snd s"] calm [of "fst s"]
  by (auto simp: frontier_submit_def Let_def calm_turn_def seed_valid_def shard_of_iff)

lemma submit_refuses: "e \<in> set es \<Longrightarrow> \<not> has_host e \<Longrightarrow> isl (fst (frontier_submit F turns es s))"
proof -
  assume "e \<in> set es" "\<not> has_host e"
  then have "isl (mapM_result (rf_locate F) es)" "es \<noteq> []"
    using shard_of_iff [of e] by (induction es) (auto simp: rf_locate_def split: sum.splits)
  then show ?thesis by (auto simp: frontier_submit_def rf_submit_batch_def Let_def split: sum.splits)
qed

lemma submit_accounts:
  assumes "\<forall>e \<in> set es. seed_valid F e" "frontier_submit F turns es s = (Inr out, s')"
  shows "sb_queued out + length (sb_rejected_urls out) \<le> length es"
proof -
  obtain db' where "rf_submit_batch F (sn_order (turns (fst s))) es (sn_now_ms (turns (fst s))) (sn_fault (turns (fst s))) (snd s) = (Inr out, db')"
    using assms(2) by (auto simp: frontier_submit_def Let_def split: prod.splits)
  from batch_accounts [OF live _ _ this] show ?thesis
    using assms(1) calm [of "fst s"] by (auto simp: seed_valid_def calm_turn_def)
qed

end

sublocale seed_frontier \<subseteq> batch_frontier "frontier_submit F turns" "seed_valid F" has_host
  by unfold_locales (fact submit_takes submit_refuses submit_accounts)+

context seed_frontier begin

lemmas seeding_totals = totals

end

lemma built_seeds:
  assumes "build_frontier R c = Some (Inr F)" "sd_num_shards (cc_sharding c) \<le> U32_MAX" "live_host_queue (rf_ops F)"
    and "\<forall>i. calm_turn (turns i)"
  shows "seed_frontier F turns"
  using build_frontier_sel [OF assms(1)] assms(2-4) by (intro seed_frontier.intro) auto


text \<open>C38: a seed without a host costs its whole batch, and nothing else does. With a frontier built from the
  configuration and no fault, the seeds that fail are exactly those of the batches that hold an entry without
  a host; the command succeeds when one batch is free of them, and every seed is counted once as queued,
  rejected, duplicate or failed.\<close>

theorem seed_batch_accounting:
  assumes "build_frontier R c = Some (Inr F)" "sd_num_shards (cc_sharding c) \<le> U32_MAX" "live_host_queue (rf_ops F)"
    and "\<forall>i. calm_turn (turns i)" "\<forall>e \<in> set entries. seed_valid F e" "0 < batch_size"
  defines "bad \<equiv> \<lambda>es. \<exists>e \<in> set es. cu_host (ue_url e) = None"
  shows "\<exists>r t s. submit_in_batches (frontier_submit F turns) entries batch_size (0, db) = Some (r, t, s) \<and>
     tl_failed t = sum_list (map length (filter bad (chunks batch_size entries))) \<and>
     (r = Inr () \<longleftrightarrow> (\<exists>es \<in> set (chunks batch_size entries). \<not> bad es)) \<and>
     tl_queued t + tl_rejected t + tl_failed t + bloom_duplicates (length entries) t = length entries"
proof -
  have bad: "refused has_host = bad" by (simp add: fun_eq_iff refused_def bad_def has_host_def)
  obtain t s where ts: "batches_loop (frontier_submit F turns) (chunks batch_size entries) seed_totals_zero (0, db) = (t, s)"
    by (metis surj_pair)
  note tot = seed_frontier.seeding_totals [OF built_seeds [OF assms(1-4)] _ ts]
  from assms(5,6) tot have sums: "tl_failed t = sum_list (map length (filter bad (chunks batch_size entries)))"
      "tl_succeeded t = length (filter (\<lambda>c. \<not> bad c) (chunks batch_size entries))"
      "tl_queued t + tl_rejected t + tl_failed t \<le> length entries"
    by (simp_all add: concat_chunks seed_totals_zero_def bad)
  then have "tl_succeeded t = 0 \<longleftrightarrow> \<not> (\<exists>es \<in> set (chunks batch_size entries). \<not> bad es)"
    by (simp add: filter_empty_conv)
  then show ?thesis
    using assms(6) ts sums by (simp add: submit_in_batches_def bloom_duplicates_def)
qed

text \<open>Two seeds in batches of one, on a Redis in memory; the second has no host.\<close>

definition seed_side :: "mem_db redis_side" where
  "seed_side =
     \<lparr>rx_manager_error = (\<lambda>_. None), rx_pool_error = (\<lambda>_. None), rx_reserve = (\<lambda>_ _ _. ReserveOk), rx_redis = hq_redis mem_hq,
      rx_conv = hq_conv mem_hq, rx_codec = hq_codec mem_hq, rx_blake3 = (\<lambda>_. replicate 32 CHR ''a''), rx_hq_text = (\<lambda>_. '''')\<rparr>"

definition seed_config :: crawlrs_config where
  "seed_config = named_config\<lparr>cc_run_id := hq_run mem_hq\<rparr>"

definition eight_shards :: "mem_db redis_frontier" where
  "eight_shards =
     \<lparr>rf_ops = mem_hq, rf_sharding = HostHashShardPolicy 8, rf_owned = [0..<8], rf_lease_timeout = 60 * NANOS,
      rf_tick_batch_limit = DEFAULT_TICK_BATCH_LIMIT, rf_scope = build_crawl_scope seed_config, rf_blake3 = (\<lambda>_. replicate 32 CHR ''a'')\<rparr>"

definition quiet_turn :: "nat \<Rightarrow> seed_turn" where
  "quiet_turn i = \<lparr>sn_order = (\<lambda>ks. ks), sn_now_ms = 5, sn_fault = (\<lambda>_. NoFault)\<rparr>"

definition hostless_entry :: url_entry where
  "hostless_entry = seed_entry \<lparr>cu_str = ''mailto:a@e.test'', cu_scheme = ''mailto'', cu_host = None, cu_path = ''a@e.test''\<rparr>"

lemma eight_shards_built: "build_frontier seed_side seed_config = Some (Inr eight_shards)"
  by (simp add: build_frontier_def host_hash_new_def build_redis_pool_def frontier_of_def rf_new_def with_lease_timeout_def eight_shards_def
      seed_config_def seed_side_def config_demo sharding_table_default_def frontier_table_default_def build_crawl_scope_def upt_rec)

lemma quiet_turn_calm: "calm_turn (quiet_turn i)"
  by (simp add: calm_turn_def quiet_turn_def)

interpretation mem_seeds: seed_frontier eight_shards quiet_turn
  using mem_hq.live_host_queue_axioms quiet_turn_calm by (intro seed_frontier.intro) (auto simp: eight_shards_def)

lemma seeds_valid: "seed_valid eight_shards demo_entry" "seed_valid eight_shards hostless_entry"
  by (simp_all add: seed_valid_def eight_shards_def from_canonical_def url_id_ok_def ref_codec_def codec_encode_def ref_encode_def)

theorem seed_batch_accounting_witness:
  "\<exists>r t s. submit_in_batches (frontier_submit eight_shards quiet_turn) [demo_entry, hostless_entry] 1 (0, empty_mem) = Some (r, t, s) \<and>
     r = Inr () \<and> tl_failed t = 1"
proof -
  have "sd_num_shards (cc_sharding seed_config) \<le> U32_MAX" "rf_ops eight_shards = mem_hq"
    by (simp_all add: seed_config_def config_demo sharding_table_default_def eight_shards_def)
  then show ?thesis
    using seed_batch_accounting [OF eight_shards_built, of quiet_turn "[demo_entry, hostless_entry]" 1 empty_mem]
      mem_hq.live_host_queue_axioms quiet_turn_calm seeds_valid
    by (auto simp: chunks.simps demo_entry_def hostless_entry_def seed_entry_def)
qed


end
