(* ===== verification/Warc_Record.thy ===== *)
theory Warc_Record
  imports Core_Types
begin

text \<open>
  \<^verbatim>\<open>crawlrs-store/src/warc_record.rs\<close>: the bytes of a WARC record, and a reader of such records written from
  the format: header lines up to an empty one, the content its length names, two line ends. The
  compressor, the phrase of a status code, the date format and the record id generator are parameters.
\<close>

subsection \<open>Encoding\<close>

record warc_env =
  wx_gzip :: "string \<Rightarrow> string"
  wx_version :: string
  wx_reason :: "nat \<Rightarrow> string option"
  wx_date :: "u64 \<Rightarrow> string"

definition crlf :: string where
  "crlf = [CHR 0x0D, CHR 0x0A]"

definition line :: "string \<Rightarrow> string" where
  "line s = s @ crlf"

definition new_record_id :: "string \<Rightarrow> string" where
  "new_record_id cuid = ''<urn:crawlrs:'' @ cuid @ ''>''"

definition framed :: "warc_env \<Rightarrow> string \<Rightarrow> string \<Rightarrow> string" where
  "framed E header body = wx_gzip E (header @ body @ crlf @ crlf)"

definition warcinfo_body :: "warc_env \<Rightarrow> string \<Rightarrow> string" where
  "warcinfo_body E run_id =
     line (''software: crawlrs/'' @ wx_version E) @ line ''format: WARC File Format 1.1'' @ line (''run-id: '' @ run_id)"

definition warcinfo_header :: "warc_env \<Rightarrow> string \<Rightarrow> u64 \<Rightarrow> nat \<Rightarrow> string" where
  "warcinfo_header E cuid now len =
     concat (map line [''WARC/1.1'', ''WARC-Type: warcinfo'', ''WARC-Record-ID: '' @ new_record_id cuid, ''WARC-Date: '' @ wx_date E now,
       ''Content-Type: application/warc-fields'', ''Content-Length: '' @ show_nat len]) @ crlf"

definition encode_warcinfo :: "warc_env \<Rightarrow> string \<Rightarrow> string \<Rightarrow> u64 \<Rightarrow> string" where
  "encode_warcinfo E run_id cuid now =
     (let body = warcinfo_body E run_id in framed E (warcinfo_header E cuid now (length body)) body)"

definition build_http_response_payload :: "warc_env \<Rightarrow> store_record \<Rightarrow> string" where
  "build_http_response_payload E record =
     (let resp = sr_resp record; reason = (case wx_reason E (fr_status resp) of Some r \<Rightarrow> r | None \<Rightarrow> '''') in
      line (''HTTP/1.1 '' @ show_nat (fr_status resp) @ '' '' @ reason) @
      concat (map (\<lambda>(name, value). line (name @ '': '' @ value)) (fr_headers resp)) @ crlf @ fr_body resp)"

definition response_header :: "warc_env \<Rightarrow> store_record \<Rightarrow> string \<Rightarrow> nat \<Rightarrow> string" where
  "response_header E record cuid len =
     concat (map line [''WARC/1.1'', ''WARC-Type: response'', ''WARC-Target-URI: '' @ cu_str (fr_url (sr_resp record)),
       ''WARC-Record-ID: '' @ new_record_id cuid, ''WARC-Date: '' @ wx_date E (fr_fetched_at (sr_resp record)),
       ''Content-Type: application/http;msgtype=response'', ''Content-Length: '' @ show_nat len]) @ crlf"

definition encode_response :: "warc_env \<Rightarrow> store_record \<Rightarrow> string \<Rightarrow> string" where
  "encode_response E record cuid =
     (let payload = build_http_response_payload E record in framed E (response_header E record cuid (length payload)) payload)"

subsection \<open>Reading\<close>

fun take_line :: "string \<Rightarrow> (string \<times> string) option" where
  "take_line [] = None"
| "take_line [c] = None"
| "take_line (c # d # cs) =
     (if c = CHR 0x0D \<and> d = CHR 0x0A then Some ([], cs)
      else case take_line (d # cs) of None \<Rightarrow> None | Some (l, r) \<Rightarrow> Some (c # l, r))"

lemma take_line_shorter: "take_line s = Some (l, r) \<Longrightarrow> length r < length s"
  by (induction s arbitrary: l rule: take_line.induct) (auto split: if_splits option.splits)

function read_head :: "string \<Rightarrow> (string list \<times> string) option" where
  "read_head s =
     (case take_line s of None \<Rightarrow> None
      | Some (l, r) \<Rightarrow>
          if l = [] then Some ([], r)
          else case read_head r of None \<Rightarrow> None | Some (ls, r) \<Rightarrow> Some (l # ls, r))"
  by pat_completeness auto
termination
  by (relation "measure length") (auto dest: take_line_shorter)

declare read_head.simps [simp del]

definition content_length :: "string list \<Rightarrow> nat option" where
  "content_length ls =
     (case List.find (\<lambda>l. starts_with l ''Content-Length: '') ls of None \<Rightarrow> None
      | Some l \<Rightarrow> parse_uint U64_MAX (drop (length ''Content-Length: '') l))"

text \<open>One record: its header lines, its content and what follows it.\<close>

definition read_record :: "string \<Rightarrow> (string list \<times> string \<times> string) option" where
  "read_record s =
     (case read_head s of None \<Rightarrow> None
      | Some (ls, r) \<Rightarrow>
          (case content_length ls of None \<Rightarrow> None
           | Some n \<Rightarrow> if n + 4 \<le> length r \<and> take 4 (drop n r) = crlf @ crlf then Some (ls, take n r, drop (n + 4) r) else None))"

text \<open>A file of records, each compressed on its own; \<open>gunzip\<close> decompresses the first member of a file. The
  fuel bounds the number of records.\<close>

fun read_file :: "(string \<Rightarrow> (string \<times> string) option) \<Rightarrow> nat \<Rightarrow> string \<Rightarrow> string list option" where
  "read_file gunzip fuel [] = Some []"
| "read_file gunzip 0 s = None"
| "read_file gunzip (Suc fuel) s =
     (case gunzip s of None \<Rightarrow> None
      | Some (x, r) \<Rightarrow>
          (case read_record x of
             Some (ls, content, []) \<Rightarrow> (case read_file gunzip fuel r of None \<Rightarrow> None | Some cs \<Rightarrow> Some (content # cs))
           | _ \<Rightarrow> None))"

subsection \<open>Lemmas\<close>

definition one_line :: "string \<Rightarrow> bool" where
  "one_line s \<longleftrightarrow> CHR 0x0D \<notin> set s"

lemma one_line_Nil [simp]: "one_line []"
  by (simp add: one_line_def)

lemma one_line_Cons [simp]: "one_line (c # s) \<longleftrightarrow> c \<noteq> CHR 0x0D \<and> one_line s"
  by (auto simp: one_line_def)

lemma one_line_append [simp]: "one_line (a @ b) \<longleftrightarrow> one_line a \<and> one_line b"
  by (auto simp: one_line_def)

lemma one_line_show [simp]: "one_line (show_nat n)"
  using show_nat_no_sep [of "CHR 0x0D" n] by (auto simp: one_line_def digit_val_def)

lemma take_line_line [simp]: "one_line l \<Longrightarrow> take_line (line l @ r) = Some (l, r)"
proof (induction l)
  case Nil
  then show ?case by (simp add: line_def crlf_def)
next
  case (Cons c l)
  then have "take_line (line l @ r) = Some (l, r)" "c \<noteq> CHR 0x0D" by simp_all
  then show ?case by (cases "line l @ r") (auto simp: line_def)
qed

lemma read_head_lines:
  "\<forall>l \<in> set ls. one_line l \<and> l \<noteq> [] \<Longrightarrow> read_head (concat (map line ls) @ crlf @ r) = Some (ls, r)"
proof (induction ls)
  case Nil
  then show ?case using take_line_line [of "[]" r] by (subst read_head.simps) (simp add: line_def one_line_def)
next
  case (Cons l ls)
  then show ?case by (subst read_head.simps) simp
qed

lemma read_record_frame:
  assumes "\<forall>l \<in> set ls. one_line l \<and> l \<noteq> []" "content_length ls = Some (length body)"
  shows "read_record ((concat (map line ls) @ crlf) @ body @ crlf @ crlf) = Some (ls, body, [])"
  using read_head_lines [OF assms(1), of "body @ crlf @ crlf"] assms(2) by (simp add: read_record_def crlf_def)

lemma content_length_line: "n \<le> U64_MAX \<Longrightarrow> \<forall>l \<in> set ls. \<not> starts_with l ''Content-Length: '' \<Longrightarrow>
   content_length (ls @ [''Content-Length: '' @ show_nat n]) = Some n"
proof -
  assume a: "n \<le> U64_MAX" "\<forall>l \<in> set ls. \<not> starts_with l ''Content-Length: ''"
  have "List.find (\<lambda>l. starts_with l ''Content-Length: '') (ls @ [''Content-Length: '' @ show_nat n]) = Some (''Content-Length: '' @ show_nat n)"
    using a(2) by (induction ls) auto
  then show ?thesis using a(1) by (simp add: content_length_def)
qed

text \<open>The texts that go into header lines hold no line ends.\<close>

definition env_plain :: "warc_env \<Rightarrow> bool" where
  "env_plain E \<longleftrightarrow> (\<forall>t. one_line (wx_date E t)) \<and> (\<forall>n r. wx_reason E n = Some r \<longrightarrow> one_line r)"

definition record_plain :: "warc_env \<Rightarrow> store_record \<Rightarrow> bool" where
  "record_plain E r \<longleftrightarrow> one_line (cu_str (fr_url (sr_resp r))) \<and> length (build_http_response_payload E r) \<le> U64_MAX"

definition headers_plain :: "store_record \<Rightarrow> bool" where
  "headers_plain r \<longleftrightarrow> (\<forall>(n, v) \<in> set (fr_headers (sr_resp r)). one_line n \<and> one_line v)"

lemma one_line_texts [simp]: "one_line cuid \<Longrightarrow> one_line (new_record_id cuid)"
  by (auto simp: new_record_id_def one_line_def)

lemma encode_response_reads:
  assumes "env_plain E" "record_plain E r" "one_line cuid"
  shows "\<exists>x ls. encode_response E r cuid = wx_gzip E x \<and> read_record x = Some (ls, build_http_response_payload E r, [])"
proof -
  let ?p = "build_http_response_payload E r"
  let ?ls = "[''WARC/1.1'', ''WARC-Type: response'', ''WARC-Target-URI: '' @ cu_str (fr_url (sr_resp r)),
       ''WARC-Record-ID: '' @ new_record_id cuid, ''WARC-Date: '' @ wx_date E (fr_fetched_at (sr_resp r)),
       ''Content-Type: application/http;msgtype=response'']"
  have "content_length (?ls @ [''Content-Length: '' @ show_nat (length ?p)]) = Some (length ?p)"
    by (rule content_length_line) (use assms(2) in \<open>simp_all add: record_plain_def\<close>)
  moreover have "\<forall>l \<in> set (?ls @ [''Content-Length: '' @ show_nat (length ?p)]). one_line l \<and> l \<noteq> []"
    using assms by (simp add: env_plain_def record_plain_def)
  ultimately have "read_record ((concat (map line (?ls @ [''Content-Length: '' @ show_nat (length ?p)])) @ crlf) @ ?p @ crlf @ crlf) =
      Some (?ls @ [''Content-Length: '' @ show_nat (length ?p)], ?p, [])"
    by (rule read_record_frame [rotated])
  then show ?thesis unfolding encode_response_def framed_def response_header_def Let_def by auto
qed

lemma encode_warcinfo_reads:
  assumes "env_plain E" "one_line cuid" "length (warcinfo_body E run_id) \<le> U64_MAX"
  shows "\<exists>x ls. encode_warcinfo E run_id cuid now = wx_gzip E x \<and> read_record x = Some (ls, warcinfo_body E run_id, [])"
proof -
  let ?p = "warcinfo_body E run_id"
  let ?ls = "[''WARC/1.1'', ''WARC-Type: warcinfo'', ''WARC-Record-ID: '' @ new_record_id cuid, ''WARC-Date: '' @ wx_date E now,
       ''Content-Type: application/warc-fields'']"
  have "content_length (?ls @ [''Content-Length: '' @ show_nat (length ?p)]) = Some (length ?p)"
    by (rule content_length_line) (use assms(3) in simp_all)
  moreover have "\<forall>l \<in> set (?ls @ [''Content-Length: '' @ show_nat (length ?p)]). one_line l \<and> l \<noteq> []"
    using assms by (simp add: env_plain_def)
  ultimately have "read_record ((concat (map line (?ls @ [''Content-Length: '' @ show_nat (length ?p)])) @ crlf) @ ?p @ crlf @ crlf) =
      Some (?ls @ [''Content-Length: '' @ show_nat (length ?p)], ?p, [])"
    by (rule read_record_frame [rotated])
  then show ?thesis unfolding encode_warcinfo_def framed_def warcinfo_header_def Let_def by auto
qed

text \<open>The HTTP message in a record: the status line and headers, then the body.\<close>

lemma payload_reads:
  assumes "env_plain E" "headers_plain r"
  shows "\<exists>ls. read_head (build_http_response_payload E r) = Some (ls, fr_body (sr_resp r))"
proof -
  let ?st = "''HTTP/1.1 '' @ show_nat (fr_status (sr_resp r)) @ '' '' @ (case wx_reason E (fr_status (sr_resp r)) of Some r \<Rightarrow> r | None \<Rightarrow> '''')"
  let ?hs = "map (\<lambda>(name, value). name @ '': '' @ value) (fr_headers (sr_resp r))"
  have "concat (map (\<lambda>(name, value). line (name @ '': '' @ value)) (fr_headers (sr_resp r))) = concat (map line ?hs)"
    by (simp add: comp_def case_prod_unfold)
  then have "build_http_response_payload E r = concat (map line (?st # ?hs)) @ crlf @ fr_body (sr_resp r)"
    by (simp add: build_http_response_payload_def Let_def)
  moreover have "\<forall>l \<in> set (?st # ?hs). one_line l \<and> l \<noteq> []"
    using assms by (auto simp: env_plain_def headers_plain_def split: option.splits)
  ultimately show ?thesis using read_head_lines [of "?st # ?hs" "fr_body (sr_resp r)"] by metis
qed

text \<open>Decompression of the first member of a file.\<close>

definition gunzips :: "warc_env \<Rightarrow> (string \<Rightarrow> (string \<times> string) option) \<Rightarrow> bool" where
  "gunzips E gunzip \<longleftrightarrow> (\<forall>x r. gunzip (wx_gzip E x @ r) = Some (x, r)) \<and> (\<forall>x. wx_gzip E x \<noteq> [])"

lemma read_file_members:
  assumes "gunzips E gunzip" "list_all2 (\<lambda>m c. \<exists>x ls. m = wx_gzip E x \<and> read_record x = Some (ls, c, [])) ms cs" "length ms \<le> fuel"
  shows "read_file gunzip fuel (concat ms) = Some cs"
  using assms(2,3)
proof (induction arbitrary: fuel rule: list_all2_induct)
  case (Cons m ms c cs)
  then obtain x ls k where x: "m = wx_gzip E x" "read_record x = Some (ls, c, [])" "fuel = Suc k" "length ms \<le> k"
    by (cases fuel) auto
  obtain a b where "m @ concat ms = a # b" using assms(1) x(1) by (metis append_is_Nil_conv gunzips_def list.exhaust)
  moreover have "gunzip (m @ concat ms) = Some (x, concat ms)" using assms(1) x(1) by (simp add: gunzips_def)
  ultimately show ?case using Cons.IH [OF x(4)] x(2,3) by simp
qed simp

end
