(* ===== verification/Warc_Store.thy ===== *)
theory Warc_Store
  imports Store_Spec Warc_Record
begin

text \<open>
  \<^verbatim>\<open>crawlrs-store/src/warc_store.rs\<close>: one open file per shard, rotation and flush. The files behind the lock are
  an association list; the order in which a flush walks the drained map is an argument. Clock readings and
  record ids of a write come with the call.
\<close>

subsection \<open>State and operations\<close>

record 'b warc_store =
  ws_put :: "string \<Rightarrow> string \<Rightarrow> 'b \<Rightarrow> (string + unit) \<times> 'b"
  ws_path_from :: "string \<Rightarrow> string"
  ws_paths :: path_builder
  ws_rotation :: rotation_policy
  ws_run_id :: string
  ws_env :: warc_env

record warc_file =
  wf_window_start_ms :: u64
  wf_raw_bytes :: nat
  wf_rows :: nat
  wf_opened_at :: nat
  wf_gzipped :: string

type_synonym 'b warc_state = "(warc_file, 'b) shard_buffers"

text \<open>What a write reads from its surroundings: the wall clock, the monotonic clock when a file is opened and when
  rotation is decided, and two fresh ids.\<close>

record write_ctx =
  wc_now_ms :: u64
  wc_instant :: nat
  wc_check_instant :: nat
  wc_info_id :: string
  wc_response_id :: string

definition warc_store_new :: "'b \<Rightarrow> 'b warc_state" where
  "warc_store_new backend = \<lparr>sb_files = [], sb_backend = backend\<rparr>"

definition warc_path :: "'b warc_store \<Rightarrow> u32 \<Rightarrow> u64 \<Rightarrow> string" where
  "warc_path W = path_warc (ws_path_from W) (ws_paths W)"

definition open_file :: "'b warc_store \<Rightarrow> write_ctx \<Rightarrow> warc_file" where
  "open_file W c =
     \<lparr>wf_window_start_ms = wc_now_ms c, wf_raw_bytes = 0, wf_rows = 0, wf_opened_at = wc_instant c,
      wf_gzipped = encode_warcinfo (ws_env W) (ws_run_id W) (wc_info_id c) (wc_now_ms c)\<rparr>"

definition warc_flush_one :: "'b warc_store \<Rightarrow> u32 \<Rightarrow> warc_file \<Rightarrow> 'b \<Rightarrow> (crawl_error + string) \<times> 'b" where
  "warc_flush_one W shard file b =
     (let path = warc_path W shard (wf_window_start_ms file) in
      case ws_put W path (wf_gzipped file) b of
        (Inl e, b) \<Rightarrow> (Inl (store_error_to (SeObjectStore e)), b)
      | (Inr _, b) \<Rightarrow> (Inr path, b))"

text \<open>The record appended to the file of its shard, or to a new one, under the lock.\<close>

definition warc_append :: "'b warc_store \<Rightarrow> write_ctx \<Rightarrow> store_record \<Rightarrow> warc_file option \<Rightarrow> warc_file" where
  "warc_append W c record entry =
     (let active = (case entry of Some f \<Rightarrow> f | None \<Rightarrow> open_file W c)
      in active\<lparr>wf_gzipped := wf_gzipped active @ encode_response (ws_env W) record (wc_response_id c),
                wf_rows := wf_rows active + 1, wf_raw_bytes := wf_raw_bytes active + length (fr_body (sr_resp record))\<rparr>)"

definition warc_full :: "'b warc_store \<Rightarrow> write_ctx \<Rightarrow> warc_file \<Rightarrow> bool" where
  "warc_full W c active =
     should_rotate (ws_rotation W) (wf_rows active) (wf_raw_bytes active) (wc_check_instant c - wf_opened_at active)"

definition warc_write :: "'b warc_store \<Rightarrow> write_ctx \<Rightarrow> store_record \<Rightarrow> 'b warc_state \<Rightarrow> (crawl_error + string) \<times> 'b warc_state" where
  "warc_write W c record st =
     (let active = warc_append W c record (map_of (sb_files st) (sr_shard record));
          planned_path = warc_path W (sr_shard record) (wf_window_start_ms active)
      in if warc_full W c active
         then (case warc_flush_one W (sr_shard record) active (sb_backend st) of
                 (Inl e, b) \<Rightarrow> (Inl e, st\<lparr>sb_files := AList.delete (sr_shard record) (sb_files st), sb_backend := b\<rparr>)
               | (Inr _, b) \<Rightarrow> (Inr planned_path, st\<lparr>sb_files := AList.delete (sr_shard record) (sb_files st), sb_backend := b\<rparr>))
         else (Inr planned_path, st\<lparr>sb_files := AList.update (sr_shard record) active (sb_files st)\<rparr>))"

text \<open>A failed upload ends the flush; the files after it are gone with the drained map.\<close>

fun warc_flush_loop :: "'b warc_store \<Rightarrow> (u32 \<times> warc_file) list \<Rightarrow> 'b \<Rightarrow> (crawl_error + unit) \<times> 'b" where
  "warc_flush_loop W [] b = (Inr (), b)"
| "warc_flush_loop W ((shard, file) # files) b =
     (case warc_flush_one W shard file b of (Inl e, b) \<Rightarrow> (Inl e, b) | (Inr _, b) \<Rightarrow> warc_flush_loop W files b)"

definition warc_flush ::
  "'b warc_store \<Rightarrow> ((u32 \<times> warc_file) list \<Rightarrow> (u32 \<times> warc_file) list) \<Rightarrow> 'b warc_state \<Rightarrow> (crawl_error + unit) \<times> 'b warc_state" where
  "warc_flush W ord st =
     (let (r, b) = warc_flush_loop W (ord (sb_files st)) (sb_backend st) in (r, st\<lparr>sb_files := [], sb_backend := b\<rparr>))"

subsection \<open>Reading what was written\<close>

text \<open>The contents a reader finds in the bytes of a file.\<close>

definition contents :: "(string \<Rightarrow> (string \<times> string) option) \<Rightarrow> string \<Rightarrow> string set" where
  "contents gunzip g = (case read_file gunzip (length g) g of None \<Rightarrow> {} | Some cs \<Rightarrow> set cs)"

definition archive :: "warc_env \<Rightarrow> string \<Rightarrow> bool" where
  "archive E g \<longleftrightarrow> (\<exists>ms cs. g = concat ms \<and> list_all2 (\<lambda>m c. \<exists>x ls. m = wx_gzip E x \<and> read_record x = Some (ls, c, [])) ms cs)"

lemma members_length:
  assumes "gunzips E gunzip" "list_all2 (\<lambda>m c. \<exists>x ls. m = wx_gzip E x \<and> read_record x = Some (ls, c, [])) ms cs"
  shows "length ms \<le> length (concat ms)"
  using assms(2)
proof (induction rule: list_all2_induct)
  case (Cons m ms c cs)
  then have "m \<noteq> []" using assms(1) by (auto simp: gunzips_def)
  then show ?case using Cons.IH by (cases m) auto
qed simp

lemma contents_members:
  assumes "gunzips E gunzip" "list_all2 (\<lambda>m c. \<exists>x ls. m = wx_gzip E x \<and> read_record x = Some (ls, c, [])) ms cs"
  shows "contents gunzip (concat ms) = set cs"
  using read_file_members [OF assms members_length [OF assms]] by (simp add: contents_def)

lemma archive_append:
  assumes "gunzips E gunzip" "archive E g" "env_plain E" "record_plain E r" "one_line i"
  shows "archive E (g @ encode_response E r i)"
    "contents gunzip (g @ encode_response E r i) = insert (build_http_response_payload E r) (contents gunzip g)"
proof -
  obtain ms cs where m: "g = concat ms" "list_all2 (\<lambda>m c. \<exists>x ls. m = wx_gzip E x \<and> read_record x = Some (ls, c, [])) ms cs"
    using assms(2) by (auto simp: archive_def)
  let ?P = "\<lambda>m c. \<exists>x ls. m = wx_gzip E x \<and> read_record x = Some (ls, c, [])"
  have l: "list_all2 ?P (ms @ [encode_response E r i]) (cs @ [build_http_response_payload E r])"
    using m(2) encode_response_reads [OF assms(3-5)] by (intro list_all2_appendI) auto
  have g: "g @ encode_response E r i = concat (ms @ [encode_response E r i])" using m(1) by simp
  show "archive E (g @ encode_response E r i)" unfolding archive_def using l g by blast
  show "contents gunzip (g @ encode_response E r i) = insert (build_http_response_payload E r) (contents gunzip g)"
    unfolding g contents_members [OF assms(1) l] using contents_members [OF assms(1) m(2)] m(1) by simp
qed

lemma archive_info:
  assumes "gunzips E gunzip" "env_plain E" "one_line i" "length (warcinfo_body E run) \<le> U64_MAX"
  shows "archive E (encode_warcinfo E run i now)"
  unfolding archive_def
  by (rule exI [of _ "[encode_warcinfo E run i now]"], rule exI [of _ "[warcinfo_body E run]"])
    (use encode_warcinfo_reads [OF assms(2-4), of now] in simp)


subsection \<open>The store keeps the contract\<close>

lemma warc_write_buffer:
  "warc_write W = buffer_write (warc_flush_one W) (warc_append W) (warc_full W) (warc_path W) wf_window_start_ms sr_shard"
  by (intro ext) (simp add: warc_write_def buffer_write_def Let_def)

lemma warc_flush_loop_buffer: "warc_flush_loop W fs b = flush_files (warc_flush_one W) fs b"
  by (induction fs arbitrary: b) (auto split: prod.split sum.split)

lemma warc_flush_buffer: "warc_flush W = buffer_flush (warc_flush_one W)"
  by (intro ext) (simp add: warc_flush_def buffer_flush_def warc_flush_loop_buffer)

definition warc_held :: "(string \<Rightarrow> (string \<times> string) option) \<Rightarrow> warc_file \<Rightarrow> string set" where
  "warc_held gunzip f = contents gunzip (wf_gzipped f)"

definition warc_found :: "(string \<Rightarrow> (string \<times> string) option) \<Rightarrow> ('b \<Rightarrow> string \<rightharpoonup> string) \<Rightarrow> 'b \<Rightarrow> string \<Rightarrow> string set" where
  "warc_found gunzip obj b p = (case obj b p of None \<Rightarrow> {} | Some g \<Rightarrow> contents gunzip g)"

definition warc_good :: "'b warc_store \<Rightarrow> write_ctx \<Rightarrow> store_record \<Rightarrow> bool" where
  "warc_good W c r \<longleftrightarrow> record_plain (ws_env W) r \<and> one_line (wc_info_id c) \<and> one_line (wc_response_id c)"

text \<open>The parts a WARC store is made of: an object store, a compressor with its decompressor, plain texts for
  the header lines, and a path conversion that keeps the names of the store's files apart.\<close>

locale warc_parts = object_backend "ws_put W" obj for W :: "'b warc_store" and obj :: "'b \<Rightarrow> string \<rightharpoonup> string" +
  fixes gunzip :: "string \<Rightarrow> (string \<times> string) option"
  assumes reads: "gunzips (ws_env W) gunzip"
    and plain: "env_plain (ws_env W)" "length (warcinfo_body (ws_env W) (ws_run_id W)) \<le> U64_MAX"
    and names: "ws_path_from W (raw_path (ws_paths W) ''warc'' ''warc.gz'' s t) = ws_path_from W (raw_path (ws_paths W) ''warc'' ''warc.gz'' s' t') \<Longrightarrow>
      raw_path (ws_paths W) ''warc'' ''warc.gz'' s t = raw_path (ws_paths W) ''warc'' ''warc.gz'' s' t'"
begin

lemma warc_path_inject: "warc_path W s t = warc_path W s' t' \<Longrightarrow> s = s' \<and> t = t'"
  using names raw_path_inject by (metis compose_def path_warc_def warc_path_def)

lemma append_archive:
  assumes "warc_good W c r" "archive (ws_env W) (wf_gzipped f)"
  shows "archive (ws_env W) (wf_gzipped (warc_append W c r (Some f)))" "wf_window_start_ms (warc_append W c r (Some f)) = wf_window_start_ms f"
    "insert (build_http_response_payload (ws_env W) r) (warc_held gunzip f) \<subseteq> warc_held gunzip (warc_append W c r (Some f))"
  using archive_append [OF reads assms(2) plain(1), of r "wc_response_id c"] assms(1)
  by (auto simp: warc_append_def warc_good_def warc_held_def)

lemma append_new: "warc_append W c r None = warc_append W c r (Some (open_file W c))"
  by (simp add: warc_append_def)

lemma open_archive: "warc_good W c r \<Longrightarrow> archive (ws_env W) (wf_gzipped (open_file W c))"
  using archive_info [OF reads plain(1) _ plain(2)] by (simp add: open_file_def warc_good_def)

lemma flush_one_found:
  assumes "warc_flush_one W s f b = (Inr p, b')"
  shows "p = warc_path W s (wf_window_start_ms f) \<and> warc_held gunzip f \<subseteq> warc_found gunzip obj b' p \<and>
    (\<forall>q. q \<noteq> p \<longrightarrow> warc_found gunzip obj b' q = warc_found gunzip obj b q)"
  using assms put_ok put_frame
  by (auto simp: warc_flush_one_def warc_held_def warc_found_def Let_def split: prod.splits sum.splits)

lemma warc_shard_files:
  "shard_files (warc_flush_one W) (warc_append W) wf_window_start_ms (warc_held gunzip) (warc_found gunzip obj)
     (\<lambda>f. archive (ws_env W) (wf_gzipped f)) (warc_good W) (build_http_response_payload (ws_env W)) wc_now_ms (warc_path W)"
  using warc_path_inject append_archive append_archive [OF _ open_archive] open_archive flush_one_found
  by (unfold_locales; simp only: append_new) (auto simp: open_file_def)

end

sublocale warc_parts \<subseteq> warc: shard_files "warc_flush_one W" "warc_append W" "warc_full W" wf_window_start_ms "warc_held gunzip"
  "warc_found gunzip obj" "\<lambda>f. archive (ws_env W) (wf_gzipped f)" "warc_good W" "build_http_response_payload (ws_env W)" sr_shard wc_now_ms "warc_path W"
  by (rule warc_shard_files)

context warc_parts
begin

lemmas written_found = warc.buffers.flushed_complete [where st\<^sub>0 = "warc_store_new b" for b, folded warc_write_buffer warc_flush_buffer]

end

subsection \<open>An instance\<close>

text \<open>Objects in a map, and a compressor that prefixes the length.\<close>

definition mem_put :: "string \<Rightarrow> string \<Rightarrow> (string \<rightharpoonup> string) \<Rightarrow> (string + unit) \<times> (string \<rightharpoonup> string)" where
  "mem_put p c b = (Inr (), b(p \<mapsto> c))"

definition len_gzip :: "string \<Rightarrow> string" where
  "len_gzip x = show_nat (length x) @ CHR ''|'' # x"

definition len_gunzip :: "string \<Rightarrow> (string \<times> string) option" where
  "len_gunzip s =
     (case split_once CHR ''|'' s of None \<Rightarrow> None
      | Some (n, r) \<Rightarrow> (case read_digits 0 n of None \<Rightarrow> None | Some k \<Rightarrow> Some (take k r, drop k r)))"

definition demo_warc :: "(string \<rightharpoonup> string) warc_store" where
  "demo_warc =
     \<lparr>ws_put = mem_put, ws_path_from = id, ws_paths = \<lparr>pb_base = ''out/'', pb_run_id = ''r1'', pb_worker_id = ''0''\<rparr>,
      ws_rotation = rotation_policy_default\<lparr>rp_max_rows := 2\<rparr>, ws_run_id = ''r1'',
      ws_env = \<lparr>wx_gzip = len_gzip, wx_version = ''0.1'', wx_reason = (\<lambda>n. if n = 200 then Some ''OK'' else None), wx_date = show_nat\<rparr>\<rparr>"

lemma demo_warc_env: "gunzips (ws_env demo_warc) len_gunzip" "env_plain (ws_env demo_warc)"
proof -
  have "CHR ''|'' \<notin> set (show_nat n)" for n by (rule show_nat_no_sep) simp
  then show "gunzips (ws_env demo_warc) len_gunzip"
    by (simp add: gunzips_def demo_warc_def len_gzip_def len_gunzip_def split_once_append read_digits_show)
  show "env_plain (ws_env demo_warc)" by (auto simp: env_plain_def demo_warc_def)
qed

interpretation mem_warc: warc_parts demo_warc "\<lambda>b. b" len_gunzip
proof unfold_locales
  show "gunzips (ws_env demo_warc) len_gunzip" "env_plain (ws_env demo_warc)" by (fact demo_warc_env)+
  show "length (warcinfo_body (ws_env demo_warc) (ws_run_id demo_warc)) \<le> U64_MAX"
    by (simp add: warcinfo_body_def demo_warc_def line_def crlf_def)
qed (auto simp: demo_warc_def mem_put_def)

subsection \<open>Properties\<close>

text \<open>the blob path of a record leads to it. After any sequence of successful writes and flushes that opens no two
  files of a shard in the same millisecond, and one last successful flush, the object at the path a write
  returned is a readable archive that holds the HTTP response of the record, and with plain header
  values the body is found in it byte for byte.\<close>

theorem warc_path_resolves:
  assumes "warc_parts W obj gunzip"
    and "store_run (warc_write W) (warc_flush W) (buffers_active wf_window_start_ms (warc_held gunzip)) any_order (warc_good W) sr_shard wc_now_ms (warc_path W) (warc_store_new b) h st"
    and "any_order ord" "warc_flush W ord st = (Inr (), st')" "(p, r) \<in> set h"
  shows "\<exists>g cs payload. obj (sb_backend st') p = Some g \<and> read_file gunzip (length g) g = Some cs \<and> payload \<in> set cs \<and>
    payload = build_http_response_payload (ws_env W) r \<and> (headers_plain r \<longrightarrow> (\<exists>ls. read_head payload = Some (ls, fr_body (sr_resp r))))"
proof -
  have "build_http_response_payload (ws_env W) r \<in> buffers_stored (warc_found gunzip obj) st' p"
    using warc_parts.written_found [OF assms(1,2) _ assms(3-5)] by (simp add: buffers_inv_def warc_store_new_def)
  moreover have "env_plain (ws_env W)" using assms(1) by (simp add: warc_parts_def warc_parts_axioms_def)
  ultimately show ?thesis
    using payload_reads [of "ws_env W" r] by (auto simp: buffers_stored_def warc_found_def contents_def split: option.splits)
qed

text \<open>a flush that fails drops the other shards. When the first upload of a flush fails, the flush answers that
  error, no file is open any more, and the object store is as the failed upload left it: what was buffered
  for every other shard is neither in memory nor stored.\<close>

theorem warc_flush_failure_drops:
  assumes "ord (sb_files st) = (s, f) # fs"
    and "ws_put W (warc_path W s (wf_window_start_ms f)) (wf_gzipped f) (sb_backend st) = (Inl e, b)"
  shows "warc_flush W ord st = (Inl (EStore (''object_store error: '' @ e)), \<lparr>sb_files = [], sb_backend = b\<rparr>)"
  using assms by (simp add: warc_flush_def warc_flush_one_def Let_def)


definition demo_record :: store_record where
  "demo_record =
     (let u = \<lparr>cu_str = ''https://e.test/a'', cu_scheme = ''https'', cu_host = Some ''e.test'', cu_path = ''/a''\<rparr> in
      \<lparr>sr_doc = \<lparr>pd_url = u, pd_status = 200, pd_title = None, pd_text = None, pd_outbound_links = [], pd_fetched_at = 0\<rparr>,
       sr_resp = \<lparr>fr_url = u, fr_status = 200, fr_headers = [(''server'', ''x'')], fr_body = ''hello'', fr_redirect_chain = [], fr_fetched_at = 5, fr_duration = 1\<rparr>,
       sr_run_id = ''r1'', sr_shard = 0, sr_depth = 0, sr_content_hash = 0\<rparr>)"

definition demo_ctx :: write_ctx where
  "demo_ctx = \<lparr>wc_now_ms = 1700000000000, wc_instant = 0, wc_check_instant = 1, wc_info_id = ''i1'', wc_response_id = ''i2''\<rparr>"

lemma demo_good: "warc_good demo_warc demo_ctx demo_record" "headers_plain demo_record"
  by (simp_all add: warc_good_def record_plain_def headers_plain_def demo_ctx_def demo_record_def demo_warc_def
      build_http_response_payload_def line_def crlf_def show_nat.simps digit_char_def Let_def)

lemma mem_flush_one:
  "ws_put W = mem_put \<Longrightarrow>
   warc_flush_one W s f b = (Inr (warc_path W s (wf_window_start_ms f)), b(warc_path W s (wf_window_start_ms f) \<mapsto> wf_gzipped f))"
  by (simp add: warc_flush_one_def mem_put_def Let_def)

lemma mem_write_ok: "ws_put W = mem_put \<Longrightarrow> \<exists>p st'. warc_write W c r st = (Inr p, st')"
  by (simp add: warc_write_def Let_def mem_flush_one)

lemma mem_flush_ok: "ws_put W = mem_put \<Longrightarrow> \<exists>st'. warc_flush W ord st = (Inr (), st')"
proof -
  assume a: "ws_put W = mem_put"
  have "\<exists>b'. warc_flush_loop W fs b = (Inr (), b')" for fs b
    by (induction fs arbitrary: b) (auto simp: mem_flush_one [OF a])
  then show ?thesis by (simp add: warc_flush_def split: prod.split) (metis fst_conv)
qed

theorem warc_path_resolves_witness:
  "\<exists>p st g cs payload ls. warc_flush demo_warc id (snd (warc_write demo_warc demo_ctx demo_record (warc_store_new Map.empty))) = (Inr (), st) \<and>
     fst (warc_write demo_warc demo_ctx demo_record (warc_store_new Map.empty)) = Inr p \<and>
     sb_backend st p = Some g \<and> read_file len_gunzip (length g) g = Some cs \<and> payload \<in> set cs \<and> read_head payload = Some (ls, ''hello'')"
proof -
  have put: "ws_put demo_warc = mem_put" by (simp add: demo_warc_def)
  obtain p st where w: "warc_write demo_warc demo_ctx demo_record (warc_store_new Map.empty) = (Inr p, st)" using mem_write_ok [OF put] by blast
  obtain st' where f: "warc_flush demo_warc id st = (Inr (), st')" using mem_flush_ok [OF put] by blast
  have run: "store_run (warc_write demo_warc) (warc_flush demo_warc) (buffers_active wf_window_start_ms (warc_held len_gunzip)) any_order (warc_good demo_warc) sr_shard wc_now_ms
      (warc_path demo_warc) (warc_store_new Map.empty) [(p, demo_record)] st"
    by (rule store_run.accept [OF store_run.start, of _ demo_ctx]) (simp_all add: demo_good(1) w)
  have "fr_body (sr_resp demo_record) = ''hello''" by (simp add: demo_record_def Let_def)
  then show ?thesis
    using warc_path_resolves [OF mem_warc.warc_parts_axioms run _ f, of p demo_record] demo_good(2) w f by auto
qed

theorem warc_flush_failure_drops_witness:
  "fst (warc_flush (demo_warc\<lparr>ws_put := (\<lambda>p c b. (Inl ''down'', b))\<rparr>) id
     \<lparr>sb_files = [(0, open_file demo_warc demo_ctx), (1, open_file demo_warc demo_ctx)], sb_backend = Map.empty\<rparr>) =
   Inl (EStore ''object_store error: down'')"
proof -
  let ?W = "demo_warc\<lparr>ws_put := (\<lambda>p c b. (Inl ''down'', b))\<rparr>"
  let ?st = "\<lparr>sb_files = [(0, open_file demo_warc demo_ctx), (1, open_file demo_warc demo_ctx)], sb_backend = Map.empty :: string \<rightharpoonup> string\<rparr>"
  have "warc_flush ?W id ?st = (Inl (EStore (''object_store error: '' @ ''down'')), \<lparr>sb_files = [], sb_backend = Map.empty\<rparr>)"
    by (rule warc_flush_failure_drops [where s = 0 and f = "open_file demo_warc demo_ctx" and fs = "[(1, open_file demo_warc demo_ctx)]"]) simp_all
  then show ?thesis by simp
qed

end
