(* ===== verification/Parquet_Store.thy ===== *)
theory Parquet_Store
  imports Store_Spec
begin

text \<open>
  \<^verbatim>\<open>crawlrs-store/src/parquet_store.rs\<close>: the columns of a batch, their schema, and the buffering store. Arrow's
  batch check and the Parquet writer are one parameter, from a schema and columns to the bytes or an error;
  JSON of the headers and the clock conversions are parameters too.
\<close>

subsection \<open>Rows\<close>

text \<open>\<open>as i32\<close> and \<open>as i64\<close> keep the low bits.\<close>

definition as_i32 :: "nat \<Rightarrow> int" where
  "as_i32 n = (let m = int (n mod 2 ^ 32) in if m < 2 ^ 31 then m else m - 2 ^ 32)"

definition as_i64 :: "nat \<Rightarrow> int" where
  "as_i64 n = (let m = int (n mod 2 ^ 64) in if m < 2 ^ 63 then m else m - 2 ^ 64)"

record owned_row =
  ow_url :: string
  ow_final_url :: string
  ow_fetched_at_micros :: int
  ow_status :: int
  ow_content_type :: "string option"
  ow_content_hash :: int
  ow_body :: string
  ow_text :: "string option"
  ow_title :: "string option"
  ow_discovered_links :: "string list"
  ow_headers_json :: string
  ow_fetch_duration_ms :: int
  ow_run_id :: string
  ow_shard :: int
  ow_depth :: int

record row_env =
  re_headers_json :: "(string \<times> string) list \<Rightarrow> string"
  re_micros :: "u64 \<Rightarrow> int"

definition row_from_record :: "row_env \<Rightarrow> store_record \<Rightarrow> owned_row" where
  "row_from_record E record =
     (let resp = sr_resp record; doc = sr_doc record in
      \<lparr>ow_url = cu_str (pd_url doc), ow_final_url = cu_str (fr_url resp), ow_fetched_at_micros = re_micros E (fr_fetched_at resp),
       ow_status = int (fr_status resp),
       ow_content_type = map_option snd (List.find (\<lambda>(k, _). eq_ignore_ascii_case k ''content-type'') (fr_headers resp)),
       ow_content_hash = as_i64 (unat (sr_content_hash record)), ow_body = fr_body resp, ow_text = pd_text doc, ow_title = pd_title doc,
       ow_discovered_links = map cu_str (pd_outbound_links doc), ow_headers_json = re_headers_json E (fr_headers resp),
       ow_fetch_duration_ms = as_i64 (fr_duration resp div 1000000), ow_run_id = sr_run_id record,
       ow_shard = as_i32 (sr_shard record), ow_depth = as_i32 (sr_depth record)\<rparr>)"

subsection \<open>Schema and columns\<close>

datatype data_type = DtUtf8 | DtTimestampMicrosUtc | DtInt32 | DtInt64 | DtBinary | DtListUtf8

record schema_field =
  sf_name :: string
  sf_type :: data_type
  sf_nullable :: bool

definition build_schema :: "schema_field list" where
  "build_schema = map (\<lambda>(n, t, b). \<lparr>sf_name = n, sf_type = t, sf_nullable = b\<rparr>)
     [(''url'', DtUtf8, False), (''final_url'', DtUtf8, False), (''fetched_at'', DtTimestampMicrosUtc, False), (''status'', DtInt32, False),
      (''content_type'', DtUtf8, True), (''content_hash'', DtInt64, False), (''body'', DtBinary, False), (''text'', DtUtf8, True),
      (''title'', DtUtf8, True), (''discovered_links'', DtListUtf8, False), (''headers_json'', DtUtf8, False),
      (''fetch_duration_ms'', DtInt64, False), (''run_id'', DtUtf8, False), (''shard'', DtInt32, False), (''depth'', DtInt32, False)]"

datatype column =
  Utf8Column "string option list"
| TimestampColumn "int list"
| Int32Column "int list"
| Int64Column "int list"
| BinaryColumn "string list"
| ListColumn "string list list"

definition build_batch :: "owned_row list \<Rightarrow> column list" where
  "build_batch rows =
     [Utf8Column (map (Some \<circ> ow_url) rows), Utf8Column (map (Some \<circ> ow_final_url) rows), TimestampColumn (map ow_fetched_at_micros rows),
      Int32Column (map ow_status rows), Utf8Column (map ow_content_type rows), Int64Column (map ow_content_hash rows),
      BinaryColumn (map ow_body rows), Utf8Column (map ow_text rows), Utf8Column (map ow_title rows), ListColumn (map ow_discovered_links rows),
      Utf8Column (map (Some \<circ> ow_headers_json) rows), Int64Column (map ow_fetch_duration_ms rows), Utf8Column (map (Some \<circ> ow_run_id) rows),
      Int32Column (map ow_shard rows), Int32Column (map ow_depth rows)]"

subsection \<open>The store\<close>

record 'b parquet_store =
  ps_put :: "string \<Rightarrow> string \<Rightarrow> 'b \<Rightarrow> (string + unit) \<times> 'b"
  ps_path_from :: "string \<Rightarrow> string"
  ps_paths :: path_builder
  ps_rotation :: rotation_policy
  ps_rows :: row_env
  ps_write_parquet :: "schema_field list \<Rightarrow> column list \<Rightarrow> store_error + string"

record parquet_file =
  pf_window_start_ms :: u64
  pf_raw_bytes :: nat
  pf_opened_at :: nat
  pf_rows :: "owned_row list"

type_synonym 'b parquet_state = "(parquet_file, 'b) shard_buffers"

record parquet_ctx =
  pc_now_ms :: u64
  pc_instant :: nat
  pc_check_instant :: nat

definition parquet_store_new :: "'b \<Rightarrow> 'b parquet_state" where
  "parquet_store_new backend = \<lparr>sb_files = [], sb_backend = backend\<rparr>"

definition parquet_path :: "'b parquet_store \<Rightarrow> u32 \<Rightarrow> u64 \<Rightarrow> string" where
  "parquet_path Q = path_parquet (ps_path_from Q) (ps_paths Q)"

definition parquet_encode :: "'b parquet_store \<Rightarrow> owned_row list \<Rightarrow> crawl_error + string" where
  "parquet_encode Q rows =
     (case ps_write_parquet Q build_schema (build_batch rows) of Inl e \<Rightarrow> Inl (store_error_to e) | Inr bytes \<Rightarrow> Inr bytes)"

definition parquet_flush_one :: "'b parquet_store \<Rightarrow> u32 \<Rightarrow> parquet_file \<Rightarrow> 'b \<Rightarrow> (crawl_error + string) \<times> 'b" where
  "parquet_flush_one Q shard file b =
     (let path = parquet_path Q shard (pf_window_start_ms file) in
      case parquet_encode Q (pf_rows file) of
        Inl e \<Rightarrow> (Inl e, b)
      | Inr bytes \<Rightarrow>
          (case ps_put Q path bytes b of
             (Inl e, b) \<Rightarrow> (Inl (store_error_to (SeObjectStore e)), b)
           | (Inr _, b) \<Rightarrow> (Inr path, b)))"

definition parquet_push :: "'b parquet_store \<Rightarrow> parquet_ctx \<Rightarrow> store_record \<Rightarrow> parquet_file option \<Rightarrow> parquet_file" where
  "parquet_push Q c record active =
     (let row = row_from_record (ps_rows Q) record;
          entry = (case active of Some f \<Rightarrow> f
            | None \<Rightarrow> \<lparr>pf_window_start_ms = pc_now_ms c, pf_raw_bytes = 0, pf_opened_at = pc_instant c, pf_rows = []\<rparr>)
      in entry\<lparr>pf_rows := pf_rows entry @ [row], pf_raw_bytes := pf_raw_bytes entry + length (ow_body row)\<rparr>)"

definition parquet_full :: "'b parquet_store \<Rightarrow> parquet_ctx \<Rightarrow> parquet_file \<Rightarrow> bool" where
  "parquet_full Q c entry =
     should_rotate (ps_rotation Q) (length (pf_rows entry)) (pf_raw_bytes entry) (pc_check_instant c - pf_opened_at entry)"

definition parquet_write ::
  "'b parquet_store \<Rightarrow> parquet_ctx \<Rightarrow> store_record \<Rightarrow> 'b parquet_state \<Rightarrow> (crawl_error + string) \<times> 'b parquet_state" where
  "parquet_write Q c record st =
     (let entry = parquet_push Q c record (map_of (sb_files st) (sr_shard record));
          planned_path = parquet_path Q (sr_shard record) (pf_window_start_ms entry)
      in if parquet_full Q c entry
         then (case parquet_flush_one Q (sr_shard record) entry (sb_backend st) of
                 (Inl e, b) \<Rightarrow> (Inl e, st\<lparr>sb_files := AList.delete (sr_shard record) (sb_files st), sb_backend := b\<rparr>)
               | (Inr _, b) \<Rightarrow> (Inr planned_path, st\<lparr>sb_files := AList.delete (sr_shard record) (sb_files st), sb_backend := b\<rparr>))
         else (Inr planned_path, st\<lparr>sb_files := AList.update (sr_shard record) entry (sb_files st)\<rparr>))"

fun parquet_flush_loop :: "'b parquet_store \<Rightarrow> (u32 \<times> parquet_file) list \<Rightarrow> 'b \<Rightarrow> (crawl_error + unit) \<times> 'b" where
  "parquet_flush_loop Q [] b = (Inr (), b)"
| "parquet_flush_loop Q ((shard, file) # files) b =
     (case parquet_flush_one Q shard file b of (Inl e, b) \<Rightarrow> (Inl e, b) | (Inr _, b) \<Rightarrow> parquet_flush_loop Q files b)"

definition parquet_flush ::
  "'b parquet_store \<Rightarrow> ((u32 \<times> parquet_file) list \<Rightarrow> (u32 \<times> parquet_file) list) \<Rightarrow> 'b parquet_state \<Rightarrow> (crawl_error + unit) \<times> 'b parquet_state" where
  "parquet_flush Q ord st =
     (let (r, b) = parquet_flush_loop Q (ord (sb_files st)) (sb_backend st) in (r, st\<lparr>sb_files := [], sb_backend := b\<rparr>))"

subsection \<open>Columns and rows\<close>

text \<open>A column fits its field: the type, a null only where the schema allows one, and integers in range.\<close>

fun fits :: "schema_field \<Rightarrow> column \<Rightarrow> bool" where
  "fits f (Utf8Column vs) = (sf_type f = DtUtf8 \<and> (sf_nullable f \<or> None \<notin> set vs))"
| "fits f (TimestampColumn vs) = (sf_type f = DtTimestampMicrosUtc)"
| "fits f (Int32Column vs) = (sf_type f = DtInt32 \<and> list_all (\<lambda>v. - (2 ^ 31) \<le> v \<and> v < 2 ^ 31) vs)"
| "fits f (Int64Column vs) = (sf_type f = DtInt64 \<and> list_all (\<lambda>v. - (2 ^ 63) \<le> v \<and> v < 2 ^ 63) vs)"
| "fits f (BinaryColumn vs) = (sf_type f = DtBinary)"
| "fits f (ListColumn vs) = (sf_type f = DtListUtf8)"

fun column_length :: "column \<Rightarrow> nat" where
  "column_length (Utf8Column vs) = length vs"
| "column_length (TimestampColumn vs) = length vs"
| "column_length (Int32Column vs) = length vs"
| "column_length (Int64Column vs) = length vs"
| "column_length (BinaryColumn vs) = length vs"
| "column_length (ListColumn vs) = length vs"

text \<open>Row \<open>i\<close> read back from the columns.\<close>

definition utf8_cell :: "nat \<Rightarrow> column \<Rightarrow> string option" where
  "utf8_cell i c = (case c of Utf8Column vs \<Rightarrow> vs ! i | _ \<Rightarrow> None)"

definition int_cell :: "nat \<Rightarrow> column \<Rightarrow> int" where
  "int_cell i c = (case c of TimestampColumn vs \<Rightarrow> vs ! i | Int32Column vs \<Rightarrow> vs ! i | Int64Column vs \<Rightarrow> vs ! i | _ \<Rightarrow> 0)"

definition row_at :: "nat \<Rightarrow> column list \<Rightarrow> owned_row" where
  "row_at i cols =
     \<lparr>ow_url = the (utf8_cell i (cols ! 0)), ow_final_url = the (utf8_cell i (cols ! 1)), ow_fetched_at_micros = int_cell i (cols ! 2),
      ow_status = int_cell i (cols ! 3), ow_content_type = utf8_cell i (cols ! 4), ow_content_hash = int_cell i (cols ! 5),
      ow_body = (case cols ! 6 of BinaryColumn vs \<Rightarrow> vs ! i | _ \<Rightarrow> []), ow_text = utf8_cell i (cols ! 7), ow_title = utf8_cell i (cols ! 8),
      ow_discovered_links = (case cols ! 9 of ListColumn vs \<Rightarrow> vs ! i | _ \<Rightarrow> []), ow_headers_json = the (utf8_cell i (cols ! 10)),
      ow_fetch_duration_ms = int_cell i (cols ! 11), ow_run_id = the (utf8_cell i (cols ! 12)), ow_shard = int_cell i (cols ! 13),
      ow_depth = int_cell i (cols ! 14)\<rparr>"

lemma row_at_batch: "i < length rows \<Longrightarrow> row_at i (build_batch rows) = rows ! i"
  by (simp add: row_at_def build_batch_def utf8_cell_def int_cell_def)

lemma as_i32_range: "- (2 ^ 31) \<le> as_i32 n \<and> as_i32 n < 2 ^ 31"
  using mod_less_divisor [of "2 ^ 32" n] by (simp add: as_i32_def Let_def del: mod_less_divisor)

lemma as_i64_range: "- (2 ^ 63) \<le> as_i64 n \<and> as_i64 n < 2 ^ 63"
  using mod_less_divisor [of "2 ^ 64" n] by (simp add: as_i64_def Let_def del: mod_less_divisor)

lemma as_i32_small: "n < 2 ^ 31 \<Longrightarrow> as_i32 n = int n"
  by (simp add: as_i32_def Let_def)

subsection \<open>The store keeps the contract\<close>

lemma parquet_write_buffer:
  "parquet_write Q = buffer_write (parquet_flush_one Q) (parquet_push Q) (parquet_full Q) (parquet_path Q) pf_window_start_ms sr_shard"
  by (intro ext) (simp add: parquet_write_def buffer_write_def Let_def)

lemma parquet_flush_loop_buffer: "parquet_flush_loop Q fs b = flush_files (parquet_flush_one Q) fs b"
  by (induction fs arbitrary: b) (auto split: prod.split sum.split)

lemma parquet_flush_buffer: "parquet_flush Q = buffer_flush (parquet_flush_one Q)"
  by (intro ext) (simp add: parquet_flush_def buffer_flush_def parquet_flush_loop_buffer)

definition parquet_contents :: "(string \<Rightarrow> column list) \<Rightarrow> string \<Rightarrow> owned_row set" where
  "parquet_contents reader g = (let cols = reader g in (\<lambda>i. row_at i cols) ` {i. i < column_length (hd cols)})"

definition parquet_held :: "parquet_file \<Rightarrow> owned_row set" where
  "parquet_held f = set (pf_rows f)"

definition parquet_found :: "(string \<Rightarrow> column list) \<Rightarrow> ('b \<Rightarrow> string \<rightharpoonup> string) \<Rightarrow> 'b \<Rightarrow> string \<Rightarrow> owned_row set" where
  "parquet_found reader obj b p = (case obj b p of None \<Rightarrow> {} | Some g \<Rightarrow> parquet_contents reader g)"

text \<open>The parts of a Parquet store: an object store, a writer whose files a reader gives back, and a path
  conversion that keeps the names of the store's files apart.\<close>

locale parquet_parts = object_backend "ps_put Q" obj for Q :: "'b parquet_store" and obj :: "'b \<Rightarrow> string \<rightharpoonup> string" +
  fixes reader :: "string \<Rightarrow> column list"
  assumes reads: "ps_write_parquet Q schema cols = Inr bytes \<Longrightarrow> reader bytes = cols"
    and names: "ps_path_from Q (raw_path (ps_paths Q) ''parquet'' ''parquet'' s t) = ps_path_from Q (raw_path (ps_paths Q) ''parquet'' ''parquet'' s' t') \<Longrightarrow>
      raw_path (ps_paths Q) ''parquet'' ''parquet'' s t = raw_path (ps_paths Q) ''parquet'' ''parquet'' s' t'"
begin

lemma parquet_path_inject: "parquet_path Q s t = parquet_path Q s' t' \<Longrightarrow> s = s' \<and> t = t'"
  using names raw_path_inject by (metis compose_def path_parquet_def parquet_path_def)

lemma encode_contents: "parquet_encode Q rows = Inr bytes \<Longrightarrow> set rows \<subseteq> parquet_contents reader bytes"
proof -
  assume "parquet_encode Q rows = Inr bytes"
  then have "reader bytes = build_batch rows" using reads by (auto simp: parquet_encode_def split: sum.splits)
  moreover have "column_length (hd (build_batch rows)) = length rows" by (simp add: build_batch_def)
  ultimately show ?thesis by (auto simp: parquet_contents_def in_set_conv_nth image_iff row_at_batch)
qed

lemma flush_one_found:
  assumes "parquet_flush_one Q s f b = (Inr p, b')"
  shows "p = parquet_path Q s (pf_window_start_ms f) \<and> parquet_held f \<subseteq> parquet_found reader obj b' p \<and>
    (\<forall>q. q \<noteq> p \<longrightarrow> parquet_found reader obj b' q = parquet_found reader obj b q)"
proof -
  obtain bytes where b: "parquet_encode Q (pf_rows f) = Inr bytes" "ps_put Q (parquet_path Q s (pf_window_start_ms f)) bytes b = (Inr (), b')"
      "p = parquet_path Q s (pf_window_start_ms f)"
    using assms by (auto simp: parquet_flush_one_def Let_def split: prod.splits sum.splits)
  show ?thesis
    using put_ok [OF b(2)] put_frame [OF b(2)] encode_contents [OF b(1)] b(3) by (auto simp: parquet_held_def parquet_found_def)
qed

lemma parquet_shard_files:
  "shard_files (parquet_flush_one Q) (parquet_push Q) pf_window_start_ms parquet_held (parquet_found reader obj)
     (\<lambda>_. True) (\<lambda>_ _. True) (row_from_record (ps_rows Q)) pc_now_ms (parquet_path Q)"
  using parquet_path_inject flush_one_found by unfold_locales (auto simp: parquet_push_def parquet_held_def Let_def)

end

sublocale parquet_parts \<subseteq> parquet: shard_files "parquet_flush_one Q" "parquet_push Q" "parquet_full Q" pf_window_start_ms parquet_held
  "parquet_found reader obj" "\<lambda>_. True" "\<lambda>_ _. True" "row_from_record (ps_rows Q)" sr_shard pc_now_ms "parquet_path Q"
  by (rule parquet_shard_files)

context parquet_parts
begin

lemmas row_found = parquet.buffers.flushed_complete [where st\<^sub>0 = "parquet_store_new b" for b, folded parquet_write_buffer parquet_flush_buffer]

end


subsection \<open>An instance\<close>

definition demo_row_env :: row_env where
  "demo_row_env = \<lparr>re_headers_json = (\<lambda>_. ''{}''), re_micros = int\<rparr>"

definition page_record :: store_record where
  "page_record =
     (let u = \<lparr>cu_str = ''https://e.test/a'', cu_scheme = ''https'', cu_host = Some ''e.test'', cu_path = ''/a''\<rparr> in
      \<lparr>sr_doc = \<lparr>pd_url = u, pd_status = 200, pd_title = None, pd_text = Some ''hi'', pd_outbound_links = [u], pd_fetched_at = 0\<rparr>,
       sr_resp = \<lparr>fr_url = u, fr_status = 200, fr_headers = [(''Content-Type'', ''text/html'')], fr_body = ''hi'', fr_redirect_chain = [],
         fr_fetched_at = 5, fr_duration = 1\<rparr>,
       sr_run_id = ''r1'', sr_shard = 0, sr_depth = 0, sr_content_hash = 0\<rparr>)"

text \<open>Objects in a map, and a writer that knows one batch.\<close>

definition demo_parquet :: "(string \<rightharpoonup> string) parquet_store" where
  "demo_parquet =
     \<lparr>ps_put = (\<lambda>p c b. (Inr (), b(p \<mapsto> c))), ps_path_from = id, ps_paths = \<lparr>pb_base = ''out'', pb_run_id = ''r1'', pb_worker_id = ''0''\<rparr>,
      ps_rotation = rotation_policy_default, ps_rows = demo_row_env,
      ps_write_parquet = (\<lambda>_ cols. if cols = build_batch [row_from_record demo_row_env page_record] then Inr ''PAR1'' else Inl (SeParquet ''unsupported''))\<rparr>"

definition demo_reader :: "string \<Rightarrow> column list" where
  "demo_reader _ = build_batch [row_from_record demo_row_env page_record]"

interpretation mem_parquet: parquet_parts demo_parquet "\<lambda>b. b" demo_reader
  by unfold_locales (auto simp: demo_parquet_def demo_reader_def split: if_splits)

subsection \<open>Properties\<close>

text \<open>C36: every batch has the shape its schema declares: fifteen columns of equal length and of the declared types, a
  null only in a nullable column, and integers within the width of their column, for any shard, depth, hash
  or duration.\<close>

theorem batch_fits_schema:
  assumes "\<forall>r \<in> set records. fr_status (sr_resp r) < 2 ^ 16"
  shows "list_all2 fits build_schema (build_batch (map (row_from_record E) records)) \<and>
    list_all (\<lambda>c. column_length c = length records) (build_batch (map (row_from_record E) records))"
  using assms
  by (auto simp: build_schema_def build_batch_def row_from_record_def Let_def list_all_iff as_i32_range [simplified] as_i64_range [simplified])

theorem batch_fits_schema_witness:
  "list_all2 fits build_schema (build_batch [row_from_record demo_row_env page_record])"
  using batch_fits_schema [of "[page_record]" demo_row_env] by (simp add: page_record_def Let_def)

text \<open>the row of a record is found at its blob path. After any sequence of successful writes and flushes that opens no
  two files of a shard in the same millisecond, and one last successful flush, the object at the path a
  write returned reads back to columns that hold the row of the record, field by field.\<close>

theorem parquet_path_resolves:
  assumes "parquet_parts Q obj reader"
    and "store_run (parquet_write Q) (parquet_flush Q) (buffers_active pf_window_start_ms parquet_held) any_order (\<lambda>_ _. True) sr_shard pc_now_ms
      (parquet_path Q) (parquet_store_new b) h st"
    and "any_order ord" "parquet_flush Q ord st = (Inr (), st')" "(p, r) \<in> set h"
  shows "\<exists>g i. obj (sb_backend st') p = Some g \<and> i < column_length (hd (reader g)) \<and> row_at i (reader g) = row_from_record (ps_rows Q) r"
proof -
  have "row_from_record (ps_rows Q) r \<in> buffers_stored (parquet_found reader obj) st' p"
    using parquet_parts.row_found [OF assms(1,2) _ assms(3-5)] by (simp add: buffers_inv_def parquet_store_new_def)
  then show ?thesis
    by (auto simp: buffers_stored_def parquet_found_def parquet_contents_def Let_def split: option.splits)
qed

theorem parquet_path_resolves_witness:
  "\<exists>p st g i. fst (parquet_write demo_parquet \<lparr>pc_now_ms = 7, pc_instant = 0, pc_check_instant = 0\<rparr> page_record (parquet_store_new Map.empty)) = Inr p \<and>
     parquet_flush demo_parquet id (snd (parquet_write demo_parquet \<lparr>pc_now_ms = 7, pc_instant = 0, pc_check_instant = 0\<rparr> page_record
       (parquet_store_new Map.empty))) = (Inr (), st) \<and> sb_backend st p = Some g \<and> row_at i (demo_reader g) = row_from_record demo_row_env page_record"
proof -
  let ?c = "\<lparr>pc_now_ms = 7, pc_instant = 0, pc_check_instant = 0\<rparr>" and ?st\<^sub>0 = "parquet_store_new Map.empty :: (string \<rightharpoonup> string) parquet_state"
  let ?f = "parquet_push demo_parquet ?c page_record None"
  have rows: "pf_rows ?f = [row_from_record demo_row_env page_record]" "\<not> parquet_full demo_parquet ?c ?f"
    by (simp_all add: parquet_push_def parquet_full_def should_rotate_def rotation_policy_default_def demo_parquet_def page_record_def row_from_record_def Let_def)
  obtain p st where w: "parquet_write demo_parquet ?c page_record ?st\<^sub>0 = (Inr p, st)" "sb_files st = [(0, ?f)]"
    using rows(2) by (simp add: parquet_write_def parquet_store_new_def Let_def page_record_def)
  have enc: "parquet_encode demo_parquet (pf_rows ?f) = Inr ''PAR1''" unfolding rows(1) by (simp add: parquet_encode_def demo_parquet_def)
  obtain st' where fl: "parquet_flush demo_parquet id st = (Inr (), st')"
    by (simp add: parquet_flush_def w(2) parquet_flush_one_def enc Let_def) (simp add: demo_parquet_def)
  have run: "store_run (parquet_write demo_parquet) (parquet_flush demo_parquet) (buffers_active pf_window_start_ms parquet_held) any_order
      (\<lambda>_ _. True) sr_shard pc_now_ms (parquet_path demo_parquet) ?st\<^sub>0 [(p, page_record)] st"
    by (rule store_run.accept [OF store_run.start, of _ ?c]) (simp_all add: w(1))
  show ?thesis
    using parquet_path_resolves [OF mem_parquet.parquet_parts_axioms run _ fl, of p page_record] w(1) fl
    by (simp only: fst_conv snd_conv) (auto simp: demo_parquet_def)
qed

end
