(* ===== verification/Crawler_Assembly.thy ===== *)
theory Crawler_Assembly
  imports Seeding Html_Parser Warc_Store Parquet_Store
begin

text \<open>
  \<^verbatim>\<open>crawlrs-runtime/src/crawler.rs\<close> and the rest of \<^verbatim>\<open>crawlrs-bin/src/factory.rs\<close>: the builder of a crawler, the tasks it runs,
  the periodic driver of the frontier, and how the factory wires the Redis frontier, the politeness gate, the
  fetcher, the parser, the two archives and the Postgres ledger into one crawler. What the third-party clients
  answer while they are opened is a parameter.
\<close>

subsection \<open>The builder\<close>

text \<open>The trait objects a crawler is built from, as functions on the state \<open>'s\<close> behind them.\<close>

record 's frontier_service =
  fv_claim :: "worker_identity \<Rightarrow> 's \<Rightarrow> (crawl_error + claim_outcome) \<times> 's"
  fv_ack :: "attempt_id \<Rightarrow> 's \<Rightarrow> (crawl_error + unit) \<times> 's"
  fv_advance_wake :: "string \<Rightarrow> u64 \<Rightarrow> 's \<Rightarrow> (crawl_error + unit) \<times> 's"
  fv_submit_batch :: "url_entry list \<Rightarrow> 's \<Rightarrow> (crawl_error + submit_batch_outcome) \<times> 's"
  fv_tick :: "'s \<Rightarrow> (crawl_error + nat) \<times> 's"

record 's politeness_service =
  pv_check :: "canonical_url \<Rightarrow> 's \<Rightarrow> (crawl_error + polite_decision) \<times> 's"
  pv_record_fetch :: "canonical_url \<Rightarrow> 's \<Rightarrow> (crawl_error + next_wake) \<times> 's"
  pv_record_failure :: "canonical_url \<Rightarrow> failure_kind \<Rightarrow> duration option \<Rightarrow> 's \<Rightarrow> (crawl_error + next_wake) \<times> 's"

record 's clock_service =
  kv_now_ms :: "'s \<Rightarrow> u64"
  kv_instant :: "'s \<Rightarrow> nat"

datatype crawler_error = MissingDep string

definition show_crawler_error :: "crawler_error \<Rightarrow> string" where
  "show_crawler_error e = (case e of MissingDep dep \<Rightarrow> ''missing dependency: '' @ dep)"

text \<open>A setter of the builder is an update of its field.\<close>

record ('s, 'o) crawler_builder =
  cb_frontier :: "'s frontier_service option"
  cb_politeness :: "'s politeness_service option"
  cb_fetcher :: "(fetch_request \<Rightarrow> 's \<Rightarrow> (crawl_error + fetch_response) \<times> 's) option"
  cb_parser :: "(fetch_response \<Rightarrow> 's \<Rightarrow> (crawl_error + parsed_document) \<times> 's) option"
  cb_store :: "'s doc_store option"
  cb_metadata :: "(ledger_call \<Rightarrow> 's \<Rightarrow> (crawl_error + nat) \<times> 's) option"
  cb_outbox :: "'o option"
  cb_adapters :: "'s adapter_registry option"
  cb_sharding_policy :: "sharding_policy option"
  cb_clock :: "'s clock_service option"
  cb_config :: "crawler_config option"
  cb_crawl_scope :: "crawl_scope option"
  cb_blocklist :: "blocklist option"
  cb_run_id :: "run_id option"

definition crawler_builder_default :: "('s, 'o) crawler_builder" where
  "crawler_builder_default =
     \<lparr>cb_frontier = None, cb_politeness = None, cb_fetcher = None, cb_parser = None, cb_store = None, cb_metadata = None,
      cb_outbox = None, cb_adapters = None, cb_sharding_policy = None, cb_clock = None, cb_config = None, cb_crawl_scope = None,
      cb_blocklist = None, cb_run_id = None\<rparr>"

record ('s, 'o) crawler =
  cw_deps :: "'s worker_deps"
  cw_frontier_service :: "'s frontier_service"
  cw_outbox :: 'o
  cw_shutdown :: bool

definition and_then :: "'e + 'a \<Rightarrow> ('a \<Rightarrow> 'e + 'b) \<Rightarrow> 'e + 'b" where
  "and_then r f = (case r of Inl e \<Rightarrow> Inl e | Inr x \<Rightarrow> f x)"

definition require :: "string \<Rightarrow> 'a option \<Rightarrow> crawler_error + 'a" where
  "require dep x = (case x of Some v \<Rightarrow> Inr v | None \<Rightarrow> Inl (MissingDep dep))"

definition or_default :: "'a \<Rightarrow> 'a option \<Rightarrow> 'a" where
  "or_default d x = (case x of Some v \<Rightarrow> v | None \<Rightarrow> d)"

text \<open>\<open>system_clock\<close> is the process's clock and \<open>http_date\<close> the parser of HTTP dates the worker uses. The policy of the
  default has eight shards; a default scope has no caps.\<close>

definition crawler_build ::
  "'s clock_service \<Rightarrow> (string \<Rightarrow> nat option) \<Rightarrow> ('s, 'o) crawler_builder \<Rightarrow> crawler_error + ('s, 'o) crawler" where
  "crawler_build system_clock http_date b =
     and_then (require ''frontier'' (cb_frontier b)) (\<lambda>frontier.
     and_then (require ''politeness'' (cb_politeness b)) (\<lambda>politeness.
     and_then (require ''fetcher'' (cb_fetcher b)) (\<lambda>fetcher.
     and_then (require ''parser'' (cb_parser b)) (\<lambda>parser.
     and_then (require ''store'' (cb_store b)) (\<lambda>store.
     and_then (require ''metadata'' (cb_metadata b)) (\<lambda>metadata.
     and_then (require ''outbox'' (cb_outbox b)) (\<lambda>outbox.
     and_then (require ''run_id'' (cb_run_id b)) (\<lambda>run_id.
       let clock = or_default system_clock (cb_clock b) in
       Inr \<lparr>cw_deps =
              \<lparr>wd_claim = fv_claim frontier, wd_ack = fv_ack frontier, wd_advance_wake = fv_advance_wake frontier,
               wd_submit_batch = fv_submit_batch frontier, wd_check = pv_check politeness, wd_record_fetch = pv_record_fetch politeness,
               wd_record_failure = pv_record_failure politeness, wd_fetch = fetcher, wd_parse = parser, wd_write = so_write store,
               wd_ledger = metadata, wd_adapters = or_default [] (cb_adapters b), wd_now_ms = kv_now_ms clock, wd_instant = kv_instant clock,
               wd_http_date = http_date, wd_config = or_default crawler_config_default (cb_config b),
               wd_crawl_scope = or_default \<lparr>cs_max_depth = None, cs_max_urls = None, cs_per_domain = Map.empty\<rparr> (cb_crawl_scope b),
               wd_blocklist = or_default \<lparr>bl_hosts = []\<rparr> (cb_blocklist b), wd_run_id = run_id,
               wd_sharding = or_default (HostHashShardPolicy 8) (cb_sharding_policy b)\<rparr>,
            cw_frontier_service = frontier, cw_outbox = outbox, cw_shutdown = False\<rparr>))))))))"

subsection \<open>Tasks\<close>

datatype task = MaintenanceTask duration | FrontierTickTask duration | OutboxTask duration | WorkerTask worker_identity restart_policy

text \<open>What \<open>run\<close> spawns, in order. \<open>worker_index as u32\<close> keeps the low 32 bits.\<close>

definition crawler_tasks :: "('s, 'o) crawler \<Rightarrow> task list" where
  "crawler_tasks c =
     (let config = wd_config (cw_deps c) in
      [MaintenanceTask (wc_maintenance_interval config), FrontierTickTask (wc_promoter_tick config)] @
      (if wc_link_dispatch config = DurableOutbox then [OutboxTask DEFAULT_PUBLISH_INTERVAL] else []) @
      map (\<lambda>i. WorkerTask \<lparr>pod_ordinal = wc_pod_ordinal config, worker_index = i mod 2 ^ 32\<rparr> (wc_restart_policy config))
        [0..<wc_workers config])"

definition crawler_shutdown :: "('s, 'o) crawler \<Rightarrow> ('s, 'o) crawler" where
  "crawler_shutdown c = c\<lparr>cw_shutdown := True\<rparr>"

text \<open>What wakes a periodic loop: its timer, or a change of the shutdown flag to a value.\<close>

datatype loop_event = TickDue | ShutdownChanged bool

fun tick_loop :: "('s \<Rightarrow> (crawl_error + nat) \<times> 's) \<Rightarrow> loop_event list \<Rightarrow> 's \<Rightarrow> bool \<times> 's" where
  "tick_loop tick [] s = (False, s)"
| "tick_loop tick (TickDue # es) s = tick_loop tick es (snd (tick s))"
| "tick_loop tick (ShutdownChanged b # es) s = (if b then (True, s) else tick_loop tick es s)"

text \<open>\<open>None\<close> is the panic of a timer with the period zero; otherwise whether the loop has ended, and the state.\<close>

definition frontier_tick_loop ::
  "('s \<Rightarrow> (crawl_error + nat) \<times> 's) \<Rightarrow> duration \<Rightarrow> loop_event list \<Rightarrow> 's \<Rightarrow> (bool \<times> 's) option" where
  "frontier_tick_loop tick interval es s = (if interval = 0 then None else Some (tick_loop tick es s))"

subsection \<open>The archives behind the crawler\<close>

text \<open>
  The object store, the open files of the two archives, the state of the network, and for every store call what it
  reads of the clocks, the fresh ids and the iteration order of the map of open files.
\<close>

record store_turn =
  sk_parquet :: parquet_ctx
  sk_warc :: write_ctx
  sk_parquet_order :: "(u32 \<times> parquet_file) list \<Rightarrow> (u32 \<times> parquet_file) list"
  sk_warc_order :: "(u32 \<times> warc_file) list \<Rightarrow> (u32 \<times> warc_file) list"

record ('b, 'n) archive_world =
  aw_turns :: "nat \<Rightarrow> store_turn"
  aw_turn :: nat
  aw_backend :: 'b
  aw_parquet :: "(u32 \<times> parquet_file) list"
  aw_warc :: "(u32 \<times> warc_file) list"
  aw_net :: 'n

abbreviation aw_now :: "('b, 'n) archive_world \<Rightarrow> store_turn" where
  "aw_now w \<equiv> aw_turns w (aw_turn w)"

definition on_parquet :: "('b parquet_state \<Rightarrow> 'a \<times> 'b parquet_state) \<Rightarrow> ('b, 'n) archive_world \<Rightarrow> 'a \<times> ('b, 'n) archive_world" where
  "on_parquet f w =
     (let (r, st) = f \<lparr>sb_files = aw_parquet w, sb_backend = aw_backend w\<rparr>
      in (r, w\<lparr>aw_turn := Suc (aw_turn w), aw_parquet := sb_files st, aw_backend := sb_backend st\<rparr>))"

definition on_warc :: "('b warc_state \<Rightarrow> 'a \<times> 'b warc_state) \<Rightarrow> ('b, 'n) archive_world \<Rightarrow> 'a \<times> ('b, 'n) archive_world" where
  "on_warc f w =
     (let (r, st) = f \<lparr>sb_files = aw_warc w, sb_backend = aw_backend w\<rparr>
      in (r, w\<lparr>aw_turn := Suc (aw_turn w), aw_warc := sb_files st, aw_backend := sb_backend st\<rparr>))"

definition parquet_service :: "'b parquet_store \<Rightarrow> ('b, 'n) archive_world doc_store" where
  "parquet_service Q =
     \<lparr>so_write = (\<lambda>r w. on_parquet (parquet_write Q (sk_parquet (aw_now w)) r) w),
      so_flush = (\<lambda>w. on_parquet (parquet_flush Q (sk_parquet_order (aw_now w))) w)\<rparr>"

definition warc_service :: "'b warc_store \<Rightarrow> ('b, 'n) archive_world doc_store" where
  "warc_service W =
     \<lparr>so_write = (\<lambda>r w. on_warc (warc_write W (sk_warc (aw_now w)) r) w),
      so_flush = (\<lambda>w. on_warc (warc_flush W (sk_warc_order (aw_now w))) w)\<rparr>"

text \<open>What the factory meets on the side of the stores: the errors of opening a backend, the object store, the Parquet
  and WARC encoders.\<close>

record s3_settings =
  s3s_bucket :: string
  s3s_region :: string
  s3s_allow_http :: bool
  s3s_virtual_hosted :: bool
  s3s_endpoint :: "string option"
  s3s_access_key_id :: "string option"
  s3s_secret_access_key :: "string option"

record 'b store_side =
  sy_create_dir_error :: "string \<Rightarrow> string option"
  sy_local_error :: "string \<Rightarrow> string option"
  sy_s3_error :: "s3_settings \<Rightarrow> string option"
  sy_put :: "string \<Rightarrow> string \<Rightarrow> 'b \<Rightarrow> (string + unit) \<times> 'b"
  sy_path_from :: "string \<Rightarrow> string"
  sy_rows :: row_env
  sy_write_parquet :: "schema_field list \<Rightarrow> column list \<Rightarrow> store_error + string"
  sy_warc_env :: warc_env

definition s3_settings_of :: "s3_backend \<Rightarrow> s3_settings" where
  "s3_settings_of s =
     \<lparr>s3s_bucket = s3_bucket s, s3s_region = s3_region s, s3s_allow_http = s3_allow_http s,
      s3s_virtual_hosted = s3_virtual_hosted_style_request s, s3s_endpoint = s3_endpoint s,
      s3s_access_key_id = map_option expose (s3_access_key_id s), s3s_secret_access_key = map_option expose (s3_secret_access_key s)\<rparr>"

definition open_backend :: "'b store_side \<Rightarrow> store_backend \<Rightarrow> anyhow + unit" where
  "open_backend Y b =
     (case b of
        LocalBackend path \<Rightarrow>
          (case sy_create_dir_error Y path of Some e \<Rightarrow> Inl [''creating local store dir '' @ path, e]
           | None \<Rightarrow> (case sy_local_error Y path of Some e \<Rightarrow> Inl [''opening local FS backend at '' @ path, e] | None \<Rightarrow> Inr ()))
      | S3Backend s \<Rightarrow>
          (case sy_s3_error Y (s3_settings_of s) of Some e \<Rightarrow> Inl [''building AmazonS3 backend'', e] | None \<Rightarrow> Inr ()))"

definition store_paths :: "environment \<Rightarrow> crawlrs_config \<Rightarrow> path_builder" where
  "store_paths env c =
     \<lparr>pb_base = sx_base_prefix (cc_store c), pb_run_id = cc_run_id c,
      pb_worker_id = or_default ''0'' (opt_or (sx_worker_id (cc_store c)) (pod_ordinal_string env))\<rparr>"

definition store_rotation :: "crawlrs_config \<Rightarrow> rotation_policy" where
  "store_rotation c =
     (let r = sx_rotation (cc_store c) in \<lparr>rp_max_bytes = ro_max_bytes r, rp_max_rows = ro_max_rows r, rp_max_duration = ro_max_duration r\<rparr>)"

definition parquet_of :: "'b store_side \<Rightarrow> environment \<Rightarrow> crawlrs_config \<Rightarrow> 'b parquet_store" where
  "parquet_of Y env c =
     \<lparr>ps_put = sy_put Y, ps_path_from = sy_path_from Y, ps_paths = store_paths env c, ps_rotation = store_rotation c,
      ps_rows = sy_rows Y, ps_write_parquet = sy_write_parquet Y\<rparr>"

definition warc_of :: "'b store_side \<Rightarrow> environment \<Rightarrow> crawlrs_config \<Rightarrow> 'b warc_store" where
  "warc_of Y env c =
     \<lparr>ws_put = sy_put Y, ws_path_from = sy_path_from Y, ws_paths = store_paths env c, ws_rotation = store_rotation c,
      ws_run_id = cc_run_id c, ws_env = sy_warc_env Y\<rparr>"

definition build_store :: "'b store_side \<Rightarrow> environment \<Rightarrow> crawlrs_config \<Rightarrow> anyhow + ('b, 'n) archive_world doc_store" where
  "build_store Y env c =
     (if \<not> sx_parquet (cc_store c) \<and> \<not> sx_warc (cc_store c) then Inl [''at least one of [store].parquet / [store].warc must be true'']
      else case open_backend Y (sx_backend (cc_store c)) of Inl e \<Rightarrow> Inl e
        | Inr _ \<Rightarrow>
           (let stores = (if sx_parquet (cc_store c) then [parquet_service (parquet_of Y env c)] else []) @
                         (if sx_warc (cc_store c) then [warc_service (warc_of Y env c)] else [])
            in case multi_new stores of Inl e \<Rightarrow> Inl [''MultiStore::new: '' @ show_error e] | Inr ss \<Rightarrow> Inr (multi_store ss)))"


subsection \<open>The factory\<close>

text \<open>Everything the factory opens: Redis, the gate's backends, the stores, Postgres and the HTTP client, with the errors they
  may answer; the fetcher's behaviour on the network, the parser's libraries and the parser of HTTP dates.\<close>

record ('u, 'db, 'g, 'c, 'r, 'b, 'n) build_side =
  by_redis :: "'db redis_side"
  by_gate :: "('u, 'g, 'c, 'r) gate_backends"
  by_store :: "'b store_side"
  by_pg_error :: "string \<Rightarrow> u32 \<Rightarrow> string option"
  by_migrate_error :: "string option"
  by_pem_error :: "string \<Rightarrow> string option"
  by_client_error :: "client_settings \<Rightarrow> string option"
  by_fetch :: "client_settings \<Rightarrow> 'n fetcher_config \<Rightarrow> fetch_request \<Rightarrow> 'n \<Rightarrow> (crawl_error + fetch_response) \<times> 'n"
  by_parser :: "'u parser_env"
  by_url_value :: "canonical_url \<Rightarrow> 'u"
  by_http_date :: "string \<Rightarrow> nat option"

definition build_postgres_pool :: "(string \<Rightarrow> u32 \<Rightarrow> string option) \<Rightarrow> crawlrs_config \<Rightarrow> anyhow + unit" where
  "build_postgres_pool pg_error c =
     (case pg_error (expose (pt_url (cc_postgres c))) (pt_pool_size (cc_postgres c)) of
        Some e \<Rightarrow> Inl [''connecting to Postgres'', e] | None \<Rightarrow> Inr ())"

definition check_pool_size :: "crawlrs_config \<Rightarrow> anyhow + unit" where
  "check_pool_size c =
     (let workers = rn_workers (cc_runtime c) mod 2 ^ 32 in
      case validate_pool_size (rt_pool_size (cc_redis c)) workers of
        Inr _ \<Rightarrow> Inr ()
      | Inl (pool_max, required) \<Rightarrow>
          Inl [''validating Redis pool size against worker count'',
               ''redis pool max_size='' @ show_nat pool_max @ '' is below the configured worker count + headroom ('' @
               show_nat workers @ '' workers + '' @ show_nat POOL_HEADROOM @ '' headroom = '' @ show_nat required @
               ''); raise the pool size or lower the worker count''])"

definition build_fetcher ::
  "(string \<Rightarrow> string option) \<Rightarrow> (client_settings \<Rightarrow> string option) \<Rightarrow> crawlrs_config \<Rightarrow> anyhow + client_settings \<times> 'n fetcher_config" where
  "build_fetcher pem_error client_error c =
     (case fetcher_new pem_error client_error (build_fetcher_config c :: 'n fetcher_config) of
        Inl e \<Rightarrow> Inl [''constructing WreqFetcher'', show_error e]
      | Inr settings \<Rightarrow> Inr (settings, build_fetcher_config c))"

definition build_politeness ::
  "('u, 'db, 'c, 'r) gate_backends \<Rightarrow> sharding_policy \<Rightarrow> u32 list \<Rightarrow> crawlrs_config \<Rightarrow>
   anyhow + ('db, 'c, 'r) gate_state composite_politeness" where
  "build_politeness B policy owned c =
     (if pl_enabled (cc_politeness c) then
        (case composite_new B policy owned (cc_run_id c) (build_politeness_config c) of
           Inl e \<Rightarrow> Inl [''constructing CompositePoliteness'', show_error e] | Inr P \<Rightarrow> Inr P)
      else Inr (from_parts noop_parts (build_politeness_config c)))"

type_synonym ('db, 'g, 'b, 'n) full_world = "('db, 'g, ('b, 'n) archive_world) crawl_world"

definition frontier_service :: "'db redis_frontier \<Rightarrow> ('db, 'g, 'x) crawl_world frontier_service" where
  "frontier_service F =
     \<lparr>fv_claim = crawl_claim F,
      fv_ack = (\<lambda>a. on_redis (\<lambda>E. rf_ack F a (ce_fault E) (ce_fault2 E))),
      fv_advance_wake = (\<lambda>h t. on_redis (\<lambda>E. rf_advance_wake F h t (ce_fault E))),
      fv_submit_batch = (\<lambda>es. on_redis (\<lambda>E. rf_submit_batch F (ce_order E) es (u64_as_i64 (ce_wall_ms E)) (ce_submit_fault E))),
      fv_tick = on_redis (\<lambda>E. rf_tick F (u64_as_i64 (ce_wall_ms E)) (ce_tick_faults E))\<rparr>"

definition politeness_service :: "'g composite_politeness \<Rightarrow> ('db, 'g, 'x) crawl_world politeness_service" where
  "politeness_service P =
     \<lparr>pv_check = (\<lambda>u. on_gate (polite_check P u)), pv_record_fetch = (\<lambda>u. on_gate (polite_record_fetch P u)),
      pv_record_failure = (\<lambda>u k d. on_gate (polite_record_failure P u k d))\<rparr>"

definition on_net :: "('n \<Rightarrow> 'a \<times> 'n) \<Rightarrow> ('b, 'n) archive_world \<Rightarrow> 'a \<times> ('b, 'n) archive_world" where
  "on_net f w = (let (r, n) = f (aw_net w) in (r, w\<lparr>aw_net := n\<rparr>))"

definition store_on_ext :: "'x doc_store \<Rightarrow> ('db, 'g, 'x) crawl_world doc_store" where
  "store_on_ext S = \<lparr>so_write = (\<lambda>r. on_ext (so_write S r)), so_flush = on_ext (so_flush S)\<rparr>"

definition world_clock :: "('db, 'g, 'x) crawl_world clock_service" where
  "world_clock = \<lparr>kv_now_ms = (\<lambda>w. ce_wall_ms (cw_now w)), kv_instant = (\<lambda>w. ce_instant (cw_now w))\<rparr>"

text \<open>The outbox handle: the Postgres ledger, whose operation is \<open>pg_publish\<close>.\<close>

datatype outbox_handle = PostgresOutbox

record ('db, 'g, 'b, 'n) built =
  bu_crawler :: "(('db, 'g, 'b, 'n) full_world, outbox_handle) crawler"
  bu_frontier :: "'db redis_frontier"
  bu_politeness :: "'g composite_politeness"

definition wired_builder ::
  "('u, 'db, 'g, 'c, 'r, 'b, 'n) build_side \<Rightarrow> environment \<Rightarrow> crawlrs_config \<Rightarrow> sharding_policy \<Rightarrow> client_settings \<Rightarrow>
   'n fetcher_config \<Rightarrow> 'db redis_frontier \<Rightarrow> 'h composite_politeness \<Rightarrow> ('b, 'n) archive_world doc_store \<Rightarrow>
   (('db, 'h, 'b, 'n) full_world, outbox_handle) crawler_builder" where
  "wired_builder B env c policy settings fetcher frontier politeness store =
     crawler_builder_default\<lparr>
       cb_frontier := Some (frontier_service frontier), cb_politeness := Some (politeness_service politeness),
       cb_fetcher := Some (\<lambda>q. on_ext (on_net (by_fetch B settings fetcher q))),
       cb_parser := Some (\<lambda>r. on_ext (\<lambda>w. (html_parse (by_parser B) (by_url_value B (fr_url r)) r, w))),
       cb_store := Some (store_on_ext store), cb_metadata := Some crawl_ledger, cb_outbox := Some PostgresOutbox,
       cb_sharding_policy := Some policy, cb_config := Some (build_runtime_config env c),
       cb_crawl_scope := Some (build_crawl_scope c), cb_blocklist := Some (build_blocklist c),
       cb_run_id := Some (cc_run_id c)\<rparr>"

definition build_crawler ::
  "('u, 'db, 'g, 'c, 'r, 'b, 'n) build_side \<Rightarrow> environment \<Rightarrow> crawlrs_config \<Rightarrow>
   (anyhow + ('db, ('g, 'c, 'r) gate_state, 'b, 'n) built) option" where
  "build_crawler B env c =
     (case host_hash_new (sd_num_shards (cc_sharding c)) of None \<Rightarrow> None
      | Some policy \<Rightarrow> Some (
          and_then (owned_shards_of env c) (\<lambda>owned.
          and_then (build_redis_pool (by_redis B) c) (\<lambda>_.
          and_then (build_postgres_pool (by_pg_error B) c) (\<lambda>_.
          and_then (check_pool_size c) (\<lambda>_.
          and_then (build_fetcher (by_pem_error B) (by_client_error B) c) (\<lambda>(settings, fetcher).
          and_then (case by_migrate_error B of Some e \<Rightarrow> Inl [''running Postgres migrations'', e] | None \<Rightarrow> Inr ()) (\<lambda>_.
          and_then (frontier_of (by_redis B) c policy owned) (\<lambda>frontier.
          and_then (build_politeness (by_gate B) policy owned c) (\<lambda>politeness.
          and_then (build_store (by_store B) env c) (\<lambda>store.
          (case crawler_build world_clock (by_http_date B) (wired_builder B env c policy settings fetcher frontier politeness store) of
             Inl e \<Rightarrow> Inl [''CrawlerBuilder::build: '' @ show_crawler_error e]
           | Inr crawler \<Rightarrow> Inr \<lparr>bu_crawler = crawler, bu_frontier = frontier, bu_politeness = politeness\<rparr>))))))))))))"


subsection \<open>What the builder and the loops do\<close>

text \<open>The required dependencies that were not supplied, in the order the builder asks for them.\<close>

definition missing_deps :: "('s, 'o) crawler_builder \<Rightarrow> string list" where
  "missing_deps b =
     map fst (filter (\<lambda>(_, present). \<not> present)
       [(''frontier'', cb_frontier b \<noteq> None), (''politeness'', cb_politeness b \<noteq> None), (''fetcher'', cb_fetcher b \<noteq> None),
        (''parser'', cb_parser b \<noteq> None), (''store'', cb_store b \<noteq> None), (''metadata'', cb_metadata b \<noteq> None),
        (''outbox'', cb_outbox b \<noteq> None), (''run_id'', cb_run_id b \<noteq> None)])"

lemma crawler_build_missing:
  "case missing_deps b of [] \<Rightarrow> \<not> isl (crawler_build clock date b) | dep # _ \<Rightarrow> crawler_build clock date b = Inl (MissingDep dep)"
  by (simp add: missing_deps_def crawler_build_def and_then_def require_def Let_def split: option.split)

text \<open>Failed ticks do not end the loop; it runs every tick until the flag turns true.\<close>

lemma tick_loop_runs:
  "ShutdownChanged True \<notin> set es \<Longrightarrow>
   tick_loop tick (es @ ShutdownChanged True # rest) s = (True, ((\<lambda>s. snd (tick s)) ^^ count_list es TickDue) s)"
proof (induction es arbitrary: s)
  case (Cons e es)
  then show ?case by (cases e) (auto simp: funpow_swap1 [of "\<lambda>s. snd (tick s)"])
qed simp

text \<open>With the master switch off the gate lets every URL with a host through and touches nothing.\<close>

lemma disabled_gate:
  assumes "\<not> pl_enabled (cc_politeness c)" "build_politeness B policy owned c = Inr P" "cu_host u = Some h"
  shows "polite_check P u env g = (Inr Allow, g)" "snd (polite_record_fetch P u env g) = g" "snd (polite_record_failure P u k d env g) = g"
  using assms
  by (auto simp: build_politeness_def polite_check_def polite_record_fetch_def polite_record_failure_def from_parts_def noop_parts_def
      noop_is_open_def noop_allowed_def noop_record_fetch_def noop_record_failure_def default_reset_on_success_def)

lemma and_then_Inr: "and_then r f = Inr y \<longleftrightarrow> (\<exists>x. r = Inr x \<and> f x = Inr y)"
  by (cases r) (simp_all add: and_then_def)

lemma sum_case_Inr: "(case r of Inl e \<Rightarrow> Inl (f e) | Inr x \<Rightarrow> Inr (g x)) = Inr y \<longleftrightarrow> (\<exists>x. r = Inr x \<and> g x = y)"
  by (cases r) simp_all

lemma politeness_config_kept: "build_politeness B policy owned c = Inr P \<Longrightarrow> cp_config P = build_politeness_config c"
  by (auto simp: build_politeness_def composite_new_def from_parts_def split: if_splits option.splits sum.splits)

text \<open>What the crawler reaches through its trait objects besides the frontier, the gate and the ledger.\<close>

definition outside_of ::
  "('u, 'db, 'g, 'c, 'r, 'b, 'n) build_side \<Rightarrow> client_settings \<Rightarrow> crawlrs_config \<Rightarrow> ('b, 'n) archive_world doc_store \<Rightarrow>
   ('b, 'n) archive_world outside" where
  "outside_of B settings c store =
     \<lparr>xt_fetch = (\<lambda>q. on_net (by_fetch B settings (build_fetcher_config c) q)),
      xt_parse = (\<lambda>r w. (html_parse (by_parser B) (by_url_value B (fr_url r)) r, w)),
      xt_write = so_write store, xt_adapters = [], xt_http_date = by_http_date B\<rparr>"

lemma wired_crawler:
  assumes "rf_sharding F = policy" "rf_scope F = build_crawl_scope c"
    and "crawler_build world_clock (by_http_date B) (wired_builder B env c policy settings (build_fetcher_config c) F P store) = Inr crawler"
  shows "cw_deps crawler = crawl_deps F P (outside_of B settings c store)
    \<lparr>st_config = build_runtime_config env c, st_blocklist = build_blocklist c, st_run_id = cc_run_id c\<rparr>"
  using assms
  by (auto simp: crawler_build_def and_then_def require_def or_default_def wired_builder_def crawler_builder_default_def outside_of_def
      frontier_service_def politeness_service_def store_on_ext_def world_clock_def crawl_deps_def Let_def)

lemma build_crawlerE:
  assumes "build_crawler B env c = Some (Inr R)"
  obtains owned settings store policy where "policy = HostHashShardPolicy (sd_num_shards (cc_sharding c))"
    "owned_shards_of env c = Inr owned" "check_pool_size c = Inr ()"
    "frontier_of (by_redis B) c policy owned = Inr (bu_frontier R)" "build_politeness (by_gate B) policy owned c = Inr (bu_politeness R)"
    "build_store (by_store B) env c = Inr store"
    "crawler_build world_clock (by_http_date B)
       (wired_builder B env c policy settings (build_fetcher_config c) (bu_frontier R) (bu_politeness R) store) = Inr (bu_crawler R)"
  using assms
  by (auto simp: build_crawler_def host_hash_new_def and_then_Inr build_fetcher_def sum_case_Inr split: if_splits)


text \<open>A crawler over the reference backends.\<close>

definition mem_store_side :: "(string \<rightharpoonup> string) store_side" where
  "mem_store_side =
     \<lparr>sy_create_dir_error = (\<lambda>_. None), sy_local_error = (\<lambda>_. None), sy_s3_error = (\<lambda>_. None), sy_put = mem_put, sy_path_from = id,
      sy_rows = demo_row_env, sy_write_parquet = ps_write_parquet demo_parquet, sy_warc_env = ws_env demo_warc\<rparr>"

definition mem_side :: "(ref_url, mem_db, mem_hash, (string \<times> unit) list, (string \<times> string) list, string \<rightharpoonup> string, unit) build_side" where
  "mem_side =
     \<lparr>by_redis = seed_side, by_gate = demo_backends, by_store = mem_store_side, by_pg_error = (\<lambda>_ _. None), by_migrate_error = None,
      by_pem_error = (\<lambda>_. None), by_client_error = (\<lambda>_. None), by_fetch = (\<lambda>_ _ q n. (Inl (EFetch ''down''), n)),
      by_parser = demo_parser, by_url_value = (\<lambda>_. demo_page_url), by_http_date = (\<lambda>_. None)\<rparr>"


lemma seed_config_sel:
  "sd_num_shards (cc_sharding seed_config) = 8" "sd_owned_shards (cc_sharding seed_config) = None" "rn_workers (cc_runtime seed_config) = 4"
  "rt_pool_size (cc_redis seed_config) = 16" "sx_parquet (cc_store seed_config)" "pl_enabled (cc_politeness seed_config)"
  "sx_backend (cc_store seed_config) = LocalBackend ''/var/lib/crawlrs/data''" "cc_run_id seed_config = ''r''"
  by (simp_all add: seed_config_def config_demo sharding_table_default_def runtime_table_default_def default_redis_pool_size_def)

lemma mem_parts_open:
  "owned_shards_of Map.empty seed_config = Inr [0..<8]" "build_redis_pool seed_side seed_config = Inr ()"
  "check_pool_size seed_config = Inr ()" "\<exists>S. build_store mem_store_side Map.empty seed_config = Inr S"
  "build_postgres_pool (\<lambda>_ _. None) seed_config = Inr ()"
  "\<exists>settings. build_fetcher (\<lambda>_. None) (\<lambda>_. None) seed_config = Inr (settings, build_fetcher_config seed_config)"
  "frontier_of seed_side seed_config (HostHashShardPolicy 8) [0..<8] = Inr eight_shards"
  "\<exists>P. build_politeness demo_backends (HostHashShardPolicy 8) [0..<8] seed_config = Inr P"
proof -
  show "owned_shards_of Map.empty seed_config = Inr [0..<8]"
    by (simp add: owned_shards_of_def derive_owned_shards_def pod_name_ordinal_def seed_config_sel)
  show "build_redis_pool seed_side seed_config = Inr ()" "frontier_of seed_side seed_config (HostHashShardPolicy 8) [0..<8] = Inr eight_shards"
    using eight_shards_built by (auto simp: build_frontier_def host_hash_new_def seed_config_sel(1) split: sum.splits)
  show "check_pool_size seed_config = Inr ()"
    by (simp add: check_pool_size_def validate_pool_size_def POOL_HEADROOM_def seed_config_sel)
  show "\<exists>S. build_store mem_store_side Map.empty seed_config = Inr S"
    by (simp add: build_store_def open_backend_def multi_new_def mem_store_side_def Let_def seed_config_sel)
  show "build_postgres_pool (\<lambda>_ _. None) seed_config = Inr ()" by (simp add: build_postgres_pool_def)
  show "\<exists>settings. build_fetcher (\<lambda>_. None) (\<lambda>_. None) seed_config = Inr (settings, build_fetcher_config seed_config)"
    by (simp add: build_fetcher_def fetcher_new_def Let_def split: option.split)
  show "\<exists>P. build_politeness demo_backends (HostHashShardPolicy 8) [0..<8] seed_config = Inr P"
    by (simp add: build_politeness_def composite_new_def seed_config_sel upt_rec)
qed

lemma mem_crawler_built: "\<exists>R. build_crawler mem_side Map.empty seed_config = Some (Inr R)"
proof -
  obtain S settings P where "build_store mem_store_side Map.empty seed_config = Inr (S :: (string \<rightharpoonup> string, unit) archive_world doc_store)"
      "build_fetcher (\<lambda>_. None) (\<lambda>_. None) seed_config = Inr (settings, build_fetcher_config seed_config :: unit fetcher_config)"
      "build_politeness demo_backends (HostHashShardPolicy 8) [0..<8] seed_config = Inr P"
    using mem_parts_open(4,6,8) by blast
  then show ?thesis
    using mem_parts_open(1,2,3,5,7)
    by (simp add: build_crawler_def mem_side_def host_hash_new_def seed_config_sel(1) and_then_def crawler_build_def wired_builder_def
        crawler_builder_default_def require_def Let_def)
qed


end
