(* ===== verification/Crawl_Process.thy ===== *)
theory Crawl_Process
  imports Crawler_Assembly
begin

text \<open>
  \<^verbatim>\<open>crawlrs-bin/src/http.rs\<close>, \<^verbatim>\<open>run.rs\<close>, \<^verbatim>\<open>shutdown.rs\<close>, \<^verbatim>\<open>maintenance.rs\<close>, the command \<^verbatim>\<open>validate\<close> of \<^verbatim>\<open>main.rs\<close> and
  \<^verbatim>\<open>crawlrs-runtime/src/maintenance.rs\<close>: the process around a crawler. The probes and the order of a shutdown are a
  step relation; the maintenance loops take what wakes them and what their readings answer. Sockets,
  signals and the Prometheus registry are left out.
\<close>

subsection \<open>The probes\<close>

record probe_state =
  probe_ready :: bool
  probe_live :: bool

definition probes_new_ready :: probe_state where
  "probes_new_ready = \<lparr>probe_ready = True, probe_live = True\<rparr>"

definition mark_not_ready :: "probe_state \<Rightarrow> probe_state" where
  "mark_not_ready p = p\<lparr>probe_ready := False\<rparr>"

definition mark_ready :: "probe_state \<Rightarrow> probe_state" where
  "mark_ready p = p\<lparr>probe_ready := True\<rparr>"

definition healthz :: "nat \<times> string" where
  "healthz = (200, ''ok'')"

definition livez :: "probe_state \<Rightarrow> nat \<times> string" where
  "livez p = (if probe_live p then (200, ''live'') else (503, ''not live''))"

definition readyz :: "probe_state \<Rightarrow> nat \<times> string" where
  "readyz p = (if probe_ready p then (200, ''ready'') else (503, ''not ready''))"

text \<open>The answer to a GET of a path; \<open>None\<close> is a path the router does not know.\<close>

definition router :: "string \<Rightarrow> probe_state \<Rightarrow> string \<Rightarrow> (nat \<times> string) option" where
  "router metrics p path =
     (if path = ''/metrics'' then Some (200, metrics)
      else if path = ''/healthz'' then Some healthz
      else if path = ''/livez'' then Some (livez p)
      else if path = ''/readyz'' then Some (readyz p)
      else None)"

subsection \<open>Shutdown\<close>

text \<open>The bridge from the signal to the crawler: it waits, drains until a time in milliseconds, has told the crawler to
  stop, and has retired the listener.\<close>

datatype bridge = BridgeWaiting | BridgeDraining nat | BridgeStopping | BridgeDone

record crawl_process =
  kp_now :: nat
  kp_signalled :: bool
  kp_bridge :: bridge
  kp_probes :: probe_state
  kp_not_ready_at :: "nat option"
  kp_crawler_stop :: bool
  kp_http_stop :: bool

definition DRAIN_MS :: nat where "DRAIN_MS = 5000"

definition process_start :: "nat \<Rightarrow> crawl_process" where
  "process_start now =
     \<lparr>kp_now = now, kp_signalled = False, kp_bridge = BridgeWaiting, kp_probes = probes_new_ready, kp_not_ready_at = None,
      kp_crawler_stop = False, kp_http_stop = False\<rparr>"

inductive process_step :: "crawl_process \<Rightarrow> crawl_process \<Rightarrow> bool" where
  time: "process_step s (s\<lparr>kp_now := kp_now s + d\<rparr>)"
| signal: "process_step s (s\<lparr>kp_signalled := True\<rparr>)"
| drain: "kp_bridge s = BridgeWaiting \<Longrightarrow> kp_signalled s \<Longrightarrow>
    process_step s (s\<lparr>kp_probes := mark_not_ready (kp_probes s), kp_not_ready_at := Some (kp_now s),
      kp_bridge := BridgeDraining (kp_now s + DRAIN_MS)\<rparr>)"
| stop: "kp_bridge s = BridgeDraining t \<Longrightarrow> t \<le> kp_now s \<Longrightarrow>
    process_step s (s\<lparr>kp_crawler_stop := True, kp_bridge := BridgeStopping\<rparr>)"
| retire: "kp_bridge s = BridgeStopping \<Longrightarrow> process_step s (s\<lparr>kp_http_stop := True, kp_bridge := BridgeDone\<rparr>)"

inductive_cases process_stepE: "process_step s s'"

abbreviation process_reaches :: "crawl_process \<Rightarrow> crawl_process \<Rightarrow> bool" where
  "process_reaches \<equiv> process_step\<^sup>*\<^sup>*"

text \<open>The bridge's place fixes the rest of the state.\<close>

fun process_inv :: "crawl_process \<Rightarrow> bool" where
  "process_inv s =
     (probe_live (kp_probes s) \<and> (probe_ready (kp_probes s) \<longleftrightarrow> kp_not_ready_at s = None) \<and>
      (case kp_bridge s of
         BridgeWaiting \<Rightarrow> kp_not_ready_at s = None \<and> \<not> kp_crawler_stop s \<and> \<not> kp_http_stop s
       | BridgeDraining t \<Rightarrow> kp_signalled s \<and> \<not> kp_crawler_stop s \<and> \<not> kp_http_stop s \<and>
           (\<exists>t\<^sub>0. kp_not_ready_at s = Some t\<^sub>0 \<and> t = t\<^sub>0 + DRAIN_MS)
       | BridgeStopping \<Rightarrow> kp_signalled s \<and> kp_crawler_stop s \<and> \<not> kp_http_stop s \<and>
           (\<exists>t\<^sub>0. kp_not_ready_at s = Some t\<^sub>0 \<and> t\<^sub>0 + DRAIN_MS \<le> kp_now s)
       | BridgeDone \<Rightarrow> kp_signalled s \<and> kp_crawler_stop s \<and> kp_http_stop s \<and>
           (\<exists>t\<^sub>0. kp_not_ready_at s = Some t\<^sub>0 \<and> t\<^sub>0 + DRAIN_MS \<le> kp_now s)))"

lemma process_step_inv: "process_step s s' \<Longrightarrow> process_inv s \<Longrightarrow> process_inv s'"
  by (erule process_stepE) (auto simp: mark_not_ready_def split: bridge.splits)

lemma process_reaches_inv: "process_reaches (process_start now) s \<Longrightarrow> process_inv s"
proof (induction rule: rtranclp_induct)
  case base
  then show ?case by (simp add: process_start_def probes_new_ready_def)
next
  case (step s s')
  then show ?case using process_step_inv by blast
qed


text \<open>From every reachable state a signal leads to the end of the crawler and of the listener.\<close>

definition ends :: "crawl_process \<Rightarrow> bool" where
  "ends s = (\<exists>s'. process_reaches s s' \<and> kp_crawler_stop s' \<and> kp_http_stop s')"

lemma ends_step: "process_step s t \<Longrightarrow> ends t \<Longrightarrow> ends s"
  unfolding ends_def by (blast intro: converse_rtranclp_into_rtranclp)

lemma ends_stopping: "kp_bridge s = BridgeStopping \<Longrightarrow> kp_crawler_stop s \<Longrightarrow> ends s"
  by (rule ends_step [OF process_step.retire]) (auto simp: ends_def)

lemma ends_draining: "kp_bridge s = BridgeDraining u \<Longrightarrow> ends s"
proof -
  assume b: "kp_bridge s = BridgeDraining u"
  have "process_step (s\<lparr>kp_now := kp_now s + u\<rparr>) (s\<lparr>kp_now := kp_now s + u\<rparr>\<lparr>kp_crawler_stop := True, kp_bridge := BridgeStopping\<rparr>)"
    by (rule process_step.stop [of _ u]) (simp_all add: b)
  from ends_step [OF this] have "ends (s\<lparr>kp_now := kp_now s + u\<rparr>)" by (simp add: ends_stopping)
  then show ?thesis by (rule ends_step [OF process_step.time])
qed

lemma shutdown_completes:
  assumes "process_inv s"
  shows "ends s"
proof (cases "kp_bridge s")
  case BridgeWaiting
  then have "process_step (s\<lparr>kp_signalled := True\<rparr>) (s\<lparr>kp_signalled := True\<rparr>\<lparr>kp_probes := mark_not_ready (kp_probes (s\<lparr>kp_signalled := True\<rparr>)),
      kp_not_ready_at := Some (kp_now (s\<lparr>kp_signalled := True\<rparr>)), kp_bridge := BridgeDraining (kp_now (s\<lparr>kp_signalled := True\<rparr>) + DRAIN_MS)\<rparr>)"
    by (intro process_step.drain) simp_all
  from ends_step [OF this] have "ends (s\<lparr>kp_signalled := True\<rparr>)" by (simp add: ends_draining)
  then show ?thesis by (rule ends_step [OF process_step.signal])
next
  case BridgeStopping
  then show ?thesis using ends_stopping assms by simp
next
  case BridgeDone
  then show ?thesis using assms by (auto simp: ends_def)
qed (rule ends_draining)

definition stopped_process :: crawl_process where
  "stopped_process =
     \<lparr>kp_now = 5007, kp_signalled = True, kp_bridge = BridgeStopping, kp_probes = mark_not_ready probes_new_ready, kp_not_ready_at = Some 7,
      kp_crawler_stop = True, kp_http_stop = False\<rparr>"

lemma stopped_process_reached: "process_reaches (process_start 7) stopped_process"
proof -
  let ?a = "(process_start 7)\<lparr>kp_signalled := True\<rparr>"
  let ?b = "?a\<lparr>kp_probes := mark_not_ready probes_new_ready, kp_not_ready_at := Some 7, kp_bridge := BridgeDraining 5007\<rparr>"
  let ?c = "?b\<lparr>kp_now := 5007\<rparr>"
  have "process_step (process_start 7) ?a" by (rule process_step.signal)
  moreover have "process_step ?a ?b" using process_step.drain [of ?a] by (simp add: process_start_def DRAIN_MS_def)
  moreover have "process_step ?b ?c" using process_step.time [of ?b 5000] by (simp add: process_start_def)
  moreover have "process_step ?c stopped_process"
    using process_step.stop [of ?c 5007] by (simp add: process_start_def stopped_process_def)
  ultimately show ?thesis by (meson converse_rtranclp_into_rtranclp r_into_rtranclp)
qed


subsection \<open>Maintenance\<close>

text \<open>One round of the binary's loop: woken by its timer or by the shutdown flag, with the answer of the dead-letter count.
  The state is the gauge it sets.\<close>

datatype maintenance_round = MaintainRound "crawl_error + nat" | MaintainShutdown

fun maintenance_run :: "maintenance_round list \<Rightarrow> nat option \<Rightarrow> bool \<times> nat option" where
  "maintenance_run [] gauge = (False, gauge)"
| "maintenance_run (MaintainShutdown # rs) gauge = (True, gauge)"
| "maintenance_run (MaintainRound answer # rs) gauge =
     maintenance_run rs (case answer of Inr n \<Rightarrow> Some n | Inl _ \<Rightarrow> gauge)"

text \<open>A failed reading keeps the gauge and the loop.\<close>

lemma maintenance_gauge:
  "maintenance_run (map MaintainRound answers @ MaintainShutdown # rest) gauge =
   (True, fold (\<lambda>a g. case a of Inr n \<Rightarrow> Some n | Inl _ \<Rightarrow> g) answers gauge)"
  by (induction answers arbitrary: gauge) simp_all

text \<open>The runtime's loop, which ends only when the flag is true; it counts its heartbeats. \<open>None\<close> is the panic of a timer
  with the period zero.\<close>

definition maintenance_loop :: "duration \<Rightarrow> loop_event list \<Rightarrow> (bool \<times> nat) option" where
  "maintenance_loop interval es = frontier_tick_loop (\<lambda>n. (Inr 0, Suc n)) interval es 0"

record proc_status =
  prs_rss_kb :: "u64 option"
  prs_hwm_kb :: "u64 option"
  prs_vsize_kb :: "u64 option"
  prs_peak_kb :: "u64 option"
  prs_data_kb :: "u64 option"
  prs_threads :: "u32 option"

definition proc_status_default :: proc_status where
  "proc_status_default =
     \<lparr>prs_rss_kb = None, prs_hwm_kb = None, prs_vsize_kb = None, prs_peak_kb = None, prs_data_kb = None, prs_threads = None\<rparr>"

text \<open>\<open>split_whitespace().next()\<close>.\<close>

definition first_word :: "string \<Rightarrow> string option" where
  "first_word s = (let w = takeWhile (\<lambda>c. \<not> is_ws c) (trim_start s) in if w = [] then None else Some w)"

definition proc_field :: "string \<Rightarrow> string \<Rightarrow> proc_status \<Rightarrow> proc_status" where
  "proc_field label v out =
     (if label = ''VmRSS'' then out\<lparr>prs_rss_kb := parse_uint U64_MAX v\<rparr>
      else if label = ''VmHWM'' then out\<lparr>prs_hwm_kb := parse_uint U64_MAX v\<rparr>
      else if label = ''VmSize'' then out\<lparr>prs_vsize_kb := parse_uint U64_MAX v\<rparr>
      else if label = ''VmPeak'' then out\<lparr>prs_peak_kb := parse_uint U64_MAX v\<rparr>
      else if label = ''VmData'' then out\<lparr>prs_data_kb := parse_uint U64_MAX v\<rparr>
      else if label = ''Threads'' then out\<lparr>prs_threads := parse_uint U32_MAX v\<rparr>
      else out)"

definition read_proc_status :: "(string + string) \<Rightarrow> proc_status" where
  "read_proc_status file =
     (case file of Inl _ \<Rightarrow> proc_status_default
      | Inr status \<Rightarrow>
          fold (\<lambda>line out. case split_once (CHR '':'') line of None \<Rightarrow> out
                | Some (label, rest) \<Rightarrow> (case first_word rest of Some v \<Rightarrow> proc_field label v out | None \<Rightarrow> out))
            (text_lines status) proc_status_default)"

subsection \<open>The command line\<close>

definition validate_command ::
  "(string \<Rightarrow> string + string) \<Rightarrow> (string \<Rightarrow> string + crawlrs_config) \<Rightarrow> environment \<Rightarrow> string \<Rightarrow> anyhow + string" where
  "validate_command read_to_string from_toml env path =
     (case with_context (''loading config '' @ path) (load_config read_to_string from_toml env path) of
        Inl e \<Rightarrow> Inl e | Inr c \<Rightarrow> Inr (''ok: '' @ config_summary c))"


end
