(* ===== verification/Archive_Pair.thy ===== *)
theory Archive_Pair
  imports Crawler_Assembly
begin

text \<open>
  The two archives behind one crawler. The store the factory builds writes every record to a Parquet file and to a
  WARC file over the same object store; neither archive's uploads touch the other's objects, so the
  contract of each holds of the pair, and one flush makes both copies of every record readable.
\<close>

subsection \<open>Runs of the pair\<close>

text \<open>The path of the WARC file a write of the pair goes to: the file that is open for the shard, or one opened at the
  time of the second call.\<close>

definition warc_target :: "'b warc_store \<Rightarrow> ('b, 'n) archive_world \<Rightarrow> store_record \<Rightarrow> string" where
  "warc_target W w r =
     warc_path W (sr_shard r)
       (case map_of (aw_warc w) (sr_shard r) of Some f \<Rightarrow> wf_window_start_ms f
        | None \<Rightarrow> wc_now_ms (sk_warc (aw_turns w (Suc (aw_turn w)))))"

definition fair_turns :: "('b, 'n) archive_world \<Rightarrow> bool" where
  "fair_turns w \<longleftrightarrow> (\<forall>i. any_order (sk_parquet_order (aw_turns w i)) \<and> any_order (sk_warc_order (aw_turns w i)))"

text \<open>Successful writes and flushes from a world without open files, with the two paths of every record. Each archive opens
  a file at a time its shard has not used before.\<close>

inductive pair_run ::
  "'b parquet_store \<Rightarrow> 'b warc_store \<Rightarrow> (string \<times> string \<times> store_record) list \<Rightarrow> ('b, 'n) archive_world \<Rightarrow> bool"
  for Q W where
  start: "aw_parquet w = [] \<Longrightarrow> aw_warc w = [] \<Longrightarrow> fair_turns w \<Longrightarrow> pair_run Q W [] w"
| accept: "pair_run Q W h w \<Longrightarrow> warc_good W (sk_warc (aw_turns w (Suc (aw_turn w)))) r \<Longrightarrow>
    map_of (aw_parquet w) (sr_shard r) = None \<longrightarrow> parquet_path Q (sr_shard r) (pc_now_ms (sk_parquet (aw_now w))) \<notin> fst ` set h \<Longrightarrow>
    map_of (aw_warc w) (sr_shard r) = None \<longrightarrow> warc_target W w r \<notin> (fst \<circ> snd) ` set h \<Longrightarrow>
    so_write (multi_store [parquet_service Q, warc_service W]) r w = (Inr p, w') \<Longrightarrow>
    pair_run Q W ((p, warc_target W w r, r) # h) w'"
| settle: "pair_run Q W h w \<Longrightarrow> so_flush (multi_store [parquet_service Q, warc_service W]) w = (Inr (), w') \<Longrightarrow> pair_run Q W h w'"

text \<open>A call of the pair is a call of the one archive and then of the other.\<close>

lemma pair_write:
  assumes "so_write (multi_store [parquet_service Q, warc_service W]) r w = (Inr p, w')"
  obtains st1 q st2 where
    "parquet_write Q (sk_parquet (aw_now w)) r \<lparr>sb_files = aw_parquet w, sb_backend = aw_backend w\<rparr> = (Inr p, st1)"
    "warc_write W (sk_warc (aw_turns w (Suc (aw_turn w)))) r \<lparr>sb_files = aw_warc w, sb_backend = sb_backend st1\<rparr> = (Inr q, st2)"
    "w' = w\<lparr>aw_turn := Suc (Suc (aw_turn w)), aw_parquet := sb_files st1, aw_warc := sb_files st2, aw_backend := sb_backend st2\<rparr>"
  using assms
  by (auto simp: multi_store_def multi_write_def parquet_service_def warc_service_def on_parquet_def on_warc_def Let_def
      split: prod.splits sum.splits)

lemma pair_flush:
  assumes "so_flush (multi_store [parquet_service Q, warc_service W]) w = (Inr (), w')"
  obtains st1 st2 where
    "parquet_flush Q (sk_parquet_order (aw_now w)) \<lparr>sb_files = aw_parquet w, sb_backend = aw_backend w\<rparr> = (Inr (), st1)"
    "warc_flush W (sk_warc_order (aw_turns w (Suc (aw_turn w)))) \<lparr>sb_files = aw_warc w, sb_backend = sb_backend st1\<rparr> = (Inr (), st2)"
    "w' = w\<lparr>aw_turn := Suc (Suc (aw_turn w)), aw_parquet := sb_files st1, aw_warc := sb_files st2, aw_backend := sb_backend st2\<rparr>"
  using assms
  by (auto simp: multi_store_def multi_flush_def parquet_service_def warc_service_def on_parquet_def on_warc_def Let_def
      split: prod.splits sum.splits if_splits)

lemma warc_write_path:
  assumes "warc_write W c r st = (Inr q, st')"
  shows "q = warc_path W (sr_shard r) (case map_of (sb_files st) (sr_shard r) of Some f \<Rightarrow> wf_window_start_ms f | None \<Rightarrow> wc_now_ms c)"
  using assms by (auto simp: warc_write_def warc_append_def open_file_def Let_def split: if_splits prod.splits sum.splits option.splits)

lemma parquet_write_path:
  assumes "parquet_write Q c r st = (Inr p, st')"
  shows "\<exists>t. p = parquet_path Q (sr_shard r) t"
  using assms by (auto simp: parquet_write_def Let_def split: if_splits prod.splits sum.splits)

lemma buffers_eta [simp]: "\<lparr>sb_files = sb_files st, sb_backend = sb_backend st\<rparr> = (st :: ('f, 'b) shard_buffers)"
  by (cases st) simp

subsection \<open>Neither archive touches the other\<close>

locale archives = w: warc_parts W obj gunzip + q: parquet_parts Q obj reader
  for W :: "'b warc_store" and Q :: "'b parquet_store" and obj :: "'b \<Rightarrow> string \<rightharpoonup> string"
    and gunzip :: "string \<Rightarrow> (string \<times> string) option" and reader :: "string \<Rightarrow> column list" +
  assumes apart: "parquet_path Q s t \<noteq> warc_path W s' t'"
begin

lemma parquet_upload_frame:
  "parquet_flush_one Q s f b = (r, b') \<Longrightarrow> obj b' (warc_path W s' t') = obj b (warc_path W s' t')"
  using q.put_frame apart by (auto simp: parquet_flush_one_def Let_def split: sum.splits prod.splits) metis+

lemma warc_upload_frame:
  "warc_flush_one W s f b = (r, b') \<Longrightarrow> obj b' (parquet_path Q s' t') = obj b (parquet_path Q s' t')"
  using w.put_frame apart by (auto simp: warc_flush_one_def Let_def split: sum.splits prod.splits)

lemma parquet_write_frame:
  "parquet_write Q c r st = (x, st') \<Longrightarrow> obj (sb_backend st') (warc_path W s t) = obj (sb_backend st) (warc_path W s t)"
  using parquet_upload_frame by (auto simp: parquet_write_def Let_def split: if_splits prod.splits sum.splits)

lemma warc_write_frame:
  "warc_write W c r st = (x, st') \<Longrightarrow> obj (sb_backend st') (parquet_path Q s t) = obj (sb_backend st) (parquet_path Q s t)"
  using warc_upload_frame by (auto simp: warc_write_def Let_def split: if_splits prod.splits sum.splits)

lemma parquet_files_frame: "parquet_flush_loop Q fs b = (x, b') \<Longrightarrow> obj b' (warc_path W s t) = obj b (warc_path W s t)"
proof (induction fs arbitrary: b)
  case (Cons a fs)
  then show ?case using parquet_upload_frame by (cases a) (fastforce split: prod.splits sum.splits)
qed simp

lemma warc_files_frame: "warc_flush_loop W fs b = (x, b') \<Longrightarrow> obj b' (parquet_path Q s t) = obj b (parquet_path Q s t)"
proof (induction fs arbitrary: b)
  case (Cons a fs)
  then show ?case using warc_upload_frame by (cases a) (fastforce split: prod.splits sum.splits)
qed simp

abbreviation parquet_side :: "('b, 'n) archive_world \<Rightarrow> 'b parquet_state" where
  "parquet_side a \<equiv> \<lparr>sb_files = aw_parquet a, sb_backend = aw_backend a\<rparr>"

abbreviation warc_side :: "('b, 'n) archive_world \<Rightarrow> 'b warc_state" where
  "warc_side a \<equiv> \<lparr>sb_files = aw_warc a, sb_backend = aw_backend a\<rparr>"

abbreviation rows_kept :: "(string \<times> store_record) list \<Rightarrow> 'b parquet_state \<Rightarrow> bool" where
  "rows_kept \<equiv> q.parquet.buffers.kept"

abbreviation pages_kept :: "(string \<times> store_record) list \<Rightarrow> 'b warc_state \<Rightarrow> bool" where
  "pages_kept \<equiv> w.warc.buffers.kept"

abbreviation warc_inv :: "'b warc_state \<Rightarrow> bool" where
  "warc_inv \<equiv> buffers_inv (\<lambda>f. archive (ws_env W) (wf_gzipped f))"

abbreviation parquet_inv :: "'b parquet_state \<Rightarrow> bool" where
  "parquet_inv \<equiv> buffers_inv (\<lambda>_. True)"

lemma rows_frame:
  assumes "rows_kept h st" "\<forall>(p, r) \<in> set h. \<exists>s t. p = parquet_path Q s t"
    and "\<And>s t. obj b' (parquet_path Q s t) = obj (sb_backend st) (parquet_path Q s t)"
  shows "rows_kept h \<lparr>sb_files = sb_files st, sb_backend = b'\<rparr>"
  using assms(1)
proof (rule q.parquet.buffers.kept_frame)
  show "\<forall>(p, r) \<in> set h. buffers_stored (parquet_found reader obj) \<lparr>sb_files = sb_files st, sb_backend = b'\<rparr> p =
      buffers_stored (parquet_found reader obj) st p"
    using assms(2,3) by (fastforce simp: buffers_stored_def parquet_found_def)
qed (simp add: buffers_active_def fun_eq_iff)

lemma pages_frame:
  assumes "pages_kept h st" "\<forall>(p, r) \<in> set h. \<exists>s t. p = warc_path W s t"
    and "\<And>s t. obj b' (warc_path W s t) = obj (sb_backend st) (warc_path W s t)"
  shows "pages_kept h \<lparr>sb_files = sb_files st, sb_backend = b'\<rparr>"
  using assms(1)
proof (rule w.warc.buffers.kept_frame)
  show "\<forall>(p, r) \<in> set h. buffers_stored (warc_found gunzip obj) \<lparr>sb_files = sb_files st, sb_backend = b'\<rparr> p =
      buffers_stored (warc_found gunzip obj) st p"
    using assms(2,3) by (fastforce simp: buffers_stored_def warc_found_def)
qed (simp add: buffers_active_def fun_eq_iff)

lemmas rows_write = q.parquet.buffers.kept_write [folded parquet_write_buffer]
lemmas rows_flush = q.parquet.buffers.kept_flush [folded parquet_flush_buffer]
lemmas rows_write_inv = q.parquet.buffers.write_ok [folded parquet_write_buffer, THEN conjunct1]
lemmas rows_flush_inv = q.parquet.buffers.flush_ok [folded parquet_flush_buffer, THEN conjunct1]
lemmas pages_write = w.warc.buffers.kept_write [folded warc_write_buffer]
lemmas pages_flush = w.warc.buffers.kept_flush [folded warc_flush_buffer]
lemmas pages_write_inv = w.warc.buffers.write_ok [folded warc_write_buffer, THEN conjunct1]
lemmas pages_flush_inv = w.warc.buffers.flush_ok [folded warc_flush_buffer, THEN conjunct1]

text \<open>What a run of the pair keeps: each archive's contract on its half of the history.\<close>

definition pair_ok :: "(string \<times> string \<times> store_record) list \<Rightarrow> ('b, 'n) archive_world \<Rightarrow> bool" where
  "pair_ok h a \<longleftrightarrow> fair_turns a \<and> parquet_inv (parquet_side a) \<and> warc_inv (warc_side a) \<and>
     rows_kept (map (\<lambda>(p, _, r). (p, r)) h) (parquet_side a) \<and> pages_kept (map (\<lambda>(_, p, r). (p, r)) h) (warc_side a) \<and>
     (\<forall>(p, p', r) \<in> set h. (\<exists>s t. p = parquet_path Q s t) \<and> (\<exists>s t. p' = warc_path W s t))"

lemma pair_ok_history:
  assumes "pair_ok h a"
  shows "\<forall>(p, r) \<in> set (map (\<lambda>(p, _, r). (p, r)) h). \<exists>s t. p = parquet_path Q s t"
    "\<forall>(p, r) \<in> set (map (\<lambda>(_, p, r). (p, r)) h). \<exists>s t. p = warc_path W s t"
  using assms by (auto simp: pair_ok_def)

lemma pair_flush_ok:
  assumes "pair_ok h a" "so_flush (multi_store [parquet_service Q, warc_service W]) a = (Inr (), a')"
  shows "pair_ok h a'" "(p, p', r) \<in> set h \<Longrightarrow>
    row_from_record (ps_rows Q) r \<in> parquet_found reader obj (aw_backend a') p \<and>
    build_http_response_payload (ws_env W) r \<in> warc_found gunzip obj (aw_backend a') p'"
proof -
  obtain st1 st2 where f: "parquet_flush Q (sk_parquet_order (aw_now a)) (parquet_side a) = (Inr (), st1)"
      "warc_flush W (sk_warc_order (aw_turns a (Suc (aw_turn a)))) \<lparr>sb_files = aw_warc a, sb_backend = sb_backend st1\<rparr> = (Inr (), st2)"
      "a' = a\<lparr>aw_turn := Suc (Suc (aw_turn a)), aw_parquet := sb_files st1, aw_warc := sb_files st2, aw_backend := sb_backend st2\<rparr>"
    using assms(2) by (rule pair_flush)
  let ?hp = "map (\<lambda>(p, _, r). (p, r)) h" and ?hw = "map (\<lambda>(_, p, r). (p, r)) h"
  have fair: "any_order (sk_parquet_order (aw_turns a i))" "any_order (sk_warc_order (aw_turns a i))" for i
    using assms(1) by (simp_all add: pair_ok_def fair_turns_def)
  have ok: "rows_kept ?hp (parquet_side a)" "parquet_inv (parquet_side a)" "pages_kept ?hw (warc_side a)" "warc_inv (warc_side a)"
    using assms(1) by (simp_all add: pair_ok_def)
  have rows: "rows_kept ?hp st1" "parquet_inv st1" "(p, r) \<in> set ?hp \<Longrightarrow> row_from_record (ps_rows Q) r \<in> parquet_found reader obj (sb_backend st1) p" for p r
    using rows_flush [OF ok(1,2) fair(1) f(1)] rows_flush_inv [OF ok(2) fair(1) f(1)] by (auto simp: buffers_stored_def)
  have moved: "obj (sb_backend st1) (warc_path W s t) = obj (aw_backend a) (warc_path W s t)" for s t
    using f(1) parquet_files_frame by (auto simp: parquet_flush_def split: prod.splits)
  have after: "obj (sb_backend st2) (parquet_path Q s t) = obj (sb_backend st1) (parquet_path Q s t)" for s t
    using f(2) warc_files_frame by (auto simp: warc_flush_def split: prod.splits)
  have w1: "pages_kept ?hw \<lparr>sb_files = aw_warc a, sb_backend = sb_backend st1\<rparr>" "warc_inv \<lparr>sb_files = aw_warc a, sb_backend = sb_backend st1\<rparr>"
    using pages_frame [OF ok(3) pair_ok_history(2) [OF assms(1)]] moved ok(4) by (simp_all add: buffers_inv_def)
  have pages: "pages_kept ?hw st2" "warc_inv st2" "(p, r) \<in> set ?hw \<Longrightarrow> build_http_response_payload (ws_env W) r \<in> warc_found gunzip obj (sb_backend st2) p" for p r
    using pages_flush [OF w1 fair(2) f(2)] pages_flush_inv [OF w1(2) fair(2) f(2)] by (auto simp: buffers_stored_def)
  have "rows_kept ?hp \<lparr>sb_files = sb_files st1, sb_backend = sb_backend st2\<rparr>"
    by (rule rows_frame [OF rows(1) pair_ok_history(1) [OF assms(1)] after])
  then show "pair_ok h a'"
    using assms(1) rows(2) pages(1,2) f(3) by (auto simp: pair_ok_def fair_turns_def buffers_inv_def)
  assume h: "(p, p', r) \<in> set h"
  then have m: "(p, r) \<in> set ?hp" "(p', r) \<in> set ?hw" "\<exists>s t. p = parquet_path Q s t"
    using assms(1) by (force simp: pair_ok_def)+
  then have "obj (sb_backend st2) p = obj (sb_backend st1) p" using after by blast
  then show "row_from_record (ps_rows Q) r \<in> parquet_found reader obj (aw_backend a') p \<and>
      build_http_response_payload (ws_env W) r \<in> warc_found gunzip obj (aw_backend a') p'"
    using rows(3) [OF m(1)] pages(3) [OF m(2)] f(3) by (simp add: parquet_found_def)
qed

lemma pair_write_ok:
  assumes "pair_ok h a" "warc_good W (sk_warc (aw_turns a (Suc (aw_turn a)))) r"
    and "map_of (aw_parquet a) (sr_shard r) = None \<longrightarrow> parquet_path Q (sr_shard r) (pc_now_ms (sk_parquet (aw_now a))) \<notin> fst ` set h"
    and "map_of (aw_warc a) (sr_shard r) = None \<longrightarrow> warc_target W a r \<notin> (fst \<circ> snd) ` set h"
    and "so_write (multi_store [parquet_service Q, warc_service W]) r a = (Inr p, a')"
  shows "pair_ok ((p, warc_target W a r, r) # h) a'"
proof -
  obtain st1 p' st2 where f: "parquet_write Q (sk_parquet (aw_now a)) r (parquet_side a) = (Inr p, st1)"
      "warc_write W (sk_warc (aw_turns a (Suc (aw_turn a)))) r \<lparr>sb_files = aw_warc a, sb_backend = sb_backend st1\<rparr> = (Inr p', st2)"
      "a' = a\<lparr>aw_turn := Suc (Suc (aw_turn a)), aw_parquet := sb_files st1, aw_warc := sb_files st2, aw_backend := sb_backend st2\<rparr>"
    using assms(5) by (rule pair_write)
  let ?hp = "map (\<lambda>(p, _, r). (p, r)) h" and ?hw = "map (\<lambda>(_, p, r). (p, r)) h"
  have ok: "rows_kept ?hp (parquet_side a)" "parquet_inv (parquet_side a)" "pages_kept ?hw (warc_side a)" "warc_inv (warc_side a)"
    using assms(1) by (simp_all add: pair_ok_def)
  have target: "p' = warc_target W a r" using warc_write_path [OF f(2)] by (simp add: warc_target_def)
  have fresh: "parquet_path Q (sr_shard r) (pc_now_ms (sk_parquet (aw_now a))) \<notin> fst ` set ?hp" if "map_of (aw_parquet a) (sr_shard r) = None"
    using assms(3) that by (force simp: image_iff)
  have fresh': "warc_path W (sr_shard r) (wc_now_ms (sk_warc (aw_turns a (Suc (aw_turn a))))) \<notin> fst ` set ?hw" if "map_of (aw_warc a) (sr_shard r) = None"
    using assms(4) that by (force simp: image_iff warc_target_def)
  have rows: "rows_kept ((p, r) # ?hp) st1" "parquet_inv st1"
    using rows_write [OF ok(1,2) TrueI f(1)] rows_write_inv [OF ok(2) TrueI f(1)] fresh by (simp_all add: buffers_active_def)
  have w1: "pages_kept ?hw \<lparr>sb_files = aw_warc a, sb_backend = sb_backend st1\<rparr>" "warc_inv \<lparr>sb_files = aw_warc a, sb_backend = sb_backend st1\<rparr>"
    using pages_frame [OF ok(3) pair_ok_history(2) [OF assms(1)]] parquet_write_frame [OF f(1)] ok(4) by (simp_all add: buffers_inv_def)
  have pages: "pages_kept ((p', r) # ?hw) st2" "warc_inv st2"
    using pages_write [OF w1 assms(2) f(2)] pages_write_inv [OF w1(2) assms(2) f(2)] fresh' by (simp_all add: buffers_active_def)
  have paths: "\<exists>s t. p = parquet_path Q s t" "\<exists>s t. p' = warc_path W s t"
    using parquet_write_path [OF f(1)] warc_write_path [OF f(2)] by blast+
  have "rows_kept ((p, r) # ?hp) \<lparr>sb_files = sb_files st1, sb_backend = sb_backend st2\<rparr>"
    using rows_frame [OF rows(1)] pair_ok_history(1) [OF assms(1)] paths(1) warc_write_frame [OF f(2)] by simp
  then show ?thesis
    using assms(1) rows(2) pages paths f(3) target by (simp add: pair_ok_def fair_turns_def buffers_inv_def)
qed

lemma pair_run_ok: "pair_run Q W h a \<Longrightarrow> pair_ok h a"
proof (induction rule: pair_run.induct)
  case (start a)
  then show ?case by (simp add: pair_ok_def buffers_inv_def q.parquet.buffers.kept_def w.warc.buffers.kept_def)
next
  case (accept h a r p a')
  then show ?case by (intro pair_write_ok)
next
  case (settle h a a')
  then show ?case using pair_flush_ok(1) by blast
qed

lemma pair_flushed:
  assumes "pair_run Q W h a" "so_flush (multi_store [parquet_service Q, warc_service W]) a = (Inr (), a')" "(p, p', r) \<in> set h"
  shows "row_from_record (ps_rows Q) r \<in> parquet_found reader obj (aw_backend a') p"
    "build_http_response_payload (ws_env W) r \<in> warc_found gunzip obj (aw_backend a') p'"
  using pair_flush_ok(2) [OF pair_run_ok [OF assms(1)] assms(2,3)] by simp_all

end

subsection \<open>The store of the factory\<close>

lemma built_pair:
  "sx_parquet (cc_store c) \<Longrightarrow> sx_warc (cc_store c) \<Longrightarrow> build_store Y env c = Inr S \<Longrightarrow>
   S = multi_store [parquet_service (parquet_of Y env c), warc_service (warc_of Y env c)]"
  by (auto simp: build_store_def multi_new_def split: sum.splits)

subsection \<open>An instance\<close>

abbreviation mem_parquet_store :: "(string \<rightharpoonup> string) parquet_store" where
  "mem_parquet_store \<equiv> parquet_of mem_store_side Map.empty seed_config"

abbreviation mem_warc_store :: "(string \<rightharpoonup> string) warc_store" where
  "mem_warc_store \<equiv> warc_of mem_store_side Map.empty seed_config"

lemma mem_store_sel [simp]:
  "ws_put mem_warc_store = mem_put" "ps_put mem_parquet_store = mem_put" "ws_path_from mem_warc_store = id" "ps_path_from mem_parquet_store = id"
  "ws_env mem_warc_store = ws_env demo_warc" "ws_run_id mem_warc_store = ''r''" "ps_rows mem_parquet_store = demo_row_env"
  "ps_write_parquet mem_parquet_store = ps_write_parquet demo_parquet"
  "ps_rotation mem_parquet_store = \<lparr>rp_max_bytes = 128 * 1024 * 1024, rp_max_rows = 100000, rp_max_duration = 30 * 60 * NANOS\<rparr>"
  by (simp_all add: warc_of_def parquet_of_def mem_store_side_def seed_config_sel store_rotation_def Let_def)
    (simp_all add: seed_config_def config_demo store_table_default_def rotation_table_default_def)

lemma extensions_differ: "raw_path pb ''parquet'' ''parquet'' s t \<noteq> raw_path pb' ''warc'' ''warc.gz'' s' t'"
proof
  assume "raw_path pb ''parquet'' ''parquet'' s t = raw_path pb' ''warc'' ''warc.gz'' s' t'"
  from arg_cong [OF this, of "\<lambda>p. hd (rev p)"] show False by (simp add: raw_path_def)
qed

interpretation mem_archives: archives mem_warc_store mem_parquet_store "\<lambda>b. b" len_gunzip demo_reader
proof (intro archives.intro archives_axioms.intro)
  show "warc_parts mem_warc_store (\<lambda>b. b) len_gunzip"
  proof unfold_locales
    show "gunzips (ws_env mem_warc_store) len_gunzip" "env_plain (ws_env mem_warc_store)" using demo_warc_env by simp_all
    show "length (warcinfo_body (ws_env mem_warc_store) (ws_run_id mem_warc_store)) \<le> U64_MAX"
      by (simp add: warcinfo_body_def demo_warc_def line_def crlf_def)
  qed (auto simp: mem_put_def)
  show "parquet_parts mem_parquet_store (\<lambda>b. b) demo_reader"
    by unfold_locales (auto simp: mem_put_def demo_parquet_def demo_reader_def split: if_splits)
  show "parquet_path mem_parquet_store s t \<noteq> warc_path mem_warc_store s' t'" for s t s' t'
    using extensions_differ by (simp add: parquet_path_def path_parquet_def warc_path_def path_warc_def compose_def)
qed

definition mem_world :: "(string \<rightharpoonup> string, unit) archive_world" where
  "mem_world =
     \<lparr>aw_turns = (\<lambda>_. \<lparr>sk_parquet = \<lparr>pc_now_ms = 7, pc_instant = 0, pc_check_instant = 0\<rparr>, sk_warc = demo_ctx, sk_parquet_order = id, sk_warc_order = id\<rparr>),
      aw_turn = 0, aw_backend = Map.empty, aw_parquet = [], aw_warc = [], aw_net = ()\<rparr>"

lemma page_good: "warc_good mem_warc_store demo_ctx page_record"
  by (simp add: warc_good_def record_plain_def demo_ctx_def page_record_def demo_warc_def
      build_http_response_payload_def line_def crlf_def show_nat.simps digit_char_def Let_def)

abbreviation mem_pair :: "(string \<rightharpoonup> string, unit) archive_world doc_store" where
  "mem_pair \<equiv> multi_store [parquet_service mem_parquet_store, warc_service mem_warc_store]"

lemma mem_pair_built: "build_store mem_store_side Map.empty seed_config = Inr mem_pair"
proof -
  have "sx_warc (cc_store seed_config)" by (simp add: seed_config_def config_demo store_table_default_def)
  then show ?thesis using mem_parts_open(4) built_pair seed_config_sel(5) by fastforce
qed


text \<open>C35: what the crawler stores is in both archives. With both archives on, after any sequence of successful writes and
  flushes of the store the factory builds that opens no two files of a shard in the same millisecond, and
  one last successful flush, the object at the path a write returned reads back to columns that hold the row of
  the record, and a readable WARC object holds its HTTP response, in which, with plain header values, the body
  is found byte for byte.\<close>

theorem archives_hold_record:
  assumes "build_store Y env c = Inr S" "sx_parquet (cc_store c)" "sx_warc (cc_store c)"
    and "archives (warc_of Y env c) (parquet_of Y env c) obj gunzip reader"
    and "pair_run (parquet_of Y env c) (warc_of Y env c) h w" "so_flush S w = (Inr (), w')" "(p, p', r) \<in> set h"
  shows "(\<exists>g i. obj (aw_backend w') p = Some g \<and> i < column_length (hd (reader g)) \<and> row_at i (reader g) = row_from_record (sy_rows Y) r) \<and>
     (\<exists>g cs. obj (aw_backend w') p' = Some g \<and> read_file gunzip (length g) g = Some cs \<and>
        build_http_response_payload (sy_warc_env Y) r \<in> set cs) \<and>
     (headers_plain r \<longrightarrow> (\<exists>ls. read_head (build_http_response_payload (sy_warc_env Y) r) = Some (ls, fr_body (sr_resp r))))"
proof -
  have S: "so_flush (multi_store [parquet_service (parquet_of Y env c), warc_service (warc_of Y env c)]) w = (Inr (), w')"
    using built_pair [OF assms(2,3,1)] assms(6) by simp
  have "env_plain (sy_warc_env Y)"
    using assms(4) by (auto simp: archives_def warc_parts_def warc_parts_axioms_def warc_of_def)
  then show ?thesis
    using archives.pair_flushed [OF assms(4,5) S assms(7)] payload_reads [of "sy_warc_env Y" r]
    by (auto simp: parquet_found_def parquet_contents_def warc_found_def contents_def parquet_of_def warc_of_def Let_def split: option.splits)
qed

theorem archives_hold_record_witness:
  "\<exists>p w\<^sub>1 w\<^sub>2 g i p' g' cs. so_write mem_pair page_record mem_world = (Inr p, w\<^sub>1) \<and> so_flush mem_pair w\<^sub>1 = (Inr (), w\<^sub>2) \<and>
     aw_backend w\<^sub>2 p = Some g \<and> row_at i (demo_reader g) = row_from_record demo_row_env page_record \<and>
     aw_backend w\<^sub>2 p' = Some g' \<and> read_file len_gunzip (length g') g' = Some cs \<and>
     build_http_response_payload (ws_env demo_warc) page_record \<in> set cs"
proof -
  let ?c = "\<lparr>pc_now_ms = 7, pc_instant = 0, pc_check_instant = 0\<rparr>" and ?Q = mem_parquet_store and ?W = mem_warc_store
  let ?f = "parquet_push ?Q ?c page_record None"
  have rows: "pf_rows ?f = [row_from_record demo_row_env page_record]" "\<not> parquet_full ?Q ?c ?f"
    by (simp_all add: parquet_push_def parquet_full_def should_rotate_def page_record_def row_from_record_def NANOS_def Let_def)
  obtain p st\<^sub>1 where w: "parquet_write ?Q ?c page_record \<lparr>sb_files = [], sb_backend = Map.empty\<rparr> = (Inr p, st\<^sub>1)" "sb_files st\<^sub>1 = [(0, ?f)]"
    using rows(2) by (simp add: parquet_write_def Let_def page_record_def)
  obtain q st\<^sub>2 where v: "warc_write ?W demo_ctx page_record \<lparr>sb_files = [], sb_backend = sb_backend st\<^sub>1\<rparr> = (Inr q, st\<^sub>2)"
    using mem_write_ok [OF mem_store_sel(1)] by blast
  define w\<^sub>1 where "w\<^sub>1 = mem_world\<lparr>aw_turn := 2, aw_parquet := [(0, ?f)], aw_warc := sb_files st\<^sub>2, aw_backend := sb_backend st\<^sub>2\<rparr>"
  have wr: "so_write mem_pair page_record mem_world = (Inr p, w\<^sub>1)"
    using w v by (simp add: w\<^sub>1_def mem_world_def multi_store_def multi_write_def parquet_service_def warc_service_def on_parquet_def on_warc_def numeral_2_eq_2)
  have enc: "parquet_encode ?Q (pf_rows ?f) = Inr ''PAR1''" unfolding rows(1) by (simp add: parquet_encode_def demo_parquet_def)
  obtain st\<^sub>3 where fp: "parquet_flush ?Q id \<lparr>sb_files = [(0, ?f)], sb_backend = sb_backend st\<^sub>2\<rparr> = (Inr (), st\<^sub>3)"
    by (simp add: parquet_flush_def parquet_flush_one_def enc mem_put_def Let_def)
  obtain st\<^sub>4 where fw: "warc_flush ?W id \<lparr>sb_files = sb_files st\<^sub>2, sb_backend = sb_backend st\<^sub>3\<rparr> = (Inr (), st\<^sub>4)"
    using mem_flush_ok [OF mem_store_sel(1)] by blast
  obtain w\<^sub>2 where fl: "so_flush mem_pair w\<^sub>1 = (Inr (), w\<^sub>2)"
    using fp fw by (simp add: w\<^sub>1_def mem_world_def multi_store_def multi_flush_def parquet_service_def warc_service_def on_parquet_def on_warc_def)
  have run: "pair_run ?Q ?W [(p, warc_target ?W mem_world page_record, page_record)] w\<^sub>1"
    by (rule pair_run.accept [OF pair_run.start _ _ _ wr]) (simp_all add: mem_world_def fair_turns_def page_good)
  have "sx_warc (cc_store seed_config)" by (simp add: seed_config_def config_demo store_table_default_def)
  from archives_hold_record [OF mem_pair_built seed_config_sel(5) this mem_archives.archives_axioms run fl, of p "warc_target ?W mem_world page_record" page_record]
  show ?thesis using wr fl by (auto simp: mem_store_side_def)
qed


end
