(* ===== verification/Frontier_Length.thy ===== *)
theory Frontier_Length
  imports Redis_Frontier
begin

text \<open>
  The queue depth of \<^verbatim>\<open>crawlrs-frontier/src/frontier.rs\<close> (\<open>len\<close>): for every owned shard the code walks the keys of the host
  queues with \<open>SCAN\<close> and adds up their lengths. \<open>SCAN\<close> is a parameter; the locale \<open>scan_server\<close> states what its
  documentation promises. Other clients may change the database between two commands, so the database is a
  function of the number of commands sent.
\<close>

subsection \<open>The loop\<close>

record 'db len_side =
  ln_pool :: bool
  ln_scan :: "'db \<Rightarrow> string \<Rightarrow> u64 \<Rightarrow> u64 \<times> string list"
  ln_at :: "nat \<Rightarrow> 'db"
  ln_fail :: "nat \<Rightarrow> string option"

fun count_keys :: "'db redis \<Rightarrow> 'db len_side \<Rightarrow> string list \<Rightarrow> nat \<Rightarrow> nat \<Rightarrow> (redis_frontier_error + nat) \<times> nat" where
  "count_keys R L [] n acc = (Inr acc, n)"
| "count_keys R L (key # batch) n acc =
     (case ln_fail L n of Some m \<Rightarrow> (Inl (RfRedis m), Suc n)
      | None \<Rightarrow> count_keys R L batch (Suc n) (min U64_MAX (acc + length (r_lrange R (ln_at L n) key))))"

partial_function (option) scan_shard ::
  "'db redis \<Rightarrow> 'db len_side \<Rightarrow> string \<Rightarrow> u64 \<Rightarrow> nat \<Rightarrow> nat \<Rightarrow> ((redis_frontier_error + nat) \<times> nat) option" where
  "scan_shard R L pattern cursor n acc =
     (case ln_fail L n of Some m \<Rightarrow> Some (Inl (RfRedis m), Suc n)
      | None \<Rightarrow>
         (case count_keys R L (snd (ln_scan L (ln_at L n) pattern cursor)) (Suc n) acc of
            (Inl e, n') \<Rightarrow> Some (Inl e, n')
          | (Inr acc', n') \<Rightarrow>
              if fst (ln_scan L (ln_at L n) pattern cursor) = 0 then Some (Inr acc', n')
              else scan_shard R L pattern (fst (ln_scan L (ln_at L n) pattern cursor)) n' acc'))"

fun len_shards ::
  "'db redis_frontier \<Rightarrow> 'db len_side \<Rightarrow> u32 list \<Rightarrow> nat \<Rightarrow> nat \<Rightarrow> (redis_frontier_error + nat) option" where
  "len_shards F L [] n acc = Some (Inr acc)"
| "len_shards F L (shard # shards) n acc =
     (case scan_shard (hq_redis (rf_ops F)) L (host_queue_prefix (hq_run (rf_ops F)) shard @ ''*'') 0 n acc of
        None \<Rightarrow> None
      | Some (Inl e, _) \<Rightarrow> Some (Inl e)
      | Some (Inr acc, n) \<Rightarrow> len_shards F L shards n acc)"

definition rf_len :: "'db redis_frontier \<Rightarrow> 'db len_side \<Rightarrow> (redis_frontier_error + nat) option" where
  "rf_len F L = (if ln_pool L then len_shards F L (rf_owned F) 0 0 else Some (Inl RfPool))"

lemma saturate_add: "min m (min m a + b) = min m (a + b :: nat)"
  by (simp add: min_def)

lemma sum_set_le_list: "(\<Sum>k\<in>set ks. f k) \<le> sum_list (map f ks)" for f :: "'a \<Rightarrow> nat"
  by (induction ks) (auto simp: sum.insert_if)

subsection \<open>The contract of SCAN\<close>

text \<open>The keys one iteration returns, from a cursor to the cursor 0; the pattern of a prefix has no other wildcard.\<close>

inductive scan_pages :: "('db \<Rightarrow> string \<Rightarrow> u64 \<Rightarrow> u64 \<times> string list) \<Rightarrow> 'db \<Rightarrow> string \<Rightarrow> u64 \<Rightarrow> string list \<Rightarrow> bool"
  for scan db pattern where
  finish: "scan db pattern c = (0, ks) \<Longrightarrow> scan_pages scan db pattern c ks"
| more: "scan db pattern c = (c', ks) \<Longrightarrow> c' \<noteq> 0 \<Longrightarrow> scan_pages scan db pattern c' ks' \<Longrightarrow> scan_pages scan db pattern c (ks @ ks')"

definition plain_glob :: "string \<Rightarrow> bool" where
  "plain_glob p = list_all (\<lambda>x. x \<notin> {CHR ''*'', CHR ''?'', CHR ''['', CHR 0x5C}) p"

locale scan_server =
  fixes R :: "'db redis" and scan :: "'db \<Rightarrow> string \<Rightarrow> u64 \<Rightarrow> u64 \<times> string list"
  assumes iteration: "plain_glob p \<Longrightarrow>
    \<exists>ks. scan_pages scan db (p @ ''*'') 0 ks \<and> set ks \<subseteq> range ((@) p) \<and> {k. k \<in> range ((@) p) \<and> r_lrange R db k \<noteq> []} \<subseteq> set ks"
begin

text \<open>With no other client at work, and no command failing, the loop adds up the lengths of the keys of one iteration.\<close>

abbreviation quiet :: "'db \<Rightarrow> 'db len_side" where
  "quiet db \<equiv> \<lparr>ln_pool = True, ln_scan = scan, ln_at = (\<lambda>_. db), ln_fail = (\<lambda>_. None)\<rparr>"

abbreviation key_sizes :: "'db \<Rightarrow> string list \<Rightarrow> nat" where
  "key_sizes db ks \<equiv> sum_list (map (\<lambda>k. length (r_lrange R db k)) ks)"

lemma count_keys_quiet: "acc \<le> U64_MAX \<Longrightarrow> count_keys R (quiet db) ks n acc = (Inr (min U64_MAX (acc + key_sizes db ks)), n + length ks)"
  by (induction ks arbitrary: n acc) (simp_all add: saturate_add add.assoc)

lemma scan_shard_quiet:
  assumes "scan_pages scan db pattern c ks" "acc \<le> U64_MAX"
  shows "\<exists>n'. scan_shard R (quiet db) pattern c n acc = Some (Inr (min U64_MAX (acc + key_sizes db ks)), n')"
  using assms
proof (induction arbitrary: n acc)
  case (finish c ks)
  then show ?case by (simp add: scan_shard.simps count_keys_quiet)
next
  case (more c c' ks ks')
  have "\<exists>n'. scan_shard R (quiet db) pattern c' (Suc n + length ks) (min U64_MAX (acc + key_sizes db ks)) =
      Some (Inr (min U64_MAX (acc + key_sizes db (ks @ ks'))), n')"
    using more.IH [of "min U64_MAX (acc + key_sizes db ks)" "Suc n + length ks"] by (simp add: saturate_add add.assoc)
  then show ?case using more(1,2,5) by (subst scan_shard.simps) (simp add: count_keys_quiet)
qed

lemma shard_sizes:
  assumes "plain_glob p"
  obtains ks where "scan_pages scan db (p @ ''*'') 0 ks" "finite {h. r_lrange R db (p @ h) \<noteq> []}"
    "(\<Sum>h | r_lrange R db (p @ h) \<noteq> []. length (r_lrange R db (p @ h))) \<le> key_sizes db ks"
    "key_sizes db ks = 0 \<longleftrightarrow> (\<forall>h. r_lrange R db (p @ h) = [])"
proof -
  obtain ks where ks: "scan_pages scan db (p @ ''*'') 0 ks" "set ks \<subseteq> range ((@) p)"
      "{k. k \<in> range ((@) p) \<and> r_lrange R db k \<noteq> []} \<subseteq> set ks"
    using iteration [OF assms] by blast
  let ?H = "{h. r_lrange R db (p @ h) \<noteq> []}"
  have sub: "((@) p) ` ?H \<subseteq> set ks" using ks(3) by auto
  have inj: "inj_on ((@) p) ?H" by (auto simp: inj_on_def)
  have fin: "finite ?H" using finite_imageD [OF finite_subset [OF sub] inj] by simp
  have "(\<Sum>h\<in>?H. length (r_lrange R db (p @ h))) = (\<Sum>k\<in>((@) p) ` ?H. length (r_lrange R db k))"
    using inj by (simp add: sum.reindex)
  also have "\<dots> \<le> (\<Sum>k\<in>set ks. length (r_lrange R db k))" by (rule sum_mono2) (use sub in auto)
  also have "\<dots> \<le> key_sizes db ks"
    by (rule sum_set_le_list)
  finally have le: "(\<Sum>h\<in>?H. length (r_lrange R db (p @ h))) \<le> key_sizes db ks" .
  have "r_lrange R db (p @ h) = []" if "key_sizes db ks = 0" for h
  proof (rule ccontr)
    assume h: "r_lrange R db (p @ h) \<noteq> []"
    then have "p @ h \<in> set ks" using ks(3) by blast
    then show False using h that by (auto simp: sum_list_eq_0_iff)
  qed
  moreover have "key_sizes db ks = 0" if "\<forall>h. r_lrange R db (p @ h) = []"
    using ks(2) that by (auto simp: sum_list_eq_0_iff subset_iff)
  ultimately have "key_sizes db ks = 0 \<longleftrightarrow> (\<forall>h. r_lrange R db (p @ h) = [])" by blast
  then show thesis by (rule that [OF ks(1) fin le])
qed

text \<open>What is queued on a shard.\<close>

abbreviation shard_queued :: "'db redis_frontier \<Rightarrow> 'db \<Rightarrow> u32 \<Rightarrow> nat" where
  "shard_queued F db s \<equiv>
     (\<Sum>h | r_lrange R db (host_queue_key (hq_run (rf_ops F)) s h) \<noteq> []. length (r_lrange R db (host_queue_key (hq_run (rf_ops F)) s h)))"

lemma len_shards_quiet:
  assumes "hq_redis (rf_ops F) = R" "\<forall>s \<in> set ss. plain_glob (host_queue_prefix (hq_run (rf_ops F)) s)" "acc \<le> U64_MAX"
  shows "\<exists>d. len_shards F (quiet db) ss n acc = Some (Inr (min U64_MAX (acc + d))) \<and> (\<Sum>s\<leftarrow>ss. shard_queued F db s) \<le> d \<and>
    (d = 0 \<longleftrightarrow> (\<forall>s \<in> set ss. \<forall>h. r_lrange R db (host_queue_key (hq_run (rf_ops F)) s h) = []))"
  using assms(2,3)
proof (induction ss arbitrary: n acc)
  case (Cons s ss)
  let ?p = "host_queue_prefix (hq_run (rf_ops F)) s"
  obtain ks where ks: "scan_pages scan db (?p @ ''*'') 0 ks"
      "(\<Sum>h | r_lrange R db (?p @ h) \<noteq> []. length (r_lrange R db (?p @ h))) \<le> key_sizes db ks"
      "key_sizes db ks = 0 \<longleftrightarrow> (\<forall>h. r_lrange R db (?p @ h) = [])"
    by (rule shard_sizes [of ?p db]) (use Cons.prems(1) in simp)
  obtain n' where r: "scan_shard R (quiet db) (?p @ ''*'') 0 n acc = Some (Inr (min U64_MAX (acc + key_sizes db ks)), n')"
    using scan_shard_quiet [OF ks(1) Cons.prems(2)] by blast
  obtain d where d: "len_shards F (quiet db) ss n' (min U64_MAX (acc + key_sizes db ks)) = Some (Inr (min U64_MAX (min U64_MAX (acc + key_sizes db ks) + d)))"
      "(\<Sum>s\<leftarrow>ss. shard_queued F db s) \<le> d" "d = 0 \<longleftrightarrow> (\<forall>s \<in> set ss. \<forall>h. r_lrange R db (host_queue_key (hq_run (rf_ops F)) s h) = [])"
    using Cons.IH [of "min U64_MAX (acc + key_sizes db ks)" n'] Cons.prems(1) by auto
  show ?case
    using ks(2,3) r d by (intro exI [of _ "key_sizes db ks + d"]) (simp add: assms(1) saturate_add add.assoc key_simps)
qed (auto simp: min_def)

end

text \<open>The depth the frontier reports, on a database no other client changes: the call returns, the depth is at least what is
  queued (a key may be returned twice), and it is zero exactly when nothing is.\<close>

theorem len_counts_queued:
  assumes "scan_server (hq_redis (rf_ops F)) scan" "\<forall>s \<in> set (rf_owned F). plain_glob (host_queue_prefix (hq_run (rf_ops F)) s)"
  shows "\<exists>d. rf_len F \<lparr>ln_pool = True, ln_scan = scan, ln_at = (\<lambda>_. db), ln_fail = (\<lambda>_. None)\<rparr> = Some (Inr (min U64_MAX d)) \<and>
    (\<Sum>s\<leftarrow>rf_owned F. \<Sum>h | r_lrange (hq_redis (rf_ops F)) db (host_queue_key (hq_run (rf_ops F)) s h) \<noteq> [].
       length (r_lrange (hq_redis (rf_ops F)) db (host_queue_key (hq_run (rf_ops F)) s h))) \<le> d \<and>
    (d = 0 \<longleftrightarrow> (\<forall>s \<in> set (rf_owned F). \<forall>h. r_lrange (hq_redis (rf_ops F)) db (host_queue_key (hq_run (rf_ops F)) s h) = []))"
  using scan_server.len_shards_quiet [OF assms(1) refl assms(2), of 0 db 0] by (simp add: rf_len_def)

subsection \<open>An instance\<close>

text \<open>Pages of at most 500 keys, by position.\<close>

definition mem_list_keys :: "mem_db \<Rightarrow> string list" where
  "mem_list_keys db = filter (\<lambda>k. mem_lrange db k \<noteq> []) (remdups (map fst (m_lists db)))"

definition mem_scan :: "mem_db \<Rightarrow> string \<Rightarrow> u64 \<Rightarrow> u64 \<times> string list" where
  "mem_scan db pattern c =
     (let ks = mem_list_keys db; p = butlast pattern in
      (if c + 500 < length ks then c + 500 else 0, filter (\<lambda>k. take (length p) k = p) (take 500 (drop c ks))))"

lemma mem_scan_pages:
  "scan_pages mem_scan db (p @ ''*'') c (filter (\<lambda>k. take (length p) k = p) (drop c (mem_list_keys db)))"
proof (induction "length (mem_list_keys db) - c" arbitrary: c rule: less_induct)
  case less
  let ?f = "filter (\<lambda>k. take (length p) k = p)" and ?ks = "mem_list_keys db"
  show ?case
  proof (cases "c + 500 < length ?ks")
    case True
    have "scan_pages mem_scan db (p @ ''*'') c (?f (take 500 (drop c ?ks)) @ ?f (drop (c + 500) ?ks))"
      by (rule scan_pages.more [where c' = "c + 500"]) (use True less in \<open>simp_all add: mem_scan_def Let_def\<close>)
    moreover have "take 500 (drop c ?ks) @ drop (c + 500) ?ks = drop c ?ks" by (metis append_take_drop_id drop_drop add.commute)
    ultimately show ?thesis by (metis filter_append)
  qed (auto intro!: scan_pages.finish simp: mem_scan_def Let_def)
qed

interpretation mem_scan: scan_server mem_redis mem_scan
proof
  fix db p
  let ?ks = "filter (\<lambda>k. take (length p) k = p) (mem_list_keys db)"
  have "k \<in> fst ` set (m_lists db)" if "mem_lrange db k \<noteq> []" for k
    using that by (auto simp: mem_lrange_def dest: map_of_SomeD split: option.splits intro: rev_image_eqI)
  then have "set (mem_list_keys db) = {k. mem_lrange db k \<noteq> []}" by (auto simp: mem_list_keys_def)
  then have "set ?ks \<subseteq> range ((@) p)" "{k. k \<in> range ((@) p) \<and> r_lrange mem_redis db k \<noteq> []} \<subseteq> set ?ks"
    by (auto simp: mem_redis_def) (metis append_take_drop_id rangeI)
  then show "\<exists>ks. scan_pages mem_scan db (p @ ''*'') 0 ks \<and> set ks \<subseteq> range ((@) p) \<and>
      {k. k \<in> range ((@) p) \<and> r_lrange mem_redis db k \<noteq> []} \<subseteq> set ks"
    using mem_scan_pages [of db p 0] by (intro exI [of _ ?ks]) simp
qed

end
